(* ===== verification/Prelude.thy ===== *)
theory Prelude
  imports Main "HOL-Library.Word" "HOL-Library.Signed_Division"
begin

unbundle bit_operations_syntax

text \<open>
  Shared vocabulary of the development: the machine integers, byte strings and results the
  components use, the parts of the Rust standard library that several components call
  (integer parsing, \<open>str::split\<close>, \<open>Path::join\<close>, \<open>Path::file_name\<close>), and the collections
  of facts the component proofs rest on.

  Conventions.
  \<^item> A Rust \<open>u8\<close>/\<open>u32\<close>/\<open>u64\<close>/\<open>usize\<close> is a word of that width (64-bit targets, so \<open>usize\<close> is 64 bits);
    an \<open>i64\<close> is a 64-bit word read by \<^term>\<open>sint\<close>.
  \<^item> A \<open>&str\<close>, an \<open>OsString\<close> and a \<open>Path\<close> are their bytes, as a \<^typ>\<open>string\<close>.
  \<^item> \<open>Result<T, E>\<close> is \<open>'e + 't\<close> with \<open>Inl\<close> for \<open>Err\<close>.
  \<^item> Where the code can panic, the model returns an option and \<open>None\<close> is the panic.
\<close>

section \<open>Types\<close>

type_synonym u8 = "8 word"
type_synonym u16 = "16 word"
type_synonym u32 = "32 word"
type_synonym u64 = "64 word"
type_synonym usize = "64 word"
type_synonym i64 = "64 word"
type_synonym path = string
type_synonym osstring = string

named_theorems bits_simps \<open>equations that evaluate the bit masks of the model\<close>
named_theorems cmp_simps \<open>numeric comparison against a signed threshold\<close>
named_theorems parse_simps \<open>equations of the string parsers\<close>

section \<open>Results\<close>

text \<open>The error values of the crate: one constructor per message of the source.\<close>

datatype int_error = IntEmpty | IntInvalidDigit | IntPosOverflow | IntNegOverflow

datatype error =
    InvalidNumber string
  | EmptySize
  | SizeNeedsUnit string
  | EmptyPerm
  | InvalidOctal string
  | OctalOutOfRange string
  | PermOpExpected string
  | PermInvalidChar string
  | UnknownUser string
  | UnknownGroup string
  | CannotStatReference path int
  | InvalidFileType string
  | ThreadsOutOfRange
  | ParseInt int_error
  | NotADirectory string
  | IoError int
  | NameRegexConflict
  | MissingPath
  | Lexopt string
  | GlobParse string
  | GlobSetBuild string
  | RegexSetBuild string
  | SignalRegister int

text \<open>The \<open>?\<close> operator: go on with the value, or return the error.\<close>

definition and_then :: "'e + 'a \<Rightarrow> ('a \<Rightarrow> 'e + 'b) \<Rightarrow> 'e + 'b" where
  "and_then r f = (case r of Inl e \<Rightarrow> Inl e | Inr x \<Rightarrow> f x)"

lemma and_then_simps [simp]:
  "and_then (Inl e) f = Inl e"
  "and_then (Inr x) f = f x"
  by (simp_all add: and_then_def)

lemma and_then_Inr_iff: "and_then r f = Inr y \<longleftrightarrow> (\<exists>x. r = Inr x \<and> f x = Inr y)"
  by (cases r) auto

lemma and_then_Inl_iff:
  "and_then r f = Inl e \<longleftrightarrow> r = Inl e \<or> (\<exists>x. r = Inr x \<and> f x = Inl e)"
  by (cases r) auto

definition map_err :: "('e \<Rightarrow> 'f) \<Rightarrow> 'e + 'a \<Rightarrow> 'f + 'a" where
  "map_err g r = (case r of Inl e \<Rightarrow> Inl (g e) | Inr x \<Rightarrow> Inr x)"

lemma map_err_simps [simp]:
  "map_err g (Inl e) = Inl (g e)"
  "map_err g (Inr x) = Inr x"
  by (simp_all add: map_err_def)

lemma map_err_Inr_iff [simp]: "map_err g r = Inr x \<longleftrightarrow> r = Inr x"
  by (cases r) auto

lemma map_err_Inl_iff: "map_err g r = Inl e \<longleftrightarrow> (\<exists>e'. r = Inl e' \<and> e = g e')"
  by (cases r) auto

definition is_ok :: "'e + 'a \<Rightarrow> bool" where
  "is_ok r = (case r of Inl _ \<Rightarrow> False | Inr _ \<Rightarrow> True)"

lemma is_ok_simps [simp]: "\<not> is_ok (Inl e)" "is_ok (Inr x)"
  by (simp_all add: is_ok_def)

lemma is_ok_iff: "is_ok r \<longleftrightarrow> (\<exists>x. r = Inr x)"
  by (cases r) auto

text \<open>\<open>Option::ok_or\<close> on a computation that may panic is not needed: a panic ends the program.
  Sequencing two computations that may panic, the second only when the first gave \<open>true\<close>
  (the early \<open>return false\<close> of a chain of tests):\<close>

definition and_also :: "bool option \<Rightarrow> bool option \<Rightarrow> bool option" where
  "and_also a b = (case a of None \<Rightarrow> None | Some x \<Rightarrow> if x then b else Some False)"

lemma and_also_simps [simp]:
  "and_also None b = None"
  "and_also (Some True) b = b"
  "and_also (Some False) b = Some False"
  by (simp_all add: and_also_def)

lemma and_also_Some_iff:
  "and_also a b = Some True \<longleftrightarrow> a = Some True \<and> b = Some True"
  by (auto simp: and_also_def split: option.splits if_splits)

lemma and_also_not_None: "a \<noteq> None \<Longrightarrow> b \<noteq> None \<Longrightarrow> and_also a b \<noteq> None"
  by (auto simp: and_also_def)

text \<open>A loop \<open>for x in xs { if !test(x) { return false } }\<close>.\<close>

fun all_pass :: "('a \<Rightarrow> bool option) \<Rightarrow> 'a list \<Rightarrow> bool option" where
  "all_pass f [] = Some True"
| "all_pass f (x # xs) = and_also (f x) (all_pass f xs)"

lemma all_pass_Some_True: "all_pass f xs = Some True \<longleftrightarrow> (\<forall>x \<in> set xs. f x = Some True)"
  by (induction xs) (auto simp: and_also_Some_iff)

lemma all_pass_not_None: "(\<And>x. x \<in> set xs \<Longrightarrow> f x \<noteq> None) \<Longrightarrow> all_pass f xs \<noteq> None"
proof (induction xs)
  case Nil
  then show ?case by simp
next
  case (Cons x xs)
  then have "f x \<noteq> None" "all_pass f xs \<noteq> None" by simp_all
  then show ?case by (simp only: all_pass.simps and_also_not_None not_False_eq_True)
qed

lemma all_pass_cong: "(\<And>x. x \<in> set xs \<Longrightarrow> f x = g x) \<Longrightarrow> all_pass f xs = all_pass g xs"
  by (induction xs) auto

text \<open>A test guarded by \<open>if let Some(p) = ...\<close>: absent means passed.\<close>

definition opt_pass :: "('a \<Rightarrow> bool option) \<Rightarrow> 'a option \<Rightarrow> bool option" where
  "opt_pass f p = (case p of None \<Rightarrow> Some True | Some x \<Rightarrow> f x)"

lemma opt_pass_simps [simp]: "opt_pass f None = Some True" "opt_pass f (Some x) = f x"
  by (simp_all add: opt_pass_def)

lemma opt_pass_Some_True: "opt_pass f p = Some True \<longleftrightarrow> (\<forall>x. p = Some x \<longrightarrow> f x = Some True)"
  by (cases p) auto

lemma opt_pass_not_None: "(\<And>x. p = Some x \<Longrightarrow> f x \<noteq> None) \<Longrightarrow> opt_pass f p \<noteq> None"
  by (cases p) auto

lemma opt_pass_total: "opt_pass (\<lambda>x. Some (f x)) p \<noteq> None"
  by (cases p) auto

lemma all_pass_total: "all_pass (\<lambda>x. Some (f x)) xs \<noteq> None"
  by (rule all_pass_not_None) simp

section \<open>Integer parsing\<close>

text \<open>
  \<open>char::to_digit(radix)\<close> for the radixes the crate uses (8 and 10).
\<close>

definition to_digit :: "int \<Rightarrow> char \<Rightarrow> int option" where
  "to_digit radix c =
     (let v = of_char c - (48 :: int) in if 0 \<le> v \<and> v < radix then Some v else None)"

text \<open>
  The digit loop of \<open>from_str_radix\<close>: multiply, decode the digit, add or subtract, each
  step checked against the range \<open>[lo, hi]\<close> of the integer type.
\<close>

fun parse_digits :: "int \<Rightarrow> bool \<Rightarrow> int \<Rightarrow> int \<Rightarrow> int \<Rightarrow> string \<Rightarrow> int_error + int" where
  "parse_digits radix neg lo hi acc [] = Inr acc"
| "parse_digits radix neg lo hi acc (c # cs) =
     (case to_digit radix c of
        None \<Rightarrow> Inl IntInvalidDigit
      | Some d \<Rightarrow>
          (let m = acc * radix; a = (if neg then m - d else m + d) in
           if m < lo \<or> hi < m \<or> a < lo \<or> hi < a
           then Inl (if neg then IntNegOverflow else IntPosOverflow)
           else parse_digits radix neg lo hi a cs))"

definition from_str_radix :: "bool \<Rightarrow> int \<Rightarrow> int \<Rightarrow> int \<Rightarrow> string \<Rightarrow> int_error + int" where
  "from_str_radix signd lo hi radix s =
     (case s of
        [] \<Rightarrow> Inl IntEmpty
      | c # cs \<Rightarrow>
          if (c = CHR ''+'' \<or> c = CHR ''-'') \<and> cs = [] then Inl IntInvalidDigit
          else if c = CHR ''+'' then parse_digits radix False lo hi 0 cs
          else if c = CHR ''-'' \<and> signd then parse_digits radix True lo hi 0 cs
          else parse_digits radix False lo hi 0 s)"

definition parse_i64 :: "string \<Rightarrow> int_error + i64" where
  "parse_i64 s = map_sum id word_of_int (from_str_radix True (- (2 ^ 63)) (2 ^ 63 - 1) 10 s)"

definition parse_u32_radix :: "int \<Rightarrow> string \<Rightarrow> int_error + u32" where
  "parse_u32_radix radix s = map_sum id word_of_int (from_str_radix False 0 (2 ^ 32 - 1) radix s)"

definition parse_usize :: "string \<Rightarrow> int_error + usize" where
  "parse_usize s = map_sum id word_of_int (from_str_radix False 0 (2 ^ 64 - 1) 10 s)"

lemma parse_digits_range:
  "parse_digits radix neg lo hi acc cs = Inr v \<Longrightarrow> lo \<le> acc \<Longrightarrow> acc \<le> hi \<Longrightarrow> lo \<le> v \<and> v \<le> hi"
  by (induction radix neg lo hi acc cs rule: parse_digits.induct)
     (auto simp: Let_def split: option.splits if_splits)

lemma from_str_radix_range:
  assumes "from_str_radix signd lo hi radix s = Inr v" and "lo \<le> 0" and "0 \<le> hi"
  shows "lo \<le> v \<and> v \<le> hi"
  using assms
  by (auto simp: from_str_radix_def simp del: parse_digits.simps
      split: list.splits if_splits dest!: parse_digits_range)

lemma parse_digits_append:
  "parse_digits radix neg lo hi acc (xs @ ys) =
   and_then (parse_digits radix neg lo hi acc xs) (\<lambda>a. parse_digits radix neg lo hi a ys)"
  by (induction radix neg lo hi acc xs rule: parse_digits.induct)
     (auto simp: Let_def split: option.splits)

text \<open>Printing, for the round trips: the digits of a number, most significant first.\<close>

definition digit_char :: "nat \<Rightarrow> char" where
  "digit_char d = char_of (48 + d)"

function show_radix :: "nat \<Rightarrow> nat \<Rightarrow> string" where
  "show_radix radix n =
     (if n < radix \<or> radix < 2 then [digit_char n]
      else show_radix radix (n div radix) @ [digit_char (n mod radix)])"
  by pat_completeness auto
termination
  by (relation "measure snd") auto

declare show_radix.simps [simp del]

lemma of_char_digit_char: "d < 10 \<Longrightarrow> of_char (digit_char d) = (48 + int d)"
proof -
  assume "d < 10"
  then have "(of_char (digit_char d) :: nat) = 48 + d"
    by (simp add: digit_char_def)
  then have "int (of_char (digit_char d)) = 48 + int d" by simp
  then show ?thesis by (simp only: of_nat_of_char)
qed

lemma to_digit_digit_char: "d < 10 \<Longrightarrow> int d < radix \<Longrightarrow> to_digit radix (digit_char d) = Some (int d)"
  by (simp add: to_digit_def of_char_digit_char)

lemma parse_digits_show:
  assumes "2 \<le> radix" "radix \<le> 10" "int n \<le> hi" "lo \<le> 0"
  shows "parse_digits (int radix) False lo hi 0 (show_radix radix n) = Inr (int n)"
  using assms
proof (induction radix n rule: show_radix.induct)
  case (1 radix n)
  show ?case
  proof (cases "n < radix")
    case True
    with 1 show ?thesis
      by (simp add: show_radix.simps [of radix n] to_digit_digit_char)
  next
    case False
    have le: "int (n div radix) \<le> hi"
      using 1 by (meson div_le_dividend of_nat_mono order_trans)
    have IH: "parse_digits (int radix) False lo hi 0 (show_radix radix (n div radix)) = Inr (int (n div radix))"
      using 1 False le by auto
    have m: "n mod radix < radix" using 1 by simp
    have eq: "int (n div radix) * int radix + int (n mod radix) = int n"
      by (metis div_mult_mod_eq of_nat_add of_nat_mult)
    have b: "int (n div radix) * int radix \<le> hi" "0 \<le> int (n div radix) * int radix"
      using eq 1 by (smt (verit) of_nat_0_le_iff, simp)
    have d: "to_digit (int radix) (digit_char (n mod radix)) = Some (int (n mod radix))"
      using m 1(3) by (intro to_digit_digit_char) linarith+
    have lo: "lo \<le> int (n div radix) * int radix" "lo \<le> int n"
      using b 1 by linarith+
    show ?thesis
      using False 1 IH d eq b lo
      by (simp add: show_radix.simps [of radix n] parse_digits_append)
  qed
qed

lemma show_radix_nonempty: "show_radix radix n \<noteq> []"
  by (subst show_radix.simps) simp

lemma set_show_radix:
  assumes "2 \<le> radix"
  shows "set (show_radix radix n) \<subseteq> digit_char ` {..<radix}"
  using assms
proof (induction radix n rule: show_radix.induct)
  case (1 radix n)
  then have "n mod radix < radix" by simp
  then have "digit_char (n mod radix) \<in> digit_char ` {..<radix}" by blast
  then show ?case
    using 1 by (auto simp: show_radix.simps [of radix n])
qed

lemma digit_char_not_sign:
  "d < 10 \<Longrightarrow> digit_char d \<noteq> CHR ''+'' \<and> digit_char d \<noteq> CHR ''-''"
proof -
  assume d: "d < 10"
  have "of_char (digit_char d) = (48 + int d)" by (rule of_char_digit_char [OF d])
  moreover have "of_char CHR ''+'' = (43::int)" "of_char CHR ''-'' = (45::int)"
    by (simp_all add: of_char_def)
  ultimately show ?thesis by force
qed

lemma digit_char_not_NUL: "d < 10 \<Longrightarrow> digit_char d \<noteq> CHR 0x00"
proof -
  assume d: "d < 10"
  have "of_char (digit_char d) = (48 + int d)" by (rule of_char_digit_char [OF d])
  moreover have "of_char (CHR 0x00) = (0 :: int)" by (simp add: of_char_def)
  ultimately show ?thesis by force
qed

lemma show_radix_no_NUL: "2 \<le> radix \<Longrightarrow> radix \<le> 10 \<Longrightarrow> CHR 0x00 \<notin> set (show_radix radix n)"
proof
  assume r: "2 \<le> radix" "radix \<le> 10" and "CHR 0x00 \<in> set (show_radix radix n)"
  then obtain d where "d < radix" "CHR 0x00 = digit_char d"
    using set_show_radix [of radix n] by auto
  with r digit_char_not_NUL [of d] show False by simp
qed

lemma from_str_radix_show:
  assumes "2 \<le> radix" "radix \<le> 10" "int n \<le> hi" "lo \<le> 0"
  shows "from_str_radix signd lo hi (int radix) (show_radix radix n) = Inr (int n)"
proof -
  obtain c cs where s: "show_radix radix n = c # cs"
    using show_radix_nonempty by (cases "show_radix radix n") auto
  then have "c \<in> digit_char ` {..<radix}"
    using set_show_radix [OF assms(1), of n] by auto
  then have "c \<noteq> CHR ''+'' \<and> c \<noteq> CHR ''-''"
    using assms(2) digit_char_not_sign by fastforce
  then show ?thesis
    using parse_digits_show [OF assms] s by (simp add: from_str_radix_def)
qed

section \<open>Strings and paths\<close>

text \<open>\<open>str::split(sep)\<close>: the pieces between separators, at least one.\<close>

fun split_on :: "char \<Rightarrow> string \<Rightarrow> string list" where
  "split_on sep [] = [[]]"
| "split_on sep (c # cs) =
     (if c = sep then [] # split_on sep cs
      else (case split_on sep cs of [] \<Rightarrow> [[c]] | p # ps \<Rightarrow> (c # p) # ps))"

lemma split_on_nonempty [simp]: "split_on sep s \<noteq> []"
  by (induction s) (auto split: list.splits)

lemma split_on_no_sep: "sep \<notin> set s \<Longrightarrow> split_on sep s = [s]"
  by (induction s) auto

lemma split_on_append: "sep \<notin> set p \<Longrightarrow> split_on sep (p @ sep # s) = p # split_on sep s"
  by (induction p) auto

lemma split_on_pieces: "p \<in> set (split_on sep s) \<Longrightarrow> sep \<notin> set p"
  by (induction s arbitrary: p) (auto split: list.splits if_splits)

lemma split_on_snoc_sep: "split_on sep (s @ sep # t) = split_on sep s @ split_on sep t"
proof (induction s)
  case Nil
  then show ?case by simp
next
  case (Cons c cs)
  obtain p ps where "split_on sep cs = p # ps"
    using split_on_nonempty by (cases "split_on sep cs") auto
  with Cons show ?case by simp
qed

text \<open>Putting the pieces back together.\<close>

fun join_with :: "char \<Rightarrow> string list \<Rightarrow> string" where
  "join_with sep [] = []"
| "join_with sep [p] = p"
| "join_with sep (p # ps) = p @ sep # join_with sep ps"

lemma join_with_Cons: "ps \<noteq> [] \<Longrightarrow> join_with sep (p # ps) = p @ sep # join_with sep ps"
  by (cases ps) auto

lemma join_with_split_on: "join_with sep (split_on sep s) = s"
proof (induction s)
  case Nil
  then show ?case by simp
next
  case (Cons c cs)
  obtain p ps where p: "split_on sep cs = p # ps"
    using split_on_nonempty by (cases "split_on sep cs") auto
  then show ?case
    using Cons by (cases ps) auto
qed

lemma split_on_join_with:
  "ps \<noteq> [] \<Longrightarrow> (\<And>p. p \<in> set ps \<Longrightarrow> sep \<notin> set p) \<Longrightarrow> split_on sep (join_with sep ps) = ps"
  by (induction sep ps rule: join_with.induct) (auto simp: split_on_no_sep split_on_append)

text \<open>\<open>str::strip_prefix(char)\<close>.\<close>

definition strip_prefix :: "char \<Rightarrow> string \<Rightarrow> string option" where
  "strip_prefix c s = (case s of [] \<Rightarrow> None | d # ds \<Rightarrow> if c = d then Some ds else None)"

lemma strip_prefix_simps [simp]:
  "strip_prefix c [] = None"
  "strip_prefix c (d # ds) = (if c = d then Some ds else None)"
  by (simp_all add: strip_prefix_def)

text \<open>
  \<open>Path::join\<close> on Unix: an absolute operand replaces the path, otherwise one slash is put
  between the two unless the path is empty or already ends in one.
\<close>

definition path_join :: "path \<Rightarrow> string \<Rightarrow> path" where
  "path_join p n =
     (if n \<noteq> [] \<and> hd n = CHR ''/'' then n
      else if p = [] \<or> last p = CHR ''/'' then p @ n
      else p @ CHR ''/'' # n)"

text \<open>
  \<open>Path::file_name\<close> on Unix: the last component, when it is a normal one. Empty components
  are dropped, and \<open>.\<close> components too unless the path is relative and starts with one.
\<close>

definition path_components :: "path \<Rightarrow> string list" where
  "path_components p =
     (case split_on (CHR ''/'') p of
        [] \<Rightarrow> []
      | c # cs \<Rightarrow> (if c = [] then [] else [c]) @ filter (\<lambda>x. x \<noteq> [] \<and> x \<noteq> ''.'') cs)"

definition path_file_name :: "path \<Rightarrow> string option" where
  "path_file_name p =
     (case rev (path_components p) of
        [] \<Rightarrow> None
      | c # _ \<Rightarrow> if c = ''.'' \<or> c = ''..'' then None else Some c)"

text \<open>A name a directory listing can hold, \<open>.\<close> and \<open>..\<close> excluded.\<close>

definition leaf_name :: "string \<Rightarrow> bool" where
  "leaf_name n \<longleftrightarrow> n \<noteq> [] \<and> CHR ''/'' \<notin> set n \<and> n \<noteq> ''.'' \<and> n \<noteq> ''..''"

lemma path_join_leaf:
  "leaf_name n \<Longrightarrow> path_join p n = (if p = [] \<or> last p = CHR ''/'' then p @ n else p @ CHR ''/'' # n)"
  by (cases n) (auto simp: path_join_def leaf_name_def)

lemma path_components_snoc:
  assumes "leaf_name n"
  shows "rev (path_components (p @ CHR ''/'' # n)) = n # rev (path_components p)"
proof -
  obtain c cs where "split_on (CHR ''/'') p = c # cs"
    using split_on_nonempty by (cases "split_on (CHR ''/'') p") auto
  with assms show ?thesis
    by (auto simp: path_components_def split_on_snoc_sep split_on_no_sep leaf_name_def)
qed

lemma path_file_name_snoc:
  assumes "leaf_name n"
  shows "path_file_name (q @ CHR ''/'' # n) = Some n"
  unfolding path_file_name_def path_components_snoc [OF assms]
  using assms by (simp add: leaf_name_def)

lemma path_file_name_leaf:
  assumes "leaf_name n"
  shows "path_file_name n = Some n"
proof -
  have "path_components n = [n]"
    using assms by (simp add: path_components_def leaf_name_def split_on_no_sep)
  with assms show ?thesis by (simp add: path_file_name_def leaf_name_def)
qed

lemma path_file_name_join:
  assumes "leaf_name n"
  shows "path_file_name (path_join p n) = Some n"
proof -
  consider "p = []" | q where "p = q @ [CHR ''/'']" | "p \<noteq> []" "last p \<noteq> CHR ''/''"
    by (metis append_butlast_last_id)
  then have "path_join p n = n \<or> (\<exists>q. path_join p n = q @ CHR ''/'' # n)"
    by cases (use assms in \<open>simp_all add: path_join_leaf\<close>)
  then show ?thesis
    using path_file_name_snoc [OF assms] path_file_name_leaf [OF assms] by auto
qed

lemma path_join_inj:
  assumes "leaf_name m" "leaf_name n" "path_join p m = path_join p n"
  shows "m = n"
proof -
  have "Some m = Some n"
    using path_file_name_join [OF assms(1), of p] path_file_name_join [OF assms(2), of p]
    by (simp only: assms(3))
  then show ?thesis by simp
qed

section \<open>Bits\<close>

lemma word_and_eq_0_iff: "(a AND b = 0) \<longleftrightarrow> (\<forall>n. \<not> (bit a n \<and> bit b n))"
  for a b :: "'a::len word"
  by (auto simp: bit_eq_iff bit_simps dest: bit_imp_le_length)

lemma word_and_absorb_iff: "(a AND b = b) \<longleftrightarrow> (\<forall>n. bit b n \<longrightarrow> bit a n)"
  for a b :: "'a::len word"
  by (auto simp: bit_eq_iff bit_simps dest: bit_imp_le_length)

lemma word_or_eq_0_iff [simp]: "(a OR b = 0) \<longleftrightarrow> a = 0 \<and> b = 0"
  for a b :: "'a::len word"
  by (auto simp: bit_eq_iff bit_simps)

lemma word_or_and_eq_0_iff: "((a OR b) AND c = 0) \<longleftrightarrow> a AND c = 0 \<and> b AND c = 0"
  for a b c :: "'a::len word"
  by (simp add: word_ao_dist)

lemma word_and_or_eq_0_iff: "(c AND (a OR b) = 0) \<longleftrightarrow> c AND a = 0 \<and> c AND b = 0"
  for a b c :: "'a::len word"
  by (simp add: word_ao_dist2)

section \<open>Signed 64-bit values\<close>

lemma sint_i64_bounds: "- (2 ^ 63) \<le> sint (x :: i64)" "sint (x :: i64) < 2 ^ 63"
  using sint_ge [of x] sint_lt [of x] by simp_all

lemma sint_word_of_int_i64:
  "- (2 ^ 63) \<le> v \<Longrightarrow> v < 2 ^ 63 \<Longrightarrow> sint (word_of_int v :: i64) = v"
  by (simp add: sint_sbintrunc' signed_take_bit_int_eq_self)

lemma sint_diff_i64:
  fixes a b :: i64
  assumes "- (2 ^ 63) \<le> sint a - sint b" "sint a - sint b < 2 ^ 63"
  shows "sint (a - b) = sint a - sint b"
  using assms by (simp add: sint_word_diff signed_take_bit_int_eq_self)

lemma sint_eq_uint_i64:
  fixes x :: i64
  assumes "uint x < 2 ^ 63"
  shows "sint x = uint x"
proof -
  have "signed_take_bit 63 (uint x) = uint x"
    using assms by (intro signed_take_bit_int_eq_self) (auto intro: order_trans [of _ 0])
  then show ?thesis by (simp add: sint_uint)
qed

lemma sint_uint_i64_neg:
  fixes x :: i64
  assumes "2 ^ 63 \<le> uint x"
  shows "sint x = uint x - 2 ^ 64"
proof -
  have lt: "uint x < 2 ^ 64" using uint_lt2p [of x] by simp
  have "sint x = signed_take_bit 63 (uint x)" by (simp add: sint_uint)
  also have "\<dots> = signed_take_bit 63 (uint x - 2 ^ 64)"
    by (rule signed_take_bit_eq_iff_take_bit_eq [THEN iffD2]) (simp add: take_bit_eq_mod)
  also have "\<dots> = uint x - 2 ^ 64"
    using assms lt by (intro signed_take_bit_int_eq_self) simp_all
  finally show ?thesis .
qed

text \<open>\<open>/\<close> on \<open>i64\<close>: truncation towards zero; a zero divisor and \<open>i64::MIN / -1\<close> panic.\<close>

definition i64_div :: "i64 \<Rightarrow> i64 \<Rightarrow> i64 option" where
  "i64_div a b =
     (if sint b = 0 \<or> (sint a = - (2 ^ 63) \<and> sint b = - 1) then None
      else Some (word_of_int (sint a sdiv sint b)))"

lemma sdiv_pos_eq:
  fixes k n :: int
  assumes "0 < n"
  shows "k sdiv n = (if 0 \<le> k then k div n else - (- k div n))"
  using assms by (auto simp: signed_divide_int_def sgn_if)

lemma sdiv_pos_bounds:
  fixes k n :: int
  assumes "0 < n"
  shows "(0 \<le> k \<longrightarrow> 0 \<le> k sdiv n \<and> k sdiv n \<le> k) \<and> (k < 0 \<longrightarrow> k \<le> k sdiv n \<and> k sdiv n \<le> 0)"
  using assms zdiv_mono2 [of k 1 n] zdiv_mono2 [of "- k" 1 n]
  by (auto simp: sdiv_pos_eq pos_imp_zdiv_nonneg_iff)

lemma i64_div_pos:
  assumes "0 < sint b"
  shows "\<exists>q. i64_div a b = Some q \<and> sint q = sint a sdiv sint b"
proof -
  have "- (2 ^ 63) \<le> sint a sdiv sint b" "sint a sdiv sint b < 2 ^ 63"
    using sdiv_pos_bounds [OF assms, of "sint a"] sint_i64_bounds [of a] by linarith+
  then have "sint (word_of_int (sint a sdiv sint b) :: i64) = sint a sdiv sint b"
    by (rule sint_word_of_int_i64)
  then show ?thesis
    using assms by (simp add: i64_div_def)
qed

end
