(* ===== verification/Meta.thy ===== *)
theory Meta
  imports Prelude
begin

text \<open>
  The numeric metadata predicates of \<open>src/meta.rs\<close>: the stat record and its field mask bits,
  find's \<open>N\<close>/\<open>+N\<close>/\<open>-N\<close> comparison, size, time, id and reference-time predicates, with what
  each decides stated over unbounded integers. Arithmetic is that of the release profile:
  \<open>i64\<close> subtraction wraps.
\<close>

section \<open>Masks, units and the stat record\<close>

definition mask_SIZE :: u32 where "mask_SIZE = push_bit 0 1"
definition mask_MTIME :: u32 where "mask_MTIME = push_bit 1 1"
definition mask_CTIME :: u32 where "mask_CTIME = push_bit 2 1"
definition mask_ATIME :: u32 where "mask_ATIME = push_bit 3 1"
definition mask_MODE :: u32 where "mask_MODE = push_bit 4 1"
definition mask_UID :: u32 where "mask_UID = push_bit 5 1"
definition mask_GID :: u32 where "mask_GID = push_bit 6 1"
definition mask_NLINK :: u32 where "mask_NLINK = push_bit 7 1"
definition mask_INO :: u32 where "mask_INO = push_bit 8 1"

lemmas mask_defs [bits_simps] =
  mask_SIZE_def mask_MTIME_def mask_CTIME_def mask_ATIME_def mask_MODE_def
  mask_UID_def mask_GID_def mask_NLINK_def mask_INO_def

definition DAY :: i64 where "DAY = 86400"
definition MINUTE :: i64 where "MINUTE = 60"

definition access_READ :: u8 where "access_READ = push_bit 0 1"
definition access_WRITE :: u8 where "access_WRITE = push_bit 1 1"
definition access_EXEC :: u8 where "access_EXEC = push_bit 2 1"

lemmas access_defs [bits_simps] = access_READ_def access_WRITE_def access_EXEC_def

record Meta =
  m_size :: u64
  m_mtime :: i64
  m_ctime :: i64
  m_atime :: i64
  m_mode :: u32
  m_uid :: u32
  m_gid :: u32
  m_nlink :: u64
  m_ino :: u64

section \<open>Numeric comparison\<close>

datatype Comparison = Exact i64 | Greater i64 | Less i64

definition comparison_parse :: "string \<Rightarrow> error + Comparison" where
  "comparison_parse s =
     (let (ctor, num) =
        (case strip_prefix (CHR ''+'') s of
           Some n \<Rightarrow> (Greater, n)
         | None \<Rightarrow>
             (case strip_prefix (CHR ''-'') s of
                Some n \<Rightarrow> (Less, n)
              | None \<Rightarrow> (Exact, s)))
      in and_then (map_err (\<lambda>_. InvalidNumber s) (parse_i64 num)) (\<lambda>v. Inr (ctor v)))"

fun comparison_matches :: "Comparison \<Rightarrow> i64 \<Rightarrow> bool" where
  "comparison_matches (Exact n) v = (v = n)"
| "comparison_matches (Greater n) v = (n <s v)"
| "comparison_matches (Less n) v = (v <s n)"

definition i64_MAX :: i64 where "i64_MAX = 0x7FFFFFFFFFFFFFFF"

text \<open>\<open>i64::try_from(v).unwrap_or(i64::MAX)\<close>\<close>

definition i64_saturate :: "u64 \<Rightarrow> i64" where
  "i64_saturate v = (if uint v < 2 ^ 63 then v else i64_MAX)"

definition comparison_matches_u64 :: "Comparison \<Rightarrow> u64 \<Rightarrow> bool" where
  "comparison_matches_u64 c v = comparison_matches c (i64_saturate v)"

section \<open>Size\<close>

record SizePred =
  sp_cmp :: Comparison
  sp_unit :: u64

definition size_unit :: "char \<Rightarrow> u64 option" where
  "size_unit c =
     (if c = CHR ''c'' then Some 1
      else if c = CHR ''k'' then Some (push_bit 10 1)
      else if c = CHR ''M'' then Some (push_bit 20 1)
      else if c = CHR ''G'' then Some (push_bit 30 1)
      else if c = CHR ''T'' then Some (push_bit 40 1)
      else None)"

text \<open>
  The last byte decides: a suffix that matches is one byte long, and a string whose last
  character is not ASCII ends in a byte that is none of the five suffixes.
\<close>

definition size_parse :: "string \<Rightarrow> error + SizePred" where
  "size_parse s =
     (if s = [] then Inl EmptySize
      else
        (case size_unit (last s) of
           None \<Rightarrow> Inl (SizeNeedsUnit s)
         | Some u \<Rightarrow>
             and_then (comparison_parse (butlast s)) (\<lambda>c. Inr \<lparr>sp_cmp = c, sp_unit = u\<rparr>)))"

text \<open>\<open>u64::div_ceil\<close>; a zero divisor panics.\<close>

definition u64_div_ceil :: "u64 \<Rightarrow> u64 \<Rightarrow> u64 option" where
  "u64_div_ceil a b =
     (if b = 0 then None
      else let d = a div b; r = a mod b in Some (if 0 < r then d + 1 else d))"

definition size_matches :: "SizePred \<Rightarrow> u64 \<Rightarrow> bool option" where
  "size_matches p sz = map_option (comparison_matches_u64 (sp_cmp p)) (u64_div_ceil sz (sp_unit p))"

section \<open>Times\<close>

datatype TimeField = Mtime | Ctime | Atime

fun time_field_mask :: "TimeField \<Rightarrow> u32" where
  "time_field_mask Mtime = mask_MTIME"
| "time_field_mask Ctime = mask_CTIME"
| "time_field_mask Atime = mask_ATIME"

fun time_field_of :: "TimeField \<Rightarrow> Meta \<Rightarrow> i64" where
  "time_field_of Mtime m = m_mtime m"
| "time_field_of Ctime m = m_ctime m"
| "time_field_of Atime m = m_atime m"

record TimePred =
  tp_cmp :: Comparison
  tp_unit_secs :: i64
  tp_field :: TimeField

definition time_new :: "string \<Rightarrow> i64 \<Rightarrow> TimeField \<Rightarrow> error + TimePred" where
  "time_new s unit_secs field =
     and_then (comparison_parse s)
       (\<lambda>c. Inr \<lparr>tp_cmp = c, tp_unit_secs = unit_secs, tp_field = field\<rparr>)"

definition time_mtime :: "string \<Rightarrow> i64 \<Rightarrow> error + TimePred" where
  "time_mtime s unit_secs = time_new s unit_secs Mtime"

definition time_ctime :: "string \<Rightarrow> i64 \<Rightarrow> error + TimePred" where
  "time_ctime s unit_secs = time_new s unit_secs Ctime"

definition time_atime :: "string \<Rightarrow> i64 \<Rightarrow> error + TimePred" where
  "time_atime s unit_secs = time_new s unit_secs Atime"

definition time_matches :: "TimePred \<Rightarrow> Meta \<Rightarrow> i64 \<Rightarrow> bool option" where
  "time_matches p m now =
     (let t = time_field_of (tp_field p) m
      in map_option (comparison_matches (tp_cmp p)) (i64_div (now - t) (tp_unit_secs p)))"

section \<open>Ids and reference times\<close>

record IdPred =
  ip_cmp :: Comparison

definition id_parse :: "string \<Rightarrow> error + IdPred" where
  "id_parse s = and_then (comparison_parse s) (\<lambda>c. Inr \<lparr>ip_cmp = c\<rparr>)"

definition id_exact :: "u32 \<Rightarrow> IdPred" where
  "id_exact i = \<lparr>ip_cmp = Exact (ucast i)\<rparr>"

definition id_matches :: "IdPred \<Rightarrow> u64 \<Rightarrow> bool" where
  "id_matches p v = comparison_matches_u64 (ip_cmp p) v"

record NewerPred =
  np_ref_mtime :: i64
  np_field :: TimeField

definition newer_newer :: "i64 \<Rightarrow> NewerPred" where
  "newer_newer r = \<lparr>np_ref_mtime = r, np_field = Mtime\<rparr>"

definition newer_anewer :: "i64 \<Rightarrow> NewerPred" where
  "newer_anewer r = \<lparr>np_ref_mtime = r, np_field = Atime\<rparr>"

definition newer_cnewer :: "i64 \<Rightarrow> NewerPred" where
  "newer_cnewer r = \<lparr>np_ref_mtime = r, np_field = Ctime\<rparr>"

definition newer_matches :: "NewerPred \<Rightarrow> Meta \<Rightarrow> bool" where
  "newer_matches p m = (np_ref_mtime p <s time_field_of (np_field p) m)"

text \<open>
  A \<open>SystemTime\<close> on Unix: signed seconds and a nanosecond part below \<open>10 ^ 9\<close>, so the time
  is before the epoch exactly when the seconds are negative. \<open>duration_since(UNIX_EPOCH)\<close>
  fails there and the code takes 0; after it the seconds fit an \<open>i64\<close>.
\<close>

record SystemTime =
  st_secs :: i64
  st_nanos :: u32

definition secs_since_epoch :: "SystemTime \<Rightarrow> i64" where
  "secs_since_epoch t = (if sint (st_secs t) < 0 then 0 else i64_saturate (st_secs t))"

text \<open>\<open>modified\<close> is \<open>std::fs::metadata(path).and_then(|m| m.modified())\<close>: an errno or the time.\<close>

definition file_mtime :: "(path \<Rightarrow> int + SystemTime) \<Rightarrow> path \<Rightarrow> error + i64" where
  "file_mtime modified p =
     and_then (map_err (CannotStatReference p) (modified p)) (\<lambda>t. Inr (secs_since_epoch t))"

definition now_secs :: "SystemTime \<Rightarrow> i64" where
  "now_secs system_now = secs_since_epoch system_now"

section \<open>Comparison over unbounded integers\<close>

text \<open>What find's three forms mean, with no width.\<close>

fun comparison_holds :: "Comparison \<Rightarrow> int \<Rightarrow> bool" where
  "comparison_holds (Exact n) v = (v = sint n)"
| "comparison_holds (Greater n) v = (sint n < v)"
| "comparison_holds (Less n) v = (v < sint n)"

fun threshold :: "Comparison \<Rightarrow> i64" where
  "threshold (Exact n) = n"
| "threshold (Greater n) = n"
| "threshold (Less n) = n"

lemma comparison_matches_sint [cmp_simps]: "comparison_matches c v = comparison_holds c (sint v)"
  by (cases c) (auto simp: word_sless_alt intro: signed_word_eqI)

lemma sint_i64_MAX [simp]: "sint i64_MAX = 2 ^ 63 - 1"
  by (simp add: i64_MAX_def)

lemma sint_i64_saturate: "sint (i64_saturate v) = min (uint v) (2 ^ 63 - 1)"
  by (auto simp: i64_saturate_def sint_eq_uint_i64)

lemma comparison_matches_u64_min [cmp_simps]:
  "comparison_matches_u64 c v = comparison_holds c (min (uint v) (2 ^ 63 - 1))"
  by (simp add: comparison_matches_u64_def comparison_matches_sint sint_i64_saturate)

lemma threshold_le: "sint (threshold c) \<le> 2 ^ 63 - 1"
  using sint_i64_bounds(2) [of "threshold c"] by linarith

lemma comparison_matches_u64_exact:
  "sint (threshold c) < 2 ^ 63 - 1 \<Longrightarrow> comparison_matches_u64 c v = comparison_holds c (uint v)"
  by (cases c) (auto simp: comparison_matches_u64_min min_def)

text \<open>
  Comparing an unsigned stat field after clamping it to \<open>i64::MAX\<close> gives the verdict of
  the unclamped comparison, except when the field is at least \<open>2 ^ 63\<close> and the threshold is
  exactly \<open>i64::MAX\<close> under \<open>N\<close> or \<open>+N\<close>.
\<close>

theorem clamped_comparison_verdict:
  "comparison_matches_u64 c v = comparison_holds c (uint v) \<longleftrightarrow>
     uint v < 2 ^ 63 \<or> sint (threshold c) < 2 ^ 63 - 1 \<or> (\<exists>n. c = Less n)"
  using threshold_le [of c]
  by (cases c) (auto simp: comparison_matches_u64_min min_def)

text \<open>Parsing a printed number gives it back, under each of the three signs.\<close>

lemma parse_i64_show:
  assumes "int n < 2 ^ 63"
  shows "\<exists>v. parse_i64 (show_radix 10 n) = Inr v \<and> sint v = int n"
proof -
  have "from_str_radix True (- (2 ^ 63)) (2 ^ 63 - 1) (int 10) (show_radix 10 n) = Inr (int n)"
    using assms by (intro from_str_radix_show) simp_all
  then have "parse_i64 (show_radix 10 n) = Inr (word_of_int (int n))"
    by (simp add: parse_i64_def)
  moreover have "sint (word_of_int (int n) :: i64) = int n"
    using assms by (intro sint_word_of_int_i64) simp_all
  ultimately show ?thesis by blast
qed

lemma show_radix_10_hd: "\<exists>d ds. show_radix 10 n = d # ds \<and> d \<noteq> CHR ''+'' \<and> d \<noteq> CHR ''-''"
proof -
  obtain d ds where s: "show_radix 10 n = d # ds"
    using show_radix_nonempty by (cases "show_radix 10 n") auto
  then have "d \<in> digit_char ` {..<10}"
    using set_show_radix [of 10 n] by auto
  with s digit_char_not_sign show ?thesis by auto
qed

lemma comparison_parse_show:
  assumes "int n < 2 ^ 63"
  shows "\<exists>v. sint v = int n
    \<and> comparison_parse (show_radix 10 n) = Inr (Exact v)
    \<and> comparison_parse (CHR ''+'' # show_radix 10 n) = Inr (Greater v)
    \<and> comparison_parse (CHR ''-'' # show_radix 10 n) = Inr (Less v)"
proof -
  obtain v where v: "parse_i64 (show_radix 10 n) = Inr v" "sint v = int n"
    using parse_i64_show [OF assms] by blast
  obtain d ds where d: "show_radix 10 n = d # ds" "d \<noteq> CHR ''+''" "d \<noteq> CHR ''-''"
    using show_radix_10_hd by blast
  show ?thesis
    using v d by (auto simp: comparison_parse_def)
qed

section \<open>Size: rounding up to the unit\<close>

lemma ceil_div_eq:
  fixes a b :: int
  assumes "0 < b"
  shows "(a + b - 1) div b = (if a mod b = 0 then a div b else a div b + 1)"
proof -
  have pos: "0 \<le> a mod b" "a mod b < b"
    using assms by simp_all
  have "a + b - 1 = b * (a div b) + (a mod b + b - 1)" by simp
  then have "(a + b - 1) div b = (b * (a div b) + (a mod b + b - 1)) div b"
    by (rule arg_cong)
  also have "\<dots> = a div b + (a mod b + b - 1) div b"
    using assms by (subst div_mult_self4) auto
  also have "(a mod b + b - 1) div b = (if a mod b = 0 then 0 else 1)"
  proof (cases "a mod b = 0")
    case True
    with assms show ?thesis by (simp add: div_pos_pos_trivial)
  next
    case False
    then have "a mod b + b - 1 = b + (a mod b - 1)" and "0 \<le> a mod b - 1" and "a mod b - 1 < b"
      using pos by linarith+
    with assms False show ?thesis by (simp only: div_add_self1 div_pos_pos_trivial) simp
  qed
  finally show ?thesis by simp
qed

lemma u64_div_ceil_uint:
  assumes "0 < uint b"
  shows "\<exists>q. u64_div_ceil a b = Some q \<and> uint q = (uint a + uint b - 1) div uint b"
proof -
  let ?a = "uint a" and ?b = "uint b"
  have nz: "b \<noteq> 0" using assms by auto
  have d: "uint (a div b) = ?a div ?b" and r: "uint (a mod b) = ?a mod ?b"
    by (simp_all add: uint_div uint_mod)
  have pos: "0 \<le> ?a mod ?b" "?a mod ?b < ?b" using assms by simp_all
  have "uint (a div b + 1) = ?a div ?b + 1" if "?a mod ?b \<noteq> 0"
  proof -
    have "2 \<le> ?b" using pos that by linarith
    then have "?a div ?b \<le> ?a div 2" by (intro zdiv_mono2) simp_all
    then have "?a div ?b + 1 < 2 ^ 64" using uint_lt2p [of a] by simp
    then show ?thesis using d assms
      by (simp add: uint_word_ariths pos_imp_zdiv_nonneg_iff)
  qed
  then show ?thesis
    using nz d r pos ceil_div_eq [OF assms, of ?a]
    by (auto simp: u64_div_ceil_def Let_def word_less_def)
qed

lemma less_div_iff:
  fixes n a b :: int
  assumes "0 < b"
  shows "n < a div b \<longleftrightarrow> (n + 1) * b \<le> a"
proof -
  have "n + 1 \<le> a div b \<longleftrightarrow> (n + 1) * b \<le> a"
  proof
    assume "n + 1 \<le> a div b"
    then have "(n + 1) * b \<le> (a div b) * b" using assms by (simp add: mult_right_mono)
    also have "\<dots> \<le> a" using assms div_mult_mod_eq [of a b] pos_mod_sign [of b a] by linarith
    finally show "(n + 1) * b \<le> a" .
  next
    assume "(n + 1) * b \<le> a"
    then have "((n + 1) * b) div b \<le> a div b" using assms by (rule zdiv_mono1)
    then show "n + 1 \<le> a div b" using assms by simp
  qed
  then show ?thesis by linarith
qed

lemma less_ceil_iff:
  fixes n a b :: int
  assumes "0 < b"
  shows "n < (a + b - 1) div b \<longleftrightarrow> n * b < a"
  using less_div_iff [OF assms, of n "a + b - 1"] by (simp add: algebra_simps) linarith

lemma size_unit_pos: "size_unit c = Some u \<Longrightarrow> 0 < uint u"
  by (auto simp: size_unit_def split: if_splits)

lemma size_matches_ceil:
  assumes "0 < uint (sp_unit p)" "sint (threshold (sp_cmp p)) < 2 ^ 63 - 1"
  shows "size_matches p sz =
    Some (comparison_holds (sp_cmp p) ((uint sz + uint (sp_unit p) - 1) div uint (sp_unit p)))"
  using u64_div_ceil_uint [OF assms(1), of sz] assms(2)
  by (auto simp: size_matches_def comparison_matches_u64_exact)

lemma size_matches_not_None: "0 < uint (sp_unit p) \<Longrightarrow> size_matches p sz \<noteq> None"
  using u64_div_ceil_uint [of "sp_unit p" sz] by (auto simp: size_matches_def)

lemma size_parse_snoc:
  "size_unit u = Some w \<Longrightarrow>
   size_parse (s @ [u]) = and_then (comparison_parse s) (\<lambda>c. Inr \<lparr>sp_cmp = c, sp_unit = w\<rparr>)"
  by (simp add: size_parse_def)

text \<open>
  \<open>--size N<unit>\<close>, \<open>+N<unit>\<close> and \<open>-N<unit>\<close> over a file of \<open>sz\<close> bytes, with \<open>w\<close> bytes
  to the unit: the size is rounded up to whole units, so \<open>N\<close> accepts exactly the sizes in
  \<open>((N - 1) * w, N * w]\<close>, \<open>+N\<close> those above \<open>N * w\<close>, \<open>-N\<close> those of at most \<open>(N - 1) * w\<close>.
\<close>

theorem size_rounds_up_to_unit:
  assumes "size_unit u = Some w" and "int n < 2 ^ 63 - 1"
  shows "\<exists>e g l.
      size_parse (show_radix 10 n @ [u]) = Inr e
    \<and> size_parse (CHR ''+'' # show_radix 10 n @ [u]) = Inr g
    \<and> size_parse (CHR ''-'' # show_radix 10 n @ [u]) = Inr l
    \<and> size_matches e sz = Some ((int n - 1) * uint w < uint sz \<and> uint sz \<le> int n * uint w)
    \<and> size_matches g sz = Some (int n * uint w < uint sz)
    \<and> size_matches l sz = Some (uint sz \<le> (int n - 1) * uint w)"
proof -
  have w: "0 < uint w" by (rule size_unit_pos [OF assms(1)])
  obtain v where v: "sint v = int n"
    and p: "comparison_parse (show_radix 10 n) = Inr (Exact v)"
           "comparison_parse (CHR ''+'' # show_radix 10 n) = Inr (Greater v)"
           "comparison_parse (CHR ''-'' # show_radix 10 n) = Inr (Less v)"
    using comparison_parse_show [of n] assms(2) by auto
  note snoc = size_parse_snoc [OF assms(1), of "show_radix 10 n"]
    size_parse_snoc [OF assms(1), of "_ # show_radix 10 n", simplified]
  have m: "size_matches \<lparr>sp_cmp = c, sp_unit = w\<rparr> sz =
      Some (comparison_holds c ((uint sz + uint w - 1) div uint w))"
    if "threshold c = v" for c
    using that v w assms(2) by (subst size_matches_ceil) simp_all
  have ex: "(uint sz + uint w - 1) div uint w = int n \<longleftrightarrow>
      (int n - 1) * uint w < uint sz \<and> uint sz \<le> int n * uint w"
    using less_ceil_iff [OF w, of "int n" "uint sz"] less_ceil_iff [OF w, of "int n - 1" "uint sz"]
    by linarith
  have lt: "(uint sz + uint w - 1) div uint w < int n \<longleftrightarrow> uint sz \<le> (int n - 1) * uint w"
    using less_ceil_iff [OF w, of "int n - 1" "uint sz"] by linarith
  show ?thesis
    using p snoc m ex lt v less_ceil_iff [OF w, of "int n" "uint sz"] by simp
qed

theorem size_rounds_up_to_unit_witness:
  "\<exists>e g l.
      size_parse (show_radix 10 1 @ ''k'') = Inr e
    \<and> size_parse (CHR ''+'' # show_radix 10 1 @ ''k'') = Inr g
    \<and> size_parse (CHR ''-'' # show_radix 10 1 @ ''k'') = Inr l
    \<and> size_matches e 1024 = Some True
    \<and> size_matches g 1024 = Some False
    \<and> size_matches l 1024 = Some False"
proof -
  have "size_unit (CHR ''k'') = Some 1024" by (simp add: size_unit_def)
  from size_rounds_up_to_unit [OF this, of 1 1024] show ?thesis by simp
qed

section \<open>Times: whole units elapsed\<close>

lemma sint_units [simp]: "sint DAY = 86400" "sint MINUTE = 60"
  by (simp_all add: DAY_def MINUTE_def)

lemma less_sdiv_iff:
  fixes n k b :: int
  assumes "0 < b" "0 \<le> n"
  shows "n < k sdiv b \<longleftrightarrow> (n + 1) * b \<le> k"
proof (cases "0 \<le> k")
  case True
  with assms show ?thesis by (simp add: sdiv_pos_eq less_div_iff)
next
  case False
  then have "0 \<le> - k div b" using assms by (simp add: pos_imp_zdiv_nonneg_iff)
  then have "k sdiv b \<le> 0" using assms False by (simp add: sdiv_pos_eq)
  moreover have "0 < (n + 1) * b" using assms by simp
  ultimately show ?thesis using assms False by linarith
qed

lemma sdiv_less_iff:
  fixes n k b :: int
  assumes "0 < b" "0 \<le> n"
  shows "k sdiv b < n \<longleftrightarrow> (if n = 0 then k \<le> - b else k < n * b)"
proof (cases "n = 0")
  case True
  have "0 < - k div b \<longleftrightarrow> b \<le> - k"
    using less_div_iff [OF assms(1), of 0 "- k"] by simp
  moreover have "0 \<le> k \<Longrightarrow> 0 \<le> k div b" using assms by (simp add: pos_imp_zdiv_nonneg_iff)
  ultimately show ?thesis using True assms(1) by (auto simp: sdiv_pos_eq)
next
  case False
  then have "n - 1 < k sdiv b \<longleftrightarrow> n * b \<le> k"
    using less_sdiv_iff [OF assms(1), of "n - 1" k] assms(2) by simp
  with False show ?thesis by auto
qed

lemma time_matches_sdiv:
  assumes "0 < sint (tp_unit_secs p)"
  shows "time_matches p m now =
    Some (comparison_holds (tp_cmp p)
      (sint (now - time_field_of (tp_field p) m) sdiv sint (tp_unit_secs p)))"
  using i64_div_pos [OF assms, of "now - time_field_of (tp_field p) m"]
  by (auto simp: time_matches_def comparison_matches_sint)

lemma time_matches_not_None: "0 < sint (tp_unit_secs p) \<Longrightarrow> time_matches p m now \<noteq> None"
  by (simp add: time_matches_sdiv)

text \<open>
  \<open>-mtime\<close>, \<open>-mmin\<close> and their kin, as long as \<open>now - t\<close> does not overflow: with \<open>e\<close> the
  seconds elapsed and \<open>w\<close> the unit, \<open>+N\<close> accepts exactly \<open>e \<ge> (N + 1) * w\<close>; \<open>N\<close> accepts
  \<open>N * w \<le> e < (N + 1) * w\<close> and \<open>-N\<close> accepts \<open>e < N * w\<close>, but for \<open>N = 0\<close>, where the
  truncation towards zero lets \<open>0\<close> take the whole unit before the file's time as well.
\<close>

theorem elapsed_time_in_whole_units:
  assumes "u \<in> {DAY, MINUTE}" and "int n < 2 ^ 63"
    and "e = sint now - sint (time_field_of f m)" and "- (2 ^ 63) \<le> e" and "e < 2 ^ 63"
  shows "\<exists>x g l.
      time_new (show_radix 10 n) u f = Inr x
    \<and> time_new (CHR ''+'' # show_radix 10 n) u f = Inr g
    \<and> time_new (CHR ''-'' # show_radix 10 n) u f = Inr l
    \<and> time_matches x m now =
        Some (if n = 0 then - sint u < e \<and> e < sint u
              else int n * sint u \<le> e \<and> e < (int n + 1) * sint u)
    \<and> time_matches g m now = Some ((int n + 1) * sint u \<le> e)
    \<and> time_matches l m now = Some (if n = 0 then e \<le> - sint u else e < int n * sint u)"
proof -
  have u: "0 < sint u" using assms(1) by auto
  obtain v where v: "sint v = int n"
    and p: "comparison_parse (show_radix 10 n) = Inr (Exact v)"
           "comparison_parse (CHR ''+'' # show_radix 10 n) = Inr (Greater v)"
           "comparison_parse (CHR ''-'' # show_radix 10 n) = Inr (Less v)"
    using comparison_parse_show [OF assms(2)] by blast
  have e: "sint (now - time_field_of f m) = e"
    using assms(3-5) by (simp add: sint_diff_i64)
  have m: "time_matches \<lparr>tp_cmp = c, tp_unit_secs = u, tp_field = f\<rparr> m now =
      Some (comparison_holds c (e sdiv sint u))" for c
    using u e by (subst time_matches_sdiv) simp_all
  note gt = less_sdiv_iff [OF u, of "int n" e] and lt = sdiv_less_iff [OF u, of "int n" e]
  have "e sdiv sint u = int n \<longleftrightarrow> \<not> int n < e sdiv sint u \<and> \<not> e sdiv sint u < int n"
    by linarith
  then have ex: "e sdiv sint u = int n \<longleftrightarrow>
      (if n = 0 then - sint u < e \<and> e < sint u
       else int n * sint u \<le> e \<and> e < (int n + 1) * sint u)"
    using gt lt by auto
  show ?thesis
    using p m v gt lt ex by (simp add: time_new_def)
qed

theorem elapsed_time_in_whole_units_witness:
  "\<exists>x g l.
      time_new (show_radix 10 1) DAY Mtime = Inr x
    \<and> time_new (CHR ''+'' # show_radix 10 1) DAY Mtime = Inr g
    \<and> time_new (CHR ''-'' # show_radix 10 1) DAY Mtime = Inr l
    \<and> time_matches x \<lparr>m_size = 0, m_mtime = 0, m_ctime = 0, m_atime = 0, m_mode = 0, m_uid = 0,
          m_gid = 0, m_nlink = 0, m_ino = 0\<rparr> 172800 = Some False
    \<and> time_matches g \<lparr>m_size = 0, m_mtime = 0, m_ctime = 0, m_atime = 0, m_mode = 0, m_uid = 0,
          m_gid = 0, m_nlink = 0, m_ino = 0\<rparr> 172800 = Some True
    \<and> time_matches l \<lparr>m_size = 0, m_mtime = 0, m_ctime = 0, m_atime = 0, m_mode = 0, m_uid = 0,
          m_gid = 0, m_nlink = 0, m_ino = 0\<rparr> 172800 = Some False"
  using elapsed_time_in_whole_units [of DAY 1 172800 172800 Mtime
    "\<lparr>m_size = 0, m_mtime = 0, m_ctime = 0, m_atime = 0, m_mode = 0, m_uid = 0,
          m_gid = 0, m_nlink = 0, m_ino = 0\<rparr>"] by simp

text \<open>
  Outside that range the subtraction wraps: a file dated \<open>i64::MIN\<close> counts as dated in the
  future, so \<open>-mtime +1\<close> drops the oldest file there is and \<open>-mtime -1\<close> keeps it.
\<close>

theorem elapsed_time_wraps:
  "\<exists>g l m now.
      time_mtime ''+1'' DAY = Inr g \<and> time_mtime ''-1'' DAY = Inr l
    \<and> sint (m_mtime m) = - (2 ^ 63) \<and> sint now = 1700000000
    \<and> time_matches g m now = Some False \<and> time_matches l m now = Some True"
proof -
  define m where "m = \<lparr>m_size = 0, m_mtime = - (2 ^ 63), m_ctime = 0, m_atime = 0, m_mode = 0,
    m_uid = 0, m_gid = 0, m_nlink = 0, m_ino = 0\<rparr>"
  have p: "time_mtime ''+1'' DAY = Inr \<lparr>tp_cmp = Greater 1, tp_unit_secs = DAY, tp_field = Mtime\<rparr>"
    "time_mtime ''-1'' DAY = Inr \<lparr>tp_cmp = Less 1, tp_unit_secs = DAY, tp_field = Mtime\<rparr>"
    by (simp_all add: time_mtime_def time_new_def comparison_parse_def parse_i64_def
        from_str_radix_def to_digit_def of_char_def)
  have q: "sint (1700000000 - m_mtime m) = 1700000000 - 2 ^ 63"
    by (simp add: m_def)
  have "time_matches \<lparr>tp_cmp = c, tp_unit_secs = DAY, tp_field = Mtime\<rparr> m 1700000000 =
      Some (comparison_holds c ((1700000000 - 2 ^ 63) sdiv 86400))" for c
    using q by (subst time_matches_sdiv) simp_all
  then show ?thesis
    using p by (intro exI [of _ "\<lparr>tp_cmp = Greater 1, tp_unit_secs = DAY, tp_field = Mtime\<rparr>"]
      exI [of _ "\<lparr>tp_cmp = Less 1, tp_unit_secs = DAY, tp_field = Mtime\<rparr>"]
      exI [of _ m] exI [of _ 1700000000]) (simp add: sdiv_pos_eq m_def)
qed

section \<open>The \<open>-newer\<close> family\<close>

text \<open>
  \<open>-newer\<close>/\<open>-anewer\<close>/\<open>-cnewer FILE\<close>: the reference is FILE's modification time in whole seconds,
  clamped at the epoch, and the entry's m/a/c-time has to be strictly later. For a reference
  dated before 1970 the clamp shows: an entry between the two dates is newer and is dropped.
\<close>

theorem newer_strictly_later_seconds:
  assumes "modified p = Inr t"
  shows "\<exists>r. file_mtime modified p = Inr r \<and> sint r = max 0 (sint (st_secs t))
    \<and> newer_matches (newer_newer r) m = (max 0 (sint (st_secs t)) < sint (m_mtime m))
    \<and> newer_matches (newer_anewer r) m = (max 0 (sint (st_secs t)) < sint (m_atime m))
    \<and> newer_matches (newer_cnewer r) m = (max 0 (sint (st_secs t)) < sint (m_ctime m))"
proof -
  have r: "file_mtime modified p = Inr (secs_since_epoch t)"
    using assms by (simp add: file_mtime_def)
  have v: "sint (secs_since_epoch t) = max 0 (sint (st_secs t))"
  proof (cases "sint (st_secs t) < 0")
    case False
    have "uint (st_secs t) < 2 ^ 63"
    proof (rule ccontr)
      assume "\<not> uint (st_secs t) < 2 ^ 63"
      then have "sint (st_secs t) = uint (st_secs t) - 2 ^ 64" by (intro sint_uint_i64_neg) simp
      then show False using False uint_lt2p [of "st_secs t"] by simp
    qed
    then have "uint (st_secs t) = sint (st_secs t)" by (rule sint_eq_uint_i64 [symmetric])
    then show ?thesis
      using False sint_i64_bounds [of "st_secs t"] by (simp add: secs_since_epoch_def sint_i64_saturate)
  qed (simp add: secs_since_epoch_def)
  show ?thesis
    using r v by (simp add: newer_matches_def newer_newer_def newer_anewer_def newer_cnewer_def
        word_sless_alt)
qed

theorem newer_strictly_later_seconds_witness:
  "\<exists>r. file_mtime (\<lambda>_. Inr \<lparr>st_secs = 1000, st_nanos = 5\<rparr>) ''ref'' = Inr r \<and>
     sint r = 1000 \<and>
     \<not> newer_matches (newer_newer r) \<lparr>m_size = 0, m_mtime = 1000, m_ctime = 1001, m_atime = 0,
         m_mode = 0, m_uid = 0, m_gid = 0, m_nlink = 0, m_ino = 0\<rparr> \<and>
     newer_matches (newer_cnewer r) \<lparr>m_size = 0, m_mtime = 1000, m_ctime = 1001, m_atime = 0,
         m_mode = 0, m_uid = 0, m_gid = 0, m_nlink = 0, m_ino = 0\<rparr>"
  using newer_strictly_later_seconds [of "\<lambda>_. Inr \<lparr>st_secs = 1000, st_nanos = 5\<rparr>" "''ref''"
      "\<lparr>st_secs = 1000, st_nanos = 5\<rparr>" "\<lparr>m_size = 0, m_mtime = 1000, m_ctime = 1001, m_atime = 0,
         m_mode = 0, m_uid = 0, m_gid = 0, m_nlink = 0, m_ino = 0\<rparr>"]
  by auto

text \<open>A reference dated one day before the epoch: a file modified a minute after it is not newer.\<close>

lemma newer_before_epoch:
  "\<exists>r. file_mtime (\<lambda>_. Inr \<lparr>st_secs = - 86400, st_nanos = 0\<rparr>) ''ref'' = Inr r
     \<and> \<not> newer_matches (newer_newer r) \<lparr>m_size = 0, m_mtime = - 86340, m_ctime = 0, m_atime = 0,
         m_mode = 0, m_uid = 0, m_gid = 0, m_nlink = 0, m_ino = 0\<rparr>"
  by (simp add: file_mtime_def secs_since_epoch_def newer_matches_def newer_newer_def word_sless_alt)

text \<open>The sign prefix is stripped before a signed parse, so a second sign is accepted.\<close>

lemma double_sign_accepted:
  "comparison_parse ''+-5'' = Inr (Greater (- 5))" "comparison_parse ''++5'' = Inr (Greater 5)"
  by (simp_all add: comparison_parse_def parse_i64_def from_str_radix_def to_digit_def of_char_def)

end
