(* ===== verification/Perm.thy ===== *)
theory Perm
  imports Prelude
begin

text \<open>
  The permission predicate of \<open>src/meta.rs\<close>: octal and symbolic modes (\<open>parse_mode\<close>,
  \<open>parse_symbolic_mode\<close>), the three kinds of \<open>-perm\<close>, and what a symbolic mode means as a set
  of permission bits.
\<close>

section \<open>Permission bits\<close>

datatype PermKind = PermExact | AllOf | AnyOf

record PermPred =
  pp_mode :: u32
  pp_kind :: PermKind

text \<open>
  Octal literals of the source are written in hexadecimal: \<open>0o7777 = 0xFFF\<close>,
  \<open>0o4000 = 0x800\<close>, \<open>0o2000 = 0x400\<close>, \<open>0o1000 = 0x200\<close>, \<open>0o700 = 0x1C0\<close>, \<open>0o070 = 0x38\<close>.
\<close>

text \<open>The \<open>who\<close> loop of a symbolic clause: the mask and the rest of the clause.\<close>

fun parse_who :: "u8 \<Rightarrow> string \<Rightarrow> u8 \<times> string" where
  "parse_who who [] = (who, [])"
| "parse_who who (b # bs) =
     (if b = CHR ''u'' then parse_who (who OR 4) bs
      else if b = CHR ''g'' then parse_who (who OR 2) bs
      else if b = CHR ''o'' then parse_who (who OR 1) bs
      else if b = CHR ''a'' then parse_who (who OR 7) bs
      else (who, b # bs))"

record perm_letters =
  pl_r :: bool
  pl_w :: bool
  pl_x :: bool
  pl_s :: bool
  pl_t :: bool

definition no_letters :: perm_letters where
  "no_letters = \<lparr>pl_r = False, pl_w = False, pl_x = False, pl_s = False, pl_t = False\<rparr>"

text \<open>The letter loop; \<open>None\<close> at a byte that is no mode letter.\<close>

fun parse_letters :: "perm_letters \<Rightarrow> string \<Rightarrow> perm_letters option" where
  "parse_letters l [] = Some l"
| "parse_letters l (b # bs) =
     (if b = CHR ''r'' then parse_letters (l\<lparr>pl_r := True\<rparr>) bs
      else if b = CHR ''w'' then parse_letters (l\<lparr>pl_w := True\<rparr>) bs
      else if b = CHR ''x'' then parse_letters (l\<lparr>pl_x := True\<rparr>) bs
      else if b = CHR ''s'' then parse_letters (l\<lparr>pl_s := True\<rparr>) bs
      else if b = CHR ''t'' then parse_letters (l\<lparr>pl_t := True\<rparr>) bs
      else None)"

definition letter_bits :: "u8 \<Rightarrow> perm_letters \<Rightarrow> u32" where
  "letter_bits who l =
     (let rwx = push_bit 2 (of_bool (pl_r l)) OR push_bit 1 (of_bool (pl_w l)) OR of_bool (pl_x l);
          bits = 0;
          bits = (if who AND 4 \<noteq> 0
                  then (let b = bits OR push_bit 6 rwx in if pl_s l then b OR 0x800 else b)
                  else bits);
          bits = (if who AND 2 \<noteq> 0
                  then (let b = bits OR push_bit 3 rwx in if pl_s l then b OR 0x400 else b)
                  else bits);
          bits = (if who AND 1 \<noteq> 0 then bits OR rwx else bits)
      in if pl_t l then bits OR 0x200 else bits)"

definition clear_bits :: "u8 \<Rightarrow> u32" where
  "clear_bits who =
     (let clear = 0;
          clear = (if who AND 4 \<noteq> 0 then clear OR (0x1C0 OR 0x800) else clear);
          clear = (if who AND 2 \<noteq> 0 then clear OR (0x38 OR 0x400) else clear)
      in if who AND 1 \<noteq> 0 then clear OR (7 OR 0x200) else clear)"

definition apply_op :: "char \<Rightarrow> u8 \<Rightarrow> u32 \<Rightarrow> u32 \<Rightarrow> u32" where
  "apply_op opr who bits mode =
     (if opr = CHR ''+'' then mode OR bits
      else if opr = CHR ''-'' then mode AND NOT bits
      else (mode AND NOT (clear_bits who)) OR bits)"

definition parse_clause :: "u32 \<Rightarrow> string \<Rightarrow> error + u32" where
  "parse_clause mode clause =
     (let (who, rest) = parse_who 0 clause;
          who = (if who = 0 then 7 else who)
      in case rest of
           [] \<Rightarrow> Inl (PermOpExpected clause)
         | opr # ls \<Rightarrow>
             if opr = CHR ''+'' \<or> opr = CHR ''-'' \<or> opr = CHR ''=''
             then (case parse_letters no_letters ls of
                     None \<Rightarrow> Inl (PermInvalidChar clause)
                   | Some l \<Rightarrow> Inr (apply_op opr who (letter_bits who l) mode))
             else Inl (PermOpExpected clause))"

fun parse_clauses :: "u32 \<Rightarrow> string list \<Rightarrow> error + u32" where
  "parse_clauses mode [] = Inr mode"
| "parse_clauses mode (c # cs) = and_then (parse_clause mode c) (\<lambda>m. parse_clauses m cs)"

definition parse_symbolic_mode :: "string \<Rightarrow> error + u32" where
  "parse_symbolic_mode s = parse_clauses 0 (split_on (CHR '','') s)"

definition is_octal_byte :: "char \<Rightarrow> bool" where
  "is_octal_byte b \<longleftrightarrow> 48 \<le> (of_char b :: nat) \<and> (of_char b :: nat) \<le> 55"

definition parse_mode :: "string \<Rightarrow> error + u32" where
  "parse_mode s =
     (if s = [] then Inl EmptyPerm
      else if list_all is_octal_byte s
      then and_then (map_err (\<lambda>_. InvalidOctal s) (parse_u32_radix 8 s))
             (\<lambda>m. if 0xFFF < m then Inl (OctalOutOfRange s) else Inr m)
      else parse_symbolic_mode s)"

definition perm_parse :: "string \<Rightarrow> error + PermPred" where
  "perm_parse s =
     (let (kind, rest) =
        (case strip_prefix (CHR ''/'') s of
           Some r \<Rightarrow> (AnyOf, r)
         | None \<Rightarrow>
             (case strip_prefix (CHR ''-'') s of
                Some r \<Rightarrow> (AllOf, r)
              | None \<Rightarrow> (PermExact, s)))
      in and_then (parse_mode rest) (\<lambda>m. Inr \<lparr>pp_mode = m, pp_kind = kind\<rparr>))"

definition perm_matches :: "PermPred \<Rightarrow> u32 \<Rightarrow> bool" where
  "perm_matches p st_mode =
     (let m = st_mode AND 0xFFF
      in case pp_kind p of
           PermExact \<Rightarrow> m = pp_mode p
         | AllOf \<Rightarrow> m AND pp_mode p = pp_mode p
         | AnyOf \<Rightarrow> pp_mode p = 0 \<or> m AND pp_mode p \<noteq> 0)"

section \<open>The bits of one clause\<close>

text \<open>
  The permission bits by position: 8, 7, 6 are the user's \<open>rwx\<close>, 5, 4, 3 the group's, 2, 1, 0
  the others'; 11, 10 and 9 are setuid, setgid and sticky. What the letters \<open>ls\<close> grant to the
  classes \<open>ws\<close> of a clause, and what \<open>=\<close> clears first, read off the clause's text.
\<close>

definition clause_who :: "string \<Rightarrow> char \<Rightarrow> bool" where
  "clause_who ws c \<longleftrightarrow> ws = [] \<or> CHR ''a'' \<in> set ws \<or> c \<in> set ws"

definition grants :: "string \<Rightarrow> string \<Rightarrow> nat set" where
  "grants ws ls =
     (if clause_who ws (CHR ''u'') then
        (if CHR ''r'' \<in> set ls then {8} else {}) \<union> (if CHR ''w'' \<in> set ls then {7} else {}) \<union>
        (if CHR ''x'' \<in> set ls then {6} else {}) \<union> (if CHR ''s'' \<in> set ls then {11} else {}) else {}) \<union>
     (if clause_who ws (CHR ''g'') then
        (if CHR ''r'' \<in> set ls then {5} else {}) \<union> (if CHR ''w'' \<in> set ls then {4} else {}) \<union>
        (if CHR ''x'' \<in> set ls then {3} else {}) \<union> (if CHR ''s'' \<in> set ls then {10} else {}) else {}) \<union>
     (if clause_who ws (CHR ''o'') then
        (if CHR ''r'' \<in> set ls then {2} else {}) \<union> (if CHR ''w'' \<in> set ls then {1} else {}) \<union>
        (if CHR ''x'' \<in> set ls then {0} else {}) else {}) \<union>
     (if CHR ''t'' \<in> set ls then {9} else {})"

definition clears :: "string \<Rightarrow> nat set" where
  "clears ws =
     (if clause_who ws (CHR ''u'') then {8, 7, 6, 11} else {}) \<union>
     (if clause_who ws (CHR ''g'') then {5, 4, 3, 10} else {}) \<union>
     (if clause_who ws (CHR ''o'') then {2, 1, 0, 9} else {})"

definition mode_bits :: "u32 \<Rightarrow> nat set" where
  "mode_bits m = {i. bit m i}"

lemma mode_bits_simps [simp]:
  "mode_bits 0 = {}"
  "mode_bits (a OR b) = mode_bits a \<union> mode_bits b"
  "mode_bits (a AND NOT b) = mode_bits a - mode_bits b"
  by (auto simp: mode_bits_def bit_simps dest: bit_imp_le_length)

lemma mode_bits_power [simp]: "k < 32 \<Longrightarrow> mode_bits (2 ^ k) = {k}"
  by (auto simp: mode_bits_def bit_simps)

lemma mode_bits_1 [simp]: "mode_bits 1 = {0}"
  using mode_bits_power [of 0] by simp

lemma mode_bits_eq_iff: "mode_bits a = mode_bits b \<longleftrightarrow> a = b"
proof
  assume "mode_bits a = mode_bits b"
  then have "bit a n = bit b n" for n by (auto simp: mode_bits_def set_eq_iff)
  then show "a = b" by (auto intro: bit_eqI)
qed simp

lemma mode_bits_consts [simp]:
  "mode_bits 0x800 = {11}" "mode_bits 0x400 = {10}" "mode_bits 0x200 = {9}"
  "mode_bits 0x1C0 = {8, 7, 6}" "mode_bits 0x38 = {5, 4, 3}" "mode_bits 7 = {2, 1, 0}"
proof -
  have e: "(0x800 :: u32) = 2 ^ 11" "(0x400 :: u32) = 2 ^ 10" "(0x200 :: u32) = 2 ^ 9"
    "(0x1C0 :: u32) = 2 ^ 8 OR 2 ^ 7 OR 2 ^ 6" "(0x38 :: u32) = 2 ^ 5 OR 2 ^ 4 OR 2 ^ 3"
    "(7 :: u32) = 2 ^ 2 OR 2 ^ 1 OR 2 ^ 0"
    by simp_all
  have "mode_bits (2 ^ 11) = {11}" "mode_bits (2 ^ 10) = {10}" "mode_bits (2 ^ 9) = {9}"
    "mode_bits (2 ^ 8 OR 2 ^ 7 OR 2 ^ 6) = {8, 7, 6}"
    "mode_bits (2 ^ 5 OR 2 ^ 4 OR 2 ^ 3) = {5, 4, 3}"
    "mode_bits (2 ^ 2 OR 2 ^ 1 OR 2 ^ 0) = {2, 1, 0}"
    by (simp_all only: mode_bits_simps mode_bits_power) auto
  then show "mode_bits 0x800 = {11}" "mode_bits 0x400 = {10}" "mode_bits 0x200 = {9}"
    "mode_bits 0x1C0 = {8, 7, 6}" "mode_bits 0x38 = {5, 4, 3}" "mode_bits 7 = {2, 1, 0}"
    by (simp_all only: e)
qed

lemma mode_bits_subset_iff: "mode_bits m \<subseteq> {..<12} \<longleftrightarrow> m \<le> 0xFFF"
proof -
  have "m \<le> 0xFFF \<longleftrightarrow> uint m < 2 ^ 12"
    by (auto simp: word_le_def)
  also have "\<dots> \<longleftrightarrow> m AND mask 12 = m"
    by (simp only: mask_eq_iff)
  also have "\<dots> \<longleftrightarrow> mode_bits (m AND mask 12) = mode_bits m"
    by (simp only: mode_bits_eq_iff)
  also have "mode_bits (m AND mask 12) = mode_bits m \<inter> {..<12}"
    by (auto simp: mode_bits_def bit_simps)
  finally show ?thesis by blast
qed

section \<open>One clause read as bits\<close>

definition who_bit :: "u8 \<Rightarrow> nat \<Rightarrow> bool" where
  "who_bit w k \<longleftrightarrow> w AND 2 ^ k \<noteq> 0"

lemma who_bit_or: "who_bit (a OR b) k \<longleftrightarrow> who_bit a k \<or> who_bit b k"
  by (simp add: who_bit_def word_ao_dist)

lemma who_bit_consts:
  "\<not> who_bit 0 k" "who_bit 4 k \<longleftrightarrow> k = 2" "who_bit 2 k \<longleftrightarrow> k = 1" "who_bit 1 k \<longleftrightarrow> k = 0"
  if "k < 3"
  using that by (auto simp: who_bit_def less_Suc_eq numeral_3_eq_3)

lemma who_bit_7: "k < 3 \<Longrightarrow> who_bit 7 k"
  by (auto simp: who_bit_def less_Suc_eq numeral_3_eq_3)

definition class_char :: "nat \<Rightarrow> char" where
  "class_char k = [CHR ''o'', CHR ''g'', CHR ''u''] ! k"

lemma class_char_simps [simp]:
  "class_char 0 = CHR ''o''" "class_char (Suc 0) = CHR ''g''" "class_char 2 = CHR ''u''"
  by (simp_all add: class_char_def)

lemma parse_who_ugoa:
  assumes "set ws \<subseteq> set ''ugoa''" "rest = [] \<or> hd rest \<notin> set ''ugoa''"
  shows "\<exists>w'. parse_who w (ws @ rest) = (w', rest) \<and>
    (\<forall>k < 3. who_bit w' k \<longleftrightarrow> who_bit w k \<or> CHR ''a'' \<in> set ws \<or> class_char k \<in> set ws)"
  using assms
proof (induction ws arbitrary: w)
  case Nil
  then show ?case by (cases rest) auto
next
  case (Cons c ws)
  have k3: "k < 3 \<longleftrightarrow> k = 0 \<or> k = 1 \<or> k = (2 :: nat)" for k by auto
  from Cons.prems have "c \<in> {CHR ''u'', CHR ''g'', CHR ''o'', CHR ''a''}" by simp
  define d :: u8 where "d = (if c = CHR ''u'' then 4 else if c = CHR ''g'' then 2
    else if c = CHR ''o'' then 1 else 7)"
  have d: "parse_who w ((c # ws) @ rest) = parse_who (w OR d) (ws @ rest)"
      "k < 3 \<Longrightarrow> who_bit d k \<longleftrightarrow> c = CHR ''a'' \<or> class_char k = c" for k
    using \<open>c \<in> _\<close> by (auto simp: d_def k3 who_bit_consts who_bit_7)
  obtain w' where "parse_who (w OR d) (ws @ rest) = (w', rest)"
    "\<forall>k < 3. who_bit w' k \<longleftrightarrow> who_bit (w OR d) k \<or> CHR ''a'' \<in> set ws \<or> class_char k \<in> set ws"
    using Cons.IH [of "w OR d"] Cons.prems by auto
  then show ?case
    using d by (auto simp: who_bit_or)
qed

lemma parse_letters_rwxst:
  "set ls \<subseteq> set ''rwxst'' \<Longrightarrow> parse_letters l ls = Some
     \<lparr>pl_r = (pl_r l \<or> CHR ''r'' \<in> set ls), pl_w = (pl_w l \<or> CHR ''w'' \<in> set ls),
      pl_x = (pl_x l \<or> CHR ''x'' \<in> set ls), pl_s = (pl_s l \<or> CHR ''s'' \<in> set ls),
      pl_t = (pl_t l \<or> CHR ''t'' \<in> set ls)\<rparr>"
  by (induction ls arbitrary: l) auto

lemma parse_letters_None_iff: "parse_letters l ls = None \<longleftrightarrow> \<not> set ls \<subseteq> set ''rwxst''"
  by (induction ls arbitrary: l) simp_all

lemma mode_bits_rwx:
  assumes "k \<le> 6"
  shows "mode_bits (push_bit k (push_bit 2 (of_bool r) OR push_bit 1 (of_bool w) OR of_bool x)) =
    (if r then {k + 2} else {}) \<union> (if w then {k + 1} else {}) \<union> (if x then {k} else {})"
proof -
  have b: "mode_bits (push_bit n (of_bool P)) = (if P then {n} else {})" if "n < 32" for n P
    using that by (cases P) (simp_all add: push_bit_eq_mult)
  have "mode_bits (push_bit (k + 2) (of_bool r)) = (if r then {k + 2} else {})"
    "mode_bits (push_bit (k + 1) (of_bool w)) = (if w then {k + 1} else {})"
    "mode_bits (push_bit k (of_bool x)) = (if x then {k} else {})"
    by (rule b, use assms in simp)+
  then show ?thesis
    by (simp only: push_bit_or push_bit_push_bit mode_bits_simps Un_assoc)
qed

lemma mode_bits_letter_bits:
  "mode_bits (letter_bits who l) =
     (if who_bit who 2 then
        (if pl_r l then {8} else {}) \<union> (if pl_w l then {7} else {}) \<union> (if pl_x l then {6} else {}) \<union>
        (if pl_s l then {11} else {}) else {}) \<union>
     (if who_bit who 1 then
        (if pl_r l then {5} else {}) \<union> (if pl_w l then {4} else {}) \<union> (if pl_x l then {3} else {}) \<union>
        (if pl_s l then {10} else {}) else {}) \<union>
     (if who_bit who 0 then
        (if pl_r l then {2} else {}) \<union> (if pl_w l then {1} else {}) \<union> (if pl_x l then {0} else {}) else {}) \<union>
     (if pl_t l then {9} else {})"
proof -
  let ?rwx = "push_bit 2 (of_bool (pl_r l)) OR push_bit 1 (of_bool (pl_w l)) OR of_bool (pl_x l) :: u32"
  have "letter_bits who l =
      (if who_bit who 2 then push_bit 6 ?rwx OR (if pl_s l then 0x800 else 0) else 0) OR
      (if who_bit who 1 then push_bit 3 ?rwx OR (if pl_s l then 0x400 else 0) else 0) OR
      (if who_bit who 0 then push_bit 0 ?rwx else 0) OR (if pl_t l then 0x200 else 0)"
    by (auto simp: letter_bits_def who_bit_def Let_def or.assoc)
  moreover have "mode_bits (push_bit 6 ?rwx) =
      (if pl_r l then {8} else {}) \<union> (if pl_w l then {7} else {}) \<union> (if pl_x l then {6} else {})"
    by (subst mode_bits_rwx) simp_all
  moreover have "mode_bits (push_bit 3 ?rwx) =
      (if pl_r l then {5} else {}) \<union> (if pl_w l then {4} else {}) \<union> (if pl_x l then {3} else {})"
    by (subst mode_bits_rwx) simp_all
  moreover have "mode_bits (push_bit 0 ?rwx) =
      (if pl_r l then {2} else {}) \<union> (if pl_w l then {1} else {}) \<union> (if pl_x l then {0} else {})"
    by (subst mode_bits_rwx) (simp_all add: numeral_2_eq_2)
  ultimately show ?thesis by simp
qed

lemma mode_bits_clear_bits:
  "mode_bits (clear_bits who) =
     (if who_bit who 2 then {8, 7, 6, 11} else {}) \<union> (if who_bit who 1 then {5, 4, 3, 10} else {}) \<union>
     (if who_bit who 0 then {2, 1, 0, 9} else {})"
proof -
  have "clear_bits who =
      (if who_bit who 2 then 0x1C0 OR 0x800 else 0) OR (if who_bit who 1 then 0x38 OR 0x400 else 0) OR
      (if who_bit who 0 then 7 OR 0x200 else 0)"
    by (auto simp: clear_bits_def who_bit_def Let_def)
  moreover have "mode_bits (0x1C0 OR 0x800) = {8, 7, 6, 11}" "mode_bits (0x38 OR 0x400) = {5, 4, 3, 10}"
    "mode_bits (7 OR 0x200) = {2, 1, 0, 9}"
    by (auto simp only: mode_bits_simps mode_bits_consts)
  ultimately show ?thesis by (simp only: mode_bits_simps split: if_split) auto
qed

text \<open>A clause as written: classes, an operator, letters; and what it does to a set of bits.\<close>

datatype clause = Clause (classes: string) (oper: char) (letters: string)

definition clause_ok :: "clause \<Rightarrow> bool" where
  "clause_ok c \<longleftrightarrow> set (classes c) \<subseteq> set ''ugoa'' \<and> oper c \<in> set ''+-='' \<and> set (letters c) \<subseteq> set ''rwxst''"

definition clause_text :: "clause \<Rightarrow> string" where
  "clause_text c = classes c @ oper c # letters c"

definition clause_effect :: "clause \<Rightarrow> nat set \<Rightarrow> nat set" where
  "clause_effect c m =
     (let g = grants (classes c) (letters c)
      in if oper c = CHR ''+'' then m \<union> g
         else if oper c = CHR ''-'' then m - g
         else (m - clears (classes c)) \<union> g)"

lemma parse_clause_text:
  assumes "clause_ok c"
  shows "\<exists>m'. parse_clause m (clause_text c) = Inr m' \<and> mode_bits m' = clause_effect c (mode_bits m)"
proof -
  obtain ws opr ls where c: "c = Clause ws opr ls" by (cases c)
  have ok: "set ws \<subseteq> set ''ugoa''" "opr \<in> set ''+-=''" "set ls \<subseteq> set ''rwxst''"
    using assms by (simp_all add: c clause_ok_def)
  have k3: "(0::nat) < 3" "(1::nat) < 3" "(2::nat) < 3" by simp_all
  obtain w where w: "parse_who 0 (ws @ opr # ls) = (w, opr # ls)"
    and wb: "\<forall>k < 3. who_bit w k \<longleftrightarrow> CHR ''a'' \<in> set ws \<or> class_char k \<in> set ws"
    using parse_who_ugoa [OF ok(1), of "opr # ls" 0] ok(2) by (auto simp: who_bit_consts)
  define who where "who = (if w = 0 then 7 else w)"
  have wz: "w = 0" if "ws = []"
    using that w ok(2) by auto
  have wnz: "w \<noteq> 0" if "ws \<noteq> []"
  proof
    assume "w = 0"
    then have "\<forall>k < 3. \<not> who_bit w k" by (simp add: who_bit_consts)
    then have "CHR ''a'' \<notin> set ws" "class_char 0 \<notin> set ws" "class_char 1 \<notin> set ws" "class_char 2 \<notin> set ws"
      using wb k3 by blast+
    with ok(1) that show False by (cases ws) auto
  qed
  have wb': "who_bit who 2 = clause_who ws (CHR ''u'')" "who_bit who 1 = clause_who ws (CHR ''g'')"
    "who_bit who 0 = clause_who ws (CHR ''o'')"
    using wb k3 wz wnz by (auto simp: who_def clause_who_def who_bit_7)
  let ?l = "\<lparr>pl_r = CHR ''r'' \<in> set ls, pl_w = CHR ''w'' \<in> set ls, pl_x = CHR ''x'' \<in> set ls,
    pl_s = CHR ''s'' \<in> set ls, pl_t = CHR ''t'' \<in> set ls\<rparr>"
  have l: "parse_letters no_letters ls = Some ?l"
    using parse_letters_rwxst [OF ok(3), of no_letters] by (simp add: no_letters_def)
  have g: "mode_bits (letter_bits who ?l) = grants ws ls"
    by (simp only: mode_bits_letter_bits wb' grants_def perm_letters.simps)
  have cl: "mode_bits (clear_bits who) = clears ws"
    by (simp only: mode_bits_clear_bits wb' clears_def)
  have "parse_clause m (clause_text c) = Inr (apply_op opr who (letter_bits who ?l) m)"
    using ok(2) w l by (auto simp: parse_clause_def clause_text_def c who_def)
  moreover have "mode_bits (apply_op opr who (letter_bits who ?l) m) = clause_effect c (mode_bits m)"
    by (simp add: apply_op_def clause_effect_def c g cl Let_def)
  ultimately show ?thesis by blast
qed

section \<open>Whole symbolic modes\<close>

lemma parse_who_split: "parse_who w s = (w', rest) \<Longrightarrow> \<exists>ws. s = ws @ rest \<and> set ws \<subseteq> set ''ugoa''"
proof (induction w s rule: parse_who.induct)
  case (1 who)
  then show ?case by simp
next
  case (2 who b bs)
  show ?case
  proof (cases "b \<in> set ''ugoa''")
    case True
    then obtain d where "parse_who d bs = (w', rest)" and "\<exists>ws. bs = ws @ rest \<and> set ws \<subseteq> set ''ugoa''"
      using 2 by (auto split: if_splits)
    then obtain ws where "bs = ws @ rest" "set ws \<subseteq> set ''ugoa''" by blast
    with True show ?thesis by (intro exI [of _ "b # ws"]) simp
  next
    case False
    with "2.prems" show ?thesis by (intro exI [of _ "[]"]) (auto split: if_splits)
  qed
qed

lemma parse_clause_Inr:
  assumes "parse_clause m s = Inr m'"
  shows "\<exists>c. clause_ok c \<and> s = clause_text c"
proof -
  obtain w rest where w: "parse_who 0 s = (w, rest)" by (cases "parse_who 0 s")
  then obtain ws where ws: "s = ws @ rest" "set ws \<subseteq> set ''ugoa''"
    using parse_who_split by blast
  obtain opr ls where rest: "rest = opr # ls" "opr \<in> set ''+-=''" "parse_letters no_letters ls \<noteq> None"
    using assms w by (auto simp: parse_clause_def Let_def split: list.splits if_splits option.splits)
  then have "set ls \<subseteq> set ''rwxst''" by (simp add: parse_letters_None_iff)
  with ws rest show ?thesis
    by (intro exI [of _ "Clause ws opr ls"]) (simp add: clause_ok_def clause_text_def)
qed

lemma clause_text_no_comma: "clause_ok c \<Longrightarrow> CHR '','' \<notin> set (clause_text c)"
  by (auto simp: clause_ok_def clause_text_def)

lemma parse_clauses_texts:
  "\<forall>c \<in> set cs. clause_ok c \<Longrightarrow>
   \<exists>m'. parse_clauses m (map clause_text cs) = Inr m' \<and> mode_bits m' = fold clause_effect cs (mode_bits m)"
proof (induction cs arbitrary: m)
  case Nil
  then show ?case by simp
next
  case (Cons c cs)
  obtain m1 where m1: "parse_clause m (clause_text c) = Inr m1"
      "mode_bits m1 = clause_effect c (mode_bits m)"
    using parse_clause_text [of c m] Cons.prems by auto
  obtain m2 where "parse_clauses m1 (map clause_text cs) = Inr m2"
      "mode_bits m2 = fold clause_effect cs (mode_bits m1)"
    using Cons.IH [of m1] Cons.prems by auto
  with m1 show ?case by simp
qed

lemma parse_clauses_Inr:
  "parse_clauses m ss = Inr m' \<Longrightarrow> \<exists>cs. (\<forall>c \<in> set cs. clause_ok c) \<and> ss = map clause_text cs"
proof (induction ss arbitrary: m)
  case Nil
  then show ?case by simp
next
  case (Cons s ss)
  then obtain m1 where m1: "parse_clause m s = Inr m1" "parse_clauses m1 ss = Inr m'"
    by (auto simp: and_then_Inr_iff)
  obtain c where "clause_ok c" "s = clause_text c" using parse_clause_Inr [OF m1(1)] by blast
  moreover obtain cs where "\<forall>c \<in> set cs. clause_ok c" "ss = map clause_text cs"
    using Cons.IH [OF m1(2)] by blast
  ultimately show ?case by (intro exI [of _ "c # cs"]) simp
qed

definition mode_text :: "clause list \<Rightarrow> string" where
  "mode_text cs = join_with (CHR '','') (map clause_text cs)"

lemma parse_symbolic_mode_Inr:
  assumes "parse_symbolic_mode s = Inr m"
  shows "\<exists>cs. cs \<noteq> [] \<and> (\<forall>c \<in> set cs. clause_ok c) \<and> s = mode_text cs
    \<and> mode_bits m = fold clause_effect cs {}"
proof -
  have "parse_clauses 0 (split_on (CHR '','') s) = Inr m"
    using assms by (simp add: parse_symbolic_mode_def)
  from parse_clauses_Inr [OF this]
  obtain cs where cs: "\<forall>c \<in> set cs. clause_ok c" "split_on (CHR '','') s = map clause_text cs"
    by blast
  then have "s = mode_text cs" "cs \<noteq> []"
    using join_with_split_on [of "CHR '',''" s] split_on_nonempty [of "CHR '',''" s]
    by (auto simp: mode_text_def)
  moreover have "mode_bits m = fold clause_effect cs {}"
    using parse_clauses_texts [OF cs(1), of 0] assms cs(2) by (auto simp: parse_symbolic_mode_def)
  ultimately show ?thesis using cs(1) by blast
qed

text \<open>
  C33. A symbolic mode is accepted exactly when it is a comma-separated list of clauses
  \<open>[ugoa]*[+-=][rwxst]*\<close>, and its value is then the set of permission bits the clauses build
  from nothing, in order: \<open>+\<close> adds the granted bits, \<open>-\<close> removes them, \<open>=\<close> replaces the bits of
  the named classes.
\<close>

theorem symbolic_mode_meaning:
  "parse_symbolic_mode s = Inr m \<longleftrightarrow>
     (\<exists>cs. cs \<noteq> [] \<and> (\<forall>c \<in> set cs. clause_ok c) \<and> s = mode_text cs
        \<and> mode_bits m = fold clause_effect cs {})"
proof
  assume "parse_symbolic_mode s = Inr m"
  then show "\<exists>cs. cs \<noteq> [] \<and> (\<forall>c \<in> set cs. clause_ok c) \<and> s = mode_text cs
      \<and> mode_bits m = fold clause_effect cs {}"
    by (rule parse_symbolic_mode_Inr)
next
  assume "\<exists>cs. cs \<noteq> [] \<and> (\<forall>c \<in> set cs. clause_ok c) \<and> s = mode_text cs
      \<and> mode_bits m = fold clause_effect cs {}"
  then obtain cs where cs: "cs \<noteq> []" "\<forall>c \<in> set cs. clause_ok c" "s = mode_text cs"
    "mode_bits m = fold clause_effect cs {}" by blast
  then have "split_on (CHR '','') s = map clause_text cs"
    by (auto simp: mode_text_def clause_text_no_comma intro!: split_on_join_with)
  moreover obtain m' where "parse_clauses 0 (map clause_text cs) = Inr m'"
      "mode_bits m' = mode_bits m"
    using parse_clauses_texts [OF cs(2), of 0] cs(4) by auto
  ultimately show "parse_symbolic_mode s = Inr m"
    by (simp add: parse_symbolic_mode_def mode_bits_eq_iff)
qed

theorem symbolic_mode_meaning_witness:
  "parse_symbolic_mode ''u+rw,g=r'' = Inr 0x1A0"
proof -
  let ?cs = "[Clause ''u'' (CHR ''+'') ''rw'', Clause ''g'' (CHR ''='') ''r'']"
  have "(0x1A0 :: u32) = 2 ^ 8 OR 2 ^ 7 OR 2 ^ 5" by simp
  then have "mode_bits 0x1A0 = {8, 7, 5}"
    by (simp only: mode_bits_simps mode_bits_power) auto
  then have "?cs \<noteq> [] \<and> (\<forall>c \<in> set ?cs. clause_ok c) \<and> ''u+rw,g=r'' = mode_text ?cs
      \<and> mode_bits 0x1A0 = fold clause_effect ?cs {}"
    by (auto simp: clause_ok_def mode_text_def clause_text_def clause_effect_def grants_def
        clears_def clause_who_def)
  then show ?thesis by (intro symbolic_mode_meaning [THEN iffD2] exI [of _ ?cs])
qed

section \<open>Modes stay within twelve bits\<close>

lemma grants_bound: "grants ws ls \<subseteq> {..<12}"
  by (simp add: grants_def)

lemma clause_effect_bound: "m \<subseteq> {..<12} \<Longrightarrow> clause_effect c m \<subseteq> {..<12}"
  using grants_bound [of "classes c" "letters c"] by (auto simp: clause_effect_def Let_def)

lemma fold_clause_effect_bound: "m \<subseteq> {..<12} \<Longrightarrow> fold clause_effect cs m \<subseteq> {..<12}"
proof (induction cs arbitrary: m)
  case Nil
  then show ?case by simp
next
  case (Cons c cs)
  from Cons.IH [OF clause_effect_bound [OF Cons.prems]] show ?case by simp
qed

lemma parse_mode_bound:
  assumes "parse_mode s = Inr m"
  shows "mode_bits m \<subseteq> {..<12}"
proof (cases "s \<noteq> [] \<and> list_all is_octal_byte s")
  case True
  with assms have "m \<le> 0xFFF"
    by (auto simp: parse_mode_def and_then_Inr_iff split: if_splits)
  then show ?thesis by (simp only: mode_bits_subset_iff)
next
  case False
  with assms have "parse_symbolic_mode s = Inr m"
    by (auto simp: parse_mode_def split: if_splits)
  then obtain cs where "mode_bits m = fold clause_effect cs {}"
    using parse_symbolic_mode_Inr by blast
  then show ?thesis
    using fold_clause_effect_bound [of "{}" cs] by simp
qed

text \<open>
  Whatever \<open>--perm\<close> accepts, octal or symbolic, is a value of at most \<open>0o7777\<close>: the bits
  compared with a file's mode are permission, setuid, setgid and sticky bits only.
\<close>

theorem parse_mode_in_range: "parse_mode s = Inr m \<Longrightarrow> m \<le> 0xFFF"
  using parse_mode_bound [of s m] by (simp only: mode_bits_subset_iff)

lemma octal_digit_char: "d < 8 \<Longrightarrow> is_octal_byte (digit_char d)"
  by (simp add: is_octal_byte_def digit_char_def)

lemma octal_show: "list_all is_octal_byte (show_radix 8 n)"
  using set_show_radix [of 8 n] octal_digit_char by (auto simp: list_all_iff)

lemma parse_mode_show_radix:
  assumes "m \<le> (0xFFF :: u32)"
  shows "parse_mode (show_radix 8 (unat m)) = Inr m"
proof -
  have "unat m \<le> unat (0xFFF :: u32)"
    using assms by (rule word_le_nat_alt [THEN iffD1])
  then have "int (unat m) \<le> int 0xFFF" by (simp only: of_nat_le_iff) simp
  then have "from_str_radix False 0 (2 ^ 32 - 1) (int 8) (show_radix 8 (unat m)) = Inr (int (unat m))"
    by (intro from_str_radix_show) simp_all
  then have "parse_u32_radix 8 (show_radix 8 (unat m)) = Inr m"
    by (simp add: parse_u32_radix_def)
  with assms show ?thesis
    by (simp add: parse_mode_def show_radix_nonempty octal_show not_less [symmetric])
qed

theorem parse_mode_in_range_witness: "(0x1A4 :: u32) \<le> 0xFFF"
proof -
  have "parse_mode (show_radix 8 (unat (0x1A4 :: u32))) = Inr 0x1A4"
    by (rule parse_mode_show_radix) simp
  then show ?thesis by (rule parse_mode_in_range)
qed

text \<open>
  C38. Octal round trip: printing a mode of at most \<open>0o7777\<close> in octal and parsing it gives the
  mode back.
\<close>

theorem octal_mode_roundtrip: "m \<le> 0xFFF \<Longrightarrow> parse_mode (show_radix 8 (unat m)) = Inr m"
  by (rule parse_mode_show_radix)

theorem octal_mode_roundtrip_witness: "parse_mode (show_radix 8 (unat (0x1ED :: u32))) = Inr 0x1ED"
  by (rule octal_mode_roundtrip) simp

section \<open>The three kinds of \<open>-perm\<close>\<close>

lemma parse_mode_slash: "\<exists>e. parse_mode (CHR ''/'' # s) = Inl e"
proof -
  obtain p ps where p: "split_on (CHR '','') s = p # ps"
    using split_on_nonempty by (cases "split_on (CHR '','') s") auto
  have "\<not> is_octal_byte (CHR ''/'')" by (simp add: is_octal_byte_def)
  then show ?thesis
    using p by (simp add: parse_mode_def parse_symbolic_mode_def parse_clause_def)
qed

lemma perm_parse_simps:
  "perm_parse (CHR ''/'' # r) = and_then (parse_mode r) (\<lambda>m. Inr \<lparr>pp_mode = m, pp_kind = AnyOf\<rparr>)"
  "perm_parse (CHR ''-'' # r) = and_then (parse_mode r) (\<lambda>m. Inr \<lparr>pp_mode = m, pp_kind = AllOf\<rparr>)"
  "r = [] \<or> hd r \<noteq> CHR ''/'' \<and> hd r \<noteq> CHR ''-'' \<Longrightarrow>
   perm_parse r = and_then (parse_mode r) (\<lambda>m. Inr \<lparr>pp_mode = m, pp_kind = PermExact\<rparr>)"
  by (auto simp: perm_parse_def neq_Nil_conv split: option.splits)
     (cases r; simp)+

lemma mode_bits_and: "mode_bits (a AND b) = mode_bits a \<inter> mode_bits b"
  by (auto simp: mode_bits_def bit_simps)

lemma mode_bits_and_perm: "mode_bits (st AND 0xFFF) = mode_bits st \<inter> {..<12}"
proof -
  have "mode_bits (st AND mask 12) = mode_bits st \<inter> {..<12}"
    by (auto simp: mode_bits_def bit_simps)
  then show ?thesis by (simp add: mask_eq_exp_minus_1)
qed

lemma perm_matches_bits:
  "perm_matches \<lparr>pp_mode = m, pp_kind = PermExact\<rparr> st \<longleftrightarrow> mode_bits st \<inter> {..<12} = mode_bits m"
  "perm_matches \<lparr>pp_mode = m, pp_kind = AllOf\<rparr> st \<longleftrightarrow> mode_bits m \<subseteq> mode_bits st \<inter> {..<12}"
  "perm_matches \<lparr>pp_mode = m, pp_kind = AnyOf\<rparr> st \<longleftrightarrow>
     m = 0 \<or> mode_bits m \<inter> (mode_bits st \<inter> {..<12}) \<noteq> {}"
proof -
  have eq: "a = b \<longleftrightarrow> mode_bits a = mode_bits b" for a b by (simp only: mode_bits_eq_iff)
  show "perm_matches \<lparr>pp_mode = m, pp_kind = PermExact\<rparr> st \<longleftrightarrow> mode_bits st \<inter> {..<12} = mode_bits m"
    by (simp add: perm_matches_def eq [of "st AND 0xFFF"] mode_bits_and_perm)
  show "perm_matches \<lparr>pp_mode = m, pp_kind = AllOf\<rparr> st \<longleftrightarrow> mode_bits m \<subseteq> mode_bits st \<inter> {..<12}"
    by (simp add: perm_matches_def eq [of "_ AND m"] mode_bits_and [of _ m] mode_bits_and_perm) auto
  show "perm_matches \<lparr>pp_mode = m, pp_kind = AnyOf\<rparr> st \<longleftrightarrow>
     m = 0 \<or> mode_bits m \<inter> (mode_bits st \<inter> {..<12}) \<noteq> {}"
    by (simp add: perm_matches_def eq [of "_ AND m"] mode_bits_and [of _ m] mode_bits_and_perm) auto
qed

text \<open>
  What \<open>-perm /MODE\<close>, \<open>-perm -MODE\<close> and \<open>-perm MODE\<close> accept, for a valid mode, in terms of
  the file's permission bits: some bit of the mode (or the mode is 0), all of them, exactly them.
\<close>

theorem perm_kinds_on_bits:
  assumes "parse_mode r = Inr m"
  shows "\<exists>pany pall.
      perm_parse (CHR ''/'' # r) = Inr pany \<and> perm_parse (CHR ''-'' # r) = Inr pall
    \<and> (\<forall>st. perm_matches pany st \<longleftrightarrow> m = 0 \<or> mode_bits m \<inter> mode_bits st \<noteq> {})
    \<and> (\<forall>st. perm_matches pall st \<longleftrightarrow> mode_bits m \<subseteq> mode_bits st)
    \<and> (hd r \<noteq> CHR ''-'' \<longrightarrow>
        (\<exists>pex. perm_parse r = Inr pex
           \<and> (\<forall>st. perm_matches pex st \<longleftrightarrow> mode_bits st \<inter> {..<12} = mode_bits m)))"
proof -
  have b: "mode_bits m \<subseteq> {..<12}" by (rule parse_mode_bound [OF assms])
  have "hd r \<noteq> CHR ''/'' \<and> r \<noteq> []"
    using assms parse_mode_slash [of "tl r"] by (cases r) (auto simp: parse_mode_def)
  then have ex: "hd r \<noteq> CHR ''-'' \<Longrightarrow> perm_parse r = Inr \<lparr>pp_mode = m, pp_kind = PermExact\<rparr>"
    using assms by (simp add: perm_parse_simps(3))
  show ?thesis
    using assms b ex by (auto simp: perm_parse_simps(1,2) perm_matches_bits)
qed

theorem perm_kinds_on_bits_witness:
  "\<exists>pany pall.
      perm_parse ''/u+w'' = Inr pany \<and> perm_parse ''-u+w'' = Inr pall
    \<and> perm_matches pany 0x1A4 \<and> perm_matches pall 0x1A4"
proof -
  have m: "parse_mode ''u+w'' = Inr 0x80"
    by (simp add: parse_mode_def is_octal_byte_def parse_symbolic_mode_def parse_clause_def
        no_letters_def apply_op_def letter_bits_def Let_def)
  have b: "mode_bits 0x80 = {7}" "7 \<in> mode_bits 0x1A4"
    using mode_bits_power [of 7] by (simp_all add: mode_bits_def)
  show ?thesis
    using perm_kinds_on_bits [OF m] b by auto
qed

text \<open>
  \<open>u+s\<close> stands for setuid alone, \<open>0o4000\<close>: it does not bring an execute bit with it.
\<close>

theorem symbolic_setuid_has_no_execute: "parse_mode ''u+s'' = Inr 0x800"
  by (simp add: parse_mode_def is_octal_byte_def parse_symbolic_mode_def parse_clause_def
      no_letters_def apply_op_def letter_bits_def Let_def)

end
