(* ===== verification/Predicates.thy ===== *)
theory Predicates
  imports Meta Perm
begin

text \<open>
  The conjunction of all metadata predicates (\<open>Predicates\<close> of \<open>src/meta.rs\<close>): whether any is
  set, the \<open>statx\<close> mask they need, and the match. The interface of a single predicate, a test
  that reads only the fields its mask names, is the locale \<open>stat_pred\<close>.
\<close>

section \<open>All predicates of a run\<close>

record Predicates =
  p_size :: "SizePred option"
  p_times :: "TimePred list"
  p_perm :: "PermPred option"
  p_uid :: "IdPred option"
  p_gid :: "IdPred option"
  p_links :: "IdPred option"
  p_inum :: "IdPred option"
  p_newer :: "NewerPred list"
  p_nouser :: bool
  p_nogroup :: bool

definition default_predicates :: Predicates where
  "default_predicates =
     \<lparr>p_size = None, p_times = [], p_perm = None, p_uid = None, p_gid = None,
      p_links = None, p_inum = None, p_newer = [], p_nouser = False, p_nogroup = False\<rparr>"

definition is_active :: "Predicates \<Rightarrow> bool" where
  "is_active p \<longleftrightarrow>
     p_size p \<noteq> None \<or> p_times p \<noteq> [] \<or> p_perm p \<noteq> None \<or> p_uid p \<noteq> None \<or> p_gid p \<noteq> None
     \<or> p_links p \<noteq> None \<or> p_inum p \<noteq> None \<or> p_newer p \<noteq> [] \<or> p_nouser p \<or> p_nogroup p"

definition predicates_mask :: "Predicates \<Rightarrow> u32" where
  "predicates_mask p =
     (let m = 0;
          m = (if p_size p \<noteq> None then m OR mask_SIZE else m);
          m = fold (\<lambda>t m. m OR time_field_mask (tp_field t)) (p_times p) m;
          m = fold (\<lambda>n m. m OR time_field_mask (np_field n)) (p_newer p) m;
          m = (if p_perm p \<noteq> None then m OR mask_MODE else m);
          m = (if p_uid p \<noteq> None \<or> p_nouser p then m OR mask_UID else m);
          m = (if p_gid p \<noteq> None \<or> p_nogroup p then m OR mask_GID else m);
          m = (if p_links p \<noteq> None then m OR mask_NLINK else m)
      in if p_inum p \<noteq> None then m OR mask_INO else m)"

definition predicates_matches :: "Predicates \<Rightarrow> Meta \<Rightarrow> i64 \<Rightarrow> bool option" where
  "predicates_matches p m now =
     and_also (opt_pass (\<lambda>s. size_matches s (m_size m)) (p_size p))
    (and_also (all_pass (\<lambda>t. time_matches t m now) (p_times p))
    (and_also (opt_pass (\<lambda>q. Some (perm_matches q (m_mode m))) (p_perm p))
    (and_also (opt_pass (\<lambda>u. Some (id_matches u (ucast (m_uid m)))) (p_uid p))
    (and_also (opt_pass (\<lambda>g. Some (id_matches g (ucast (m_gid m)))) (p_gid p))
    (and_also (opt_pass (\<lambda>l. Some (id_matches l (m_nlink m))) (p_links p))
    (and_also (opt_pass (\<lambda>i. Some (id_matches i (m_ino m))) (p_inum p))
              (all_pass (\<lambda>n. Some (newer_matches n m)) (p_newer p))))))))"

section \<open>Stat fields and agreement under a mask\<close>

datatype stat_field = FSize | FMtime | FCtime | FAtime | FMode | FUid | FGid | FNlink | FIno

instantiation stat_field :: enum
begin

definition enum_stat_field :: "stat_field list" where
  "enum_stat_field = [FSize, FMtime, FCtime, FAtime, FMode, FUid, FGid, FNlink, FIno]"

definition enum_all_stat_field :: "(stat_field \<Rightarrow> bool) \<Rightarrow> bool" where
  "enum_all_stat_field P \<longleftrightarrow> list_all P [FSize, FMtime, FCtime, FAtime, FMode, FUid, FGid, FNlink, FIno]"

definition enum_ex_stat_field :: "(stat_field \<Rightarrow> bool) \<Rightarrow> bool" where
  "enum_ex_stat_field P \<longleftrightarrow> list_ex P [FSize, FMtime, FCtime, FAtime, FMode, FUid, FGid, FNlink, FIno]"

instance proof
  show u: "(UNIV :: stat_field set) = set enum_class.enum"
    by (auto simp: enum_stat_field_def intro: stat_field.exhaust)
  show "distinct (enum_class.enum :: stat_field list)"
    by (simp add: enum_stat_field_def)
  show "enum_class.enum_all P \<longleftrightarrow> Ball UNIV P" for P :: "stat_field \<Rightarrow> bool"
    by (simp only: u) (simp add: enum_stat_field_def enum_all_stat_field_def)
  show "enum_class.enum_ex P \<longleftrightarrow> Bex UNIV P" for P :: "stat_field \<Rightarrow> bool"
    by (simp only: u) (simp add: enum_stat_field_def enum_ex_stat_field_def)
qed

end

fun field_bit :: "stat_field \<Rightarrow> u32" where
  "field_bit FSize = mask_SIZE"
| "field_bit FMtime = mask_MTIME"
| "field_bit FCtime = mask_CTIME"
| "field_bit FAtime = mask_ATIME"
| "field_bit FMode = mask_MODE"
| "field_bit FUid = mask_UID"
| "field_bit FGid = mask_GID"
| "field_bit FNlink = mask_NLINK"
| "field_bit FIno = mask_INO"

fun field_value :: "stat_field \<Rightarrow> Meta \<Rightarrow> int" where
  "field_value FSize m = uint (m_size m)"
| "field_value FMtime m = uint (m_mtime m)"
| "field_value FCtime m = uint (m_ctime m)"
| "field_value FAtime m = uint (m_atime m)"
| "field_value FMode m = uint (m_mode m)"
| "field_value FUid m = uint (m_uid m)"
| "field_value FGid m = uint (m_gid m)"
| "field_value FNlink m = uint (m_nlink m)"
| "field_value FIno m = uint (m_ino m)"

text \<open>Two stat records that agree on every field a mask names.\<close>

definition agree :: "u32 \<Rightarrow> Meta \<Rightarrow> Meta \<Rightarrow> bool" where
  "agree msk m m' \<longleftrightarrow> (\<forall>f. msk AND field_bit f \<noteq> 0 \<longrightarrow> field_value f m = field_value f m')"

lemma field_bit_and: "field_bit f AND field_bit g \<noteq> 0 \<longleftrightarrow> f = g"
  by (cases f; cases g) (simp_all add: mask_defs)

lemma agree_refl [simp]: "agree msk m m"
  by (simp add: agree_def)

lemma agree_or: "agree (a OR b) m m' \<longleftrightarrow> agree a m m' \<and> agree b m m'"
  by (auto simp: agree_def word_or_and_eq_0_iff)

lemma agree_field: "agree (field_bit f) m m' \<longleftrightarrow> field_value f m = field_value f m'"
  by (auto simp: agree_def field_bit_and)

lemma agree_fields:
  "agree mask_SIZE m m' \<Longrightarrow> m_size m = m_size m'"
  "agree mask_MODE m m' \<Longrightarrow> m_mode m = m_mode m'"
  "agree mask_UID m m' \<Longrightarrow> m_uid m = m_uid m'"
  "agree mask_GID m m' \<Longrightarrow> m_gid m = m_gid m'"
  "agree mask_NLINK m m' \<Longrightarrow> m_nlink m = m_nlink m'"
  "agree mask_INO m m' \<Longrightarrow> m_ino m = m_ino m'"
  using agree_field [of FSize] agree_field [of FMode] agree_field [of FUid] agree_field [of FGid]
    agree_field [of FNlink] agree_field [of FIno]
  by (simp_all add: word_uint_eq_iff)

lemma agree_time: "agree (time_field_mask f) m m' \<Longrightarrow> time_field_of f m = time_field_of f m'"
  using agree_field [of FMtime] agree_field [of FCtime] agree_field [of FAtime]
  by (cases f) (simp_all add: word_uint_eq_iff)

section \<open>The interface of a predicate\<close>

text \<open>
  What the walker relies on when it fetches only part of a stat record: a predicate names the
  fields it reads, and its verdict depends on nothing else.
\<close>

locale stat_pred =
  fixes reads :: "'p \<Rightarrow> u32"
    and test :: "'p \<Rightarrow> Meta \<Rightarrow> i64 \<Rightarrow> bool option"
  assumes frame: "agree (reads p) m m' \<Longrightarrow> test p m now = test p m' now"
begin

lemma opt_frame:
  "(\<And>p. q = Some p \<Longrightarrow> agree (reads p) m m') \<Longrightarrow>
   opt_pass (\<lambda>p. test p m now) q = opt_pass (\<lambda>p. test p m' now) q"
  by (cases q) (auto intro: frame)

lemma list_frame:
  "(\<And>p. p \<in> set ps \<Longrightarrow> agree (reads p) m m') \<Longrightarrow>
   all_pass (\<lambda>p. test p m now) ps = all_pass (\<lambda>p. test p m' now) ps"
  by (rule all_pass_cong) (auto intro: frame)

text \<open>A fetch that fills the named fields right is as good as the full record.\<close>

lemma fetch_sound:
  assumes "\<And>f. reads p AND field_bit f \<noteq> 0 \<Longrightarrow> field_value f fetched = field_value f full"
  shows "test p fetched now = test p full now"
  using assms by (intro frame) (simp add: agree_def)

end

interpretation sizes: stat_pred "\<lambda>_. mask_SIZE" "\<lambda>p m now. size_matches p (m_size m)"
  by unfold_locales (simp add: agree_fields)

interpretation times: stat_pred "\<lambda>t. time_field_mask (tp_field t)" time_matches
  by unfold_locales (simp add: time_matches_def agree_time)

interpretation perms: stat_pred "\<lambda>_. mask_MODE" "\<lambda>p m now. Some (perm_matches p (m_mode m))"
  by unfold_locales (simp add: agree_fields)

interpretation uids: stat_pred "\<lambda>_. mask_UID" "\<lambda>p m now. Some (id_matches p (ucast (m_uid m)))"
  by unfold_locales (simp add: agree_fields)

interpretation gids: stat_pred "\<lambda>_. mask_GID" "\<lambda>p m now. Some (id_matches p (ucast (m_gid m)))"
  by unfold_locales (simp add: agree_fields)

interpretation links: stat_pred "\<lambda>_. mask_NLINK" "\<lambda>p m now. Some (id_matches p (m_nlink m))"
  by unfold_locales (simp add: agree_fields)

interpretation inums: stat_pred "\<lambda>_. mask_INO" "\<lambda>p m now. Some (id_matches p (m_ino m))"
  by unfold_locales (simp add: agree_fields)

interpretation newers: stat_pred "\<lambda>n. time_field_mask (np_field n)" "\<lambda>n m now. Some (newer_matches n m)"
  by unfold_locales (simp add: newer_matches_def agree_time)

section \<open>The mask of a run\<close>

text \<open>The fields the set predicates read, one by one.\<close>

fun time_field :: "TimeField \<Rightarrow> stat_field" where
  "time_field Mtime = FMtime"
| "time_field Ctime = FCtime"
| "time_field Atime = FAtime"

definition wanted :: "Predicates \<Rightarrow> stat_field set" where
  "wanted p =
     {f. (f = FSize \<and> p_size p \<noteq> None)
       \<or> (\<exists>t \<in> set (p_times p). f = time_field (tp_field t))
       \<or> (\<exists>n \<in> set (p_newer p). f = time_field (np_field n))
       \<or> (f = FMode \<and> p_perm p \<noteq> None)
       \<or> (f = FUid \<and> (p_uid p \<noteq> None \<or> p_nouser p))
       \<or> (f = FGid \<and> (p_gid p \<noteq> None \<or> p_nogroup p))
       \<or> (f = FNlink \<and> p_links p \<noteq> None)
       \<or> (f = FIno \<and> p_inum p \<noteq> None)}"

lemma time_field_bit: "field_bit (time_field f) = time_field_mask f"
  by (cases f) simp_all

lemma fold_or_and_iff:
  "fold (\<lambda>x m. m OR g x) xs a AND b \<noteq> 0 \<longleftrightarrow> a AND b \<noteq> 0 \<or> (\<exists>x \<in> set xs. g x AND b \<noteq> (0 :: u32))"
  by (induction xs arbitrary: a) (auto simp: word_or_and_eq_0_iff)

lemma if_or_and_iff:
  "(if P then a OR c else a) AND b \<noteq> 0 \<longleftrightarrow> a AND b \<noteq> 0 \<or> (P \<and> c AND b \<noteq> (0 :: u32))"
  by (simp add: word_or_and_eq_0_iff)

lemma mask_field_iff: "predicates_mask p AND field_bit f \<noteq> 0 \<longleftrightarrow> f \<in> wanted p"
proof -
  have bits: "mask_SIZE = field_bit FSize" "mask_MODE = field_bit FMode" "mask_UID = field_bit FUid"
    "mask_GID = field_bit FGid" "mask_NLINK = field_bit FNlink" "mask_INO = field_bit FIno"
    by simp_all
  show ?thesis
    unfolding predicates_mask_def Let_def wanted_def mem_Collect_eq
      if_or_and_iff fold_or_and_iff bits time_field_bit [symmetric] field_bit_and
      bit.conj_zero_left
    by blast
qed

text \<open>
  The \<open>statx\<close> mask of a run holds exactly the bits of the fields its predicates read: a
  field is requested if and only if some active predicate needs it, \<open>-nouser\<close> and \<open>-nogroup\<close>
  included.
\<close>

theorem mask_is_exact: "predicates_mask p AND field_bit f \<noteq> 0 \<longleftrightarrow> f \<in> wanted p"
  by (rule mask_field_iff)

lemma ex_eq_conj: "(\<exists>f. f = a \<and> P) \<longleftrightarrow> P" "(\<exists>f. \<exists>x \<in> set xs. f = g x) \<longleftrightarrow> xs \<noteq> []"
  by (simp, cases xs, auto)

lemma wanted_empty_iff: "wanted p = {} \<longleftrightarrow> \<not> is_active p"
proof -
  have "wanted p \<noteq> {} \<longleftrightarrow> (\<exists>f. f \<in> wanted p)" by (rule ex_in_conv [symmetric])
  also have "\<dots> \<longleftrightarrow> is_active p"
    unfolding wanted_def mem_Collect_eq ex_disj_distrib ex_eq_conj is_active_def by blast
  finally show ?thesis by blast
qed

text \<open>
  A run fetches metadata (\<open>is_active\<close>) exactly when its mask requests some field: there is
  no stat with an empty mask, and no predicate that is skipped for lack of one.
\<close>

theorem active_iff_mask_nonzero: "is_active p \<longleftrightarrow> predicates_mask p \<noteq> 0"
proof
  assume "is_active p"
  then obtain f where "f \<in> wanted p" using wanted_empty_iff by blast
  then have "predicates_mask p AND field_bit f \<noteq> 0" by (simp only: mask_field_iff)
  then show "predicates_mask p \<noteq> 0" by auto
next
  assume "predicates_mask p \<noteq> 0"
  then show "is_active p"
    by (rule contrapos_np) (simp add: is_active_def predicates_mask_def)
qed

section \<open>The match\<close>

lemma agree_mask_wanted:
  "agree (predicates_mask p) m m' \<longleftrightarrow> (\<forall>f \<in> wanted p. field_value f m = field_value f m')"
  by (auto simp: agree_def mask_field_iff)

lemma agree_mask_field: "agree (predicates_mask p) m m' \<Longrightarrow> f \<in> wanted p \<Longrightarrow> agree (field_bit f) m m'"
  by (simp add: agree_mask_wanted agree_field)

lemma predicates_frame:
  assumes "agree (predicates_mask p) m m'"
  shows "predicates_matches p m now = predicates_matches p m' now"
proof -
  note a = agree_mask_field [OF assms]
  have t: "agree (time_field_mask (tp_field t)) m m'" if "t \<in> set (p_times p)" for t
  proof -
    have "time_field (tp_field t) \<in> wanted p" using that by (auto simp: wanted_def)
    then show ?thesis using a by (simp only: time_field_bit [symmetric])
  qed
  have n: "agree (time_field_mask (np_field t)) m m'" if "t \<in> set (p_newer p)" for t
  proof -
    have "time_field (np_field t) \<in> wanted p" using that by (auto simp: wanted_def)
    then show ?thesis using a by (simp only: time_field_bit [symmetric])
  qed
  have "opt_pass (\<lambda>s. size_matches s (m_size m)) (p_size p)
      = opt_pass (\<lambda>s. size_matches s (m_size m')) (p_size p)"
    using a [of FSize] by (intro sizes.opt_frame) (simp add: wanted_def)
  moreover have "all_pass (\<lambda>t. time_matches t m now) (p_times p)
      = all_pass (\<lambda>t. time_matches t m' now) (p_times p)"
    by (rule times.list_frame) (rule t)
  moreover have "opt_pass (\<lambda>q. Some (perm_matches q (m_mode m))) (p_perm p)
      = opt_pass (\<lambda>q. Some (perm_matches q (m_mode m'))) (p_perm p)"
    using a [of FMode] by (intro perms.opt_frame) (simp add: wanted_def)
  moreover have "opt_pass (\<lambda>u. Some (id_matches u (ucast (m_uid m)))) (p_uid p)
      = opt_pass (\<lambda>u. Some (id_matches u (ucast (m_uid m')))) (p_uid p)"
    using a [of FUid] by (intro uids.opt_frame) (simp add: wanted_def)
  moreover have "opt_pass (\<lambda>g. Some (id_matches g (ucast (m_gid m)))) (p_gid p)
      = opt_pass (\<lambda>g. Some (id_matches g (ucast (m_gid m')))) (p_gid p)"
    using a [of FGid] by (intro gids.opt_frame) (simp add: wanted_def)
  moreover have "opt_pass (\<lambda>l. Some (id_matches l (m_nlink m))) (p_links p)
      = opt_pass (\<lambda>l. Some (id_matches l (m_nlink m'))) (p_links p)"
    using a [of FNlink] by (intro links.opt_frame) (simp add: wanted_def)
  moreover have "opt_pass (\<lambda>i. Some (id_matches i (m_ino m))) (p_inum p)
      = opt_pass (\<lambda>i. Some (id_matches i (m_ino m'))) (p_inum p)"
    using a [of FIno] by (intro inums.opt_frame) (simp add: wanted_def)
  moreover have "all_pass (\<lambda>n. Some (newer_matches n m)) (p_newer p)
      = all_pass (\<lambda>n. Some (newer_matches n m')) (p_newer p)"
    by (rule newers.list_frame) (rule n)
  ultimately show ?thesis by (simp only: predicates_matches_def)
qed

interpretation preds: stat_pred predicates_mask predicates_matches
  by unfold_locales (rule predicates_frame)

text \<open>
  C32. The fields outside the mask are never observed: if what \<open>statx\<close> returned is right on every
  field the mask requests, the verdict is the one on the file's full metadata, whatever the
  other fields hold.
\<close>

theorem unmasked_fields_not_observed:
  assumes "\<And>f. predicates_mask p AND field_bit f \<noteq> 0 \<Longrightarrow> field_value f fetched = field_value f full"
  shows "predicates_matches p fetched now = predicates_matches p full now"
  using assms by (rule preds.fetch_sound)

definition blank_meta :: Meta where
  "blank_meta = \<lparr>m_size = 0, m_mtime = 0, m_ctime = 0, m_atime = 0, m_mode = 0, m_uid = 0,
     m_gid = 0, m_nlink = 0, m_ino = 0\<rparr>"

theorem unmasked_fields_not_observed_witness:
  "predicates_matches (default_predicates\<lparr>p_uid := Some (id_exact 7)\<rparr>)
     (blank_meta\<lparr>m_uid := 7\<rparr>) 0 =
   predicates_matches (default_predicates\<lparr>p_uid := Some (id_exact 7)\<rparr>)
     (blank_meta\<lparr>m_uid := 7, m_size := 99, m_mode := 5\<rparr>) 0"
proof (rule unmasked_fields_not_observed)
  fix f
  assume "predicates_mask (default_predicates\<lparr>p_uid := Some (id_exact 7)\<rparr>) AND field_bit f \<noteq> 0"
  then have "f = FUid" by (auto simp: mask_field_iff wanted_def default_predicates_def)
  then show "field_value f (blank_meta\<lparr>m_uid := 7\<rparr>) =
      field_value f (blank_meta\<lparr>m_uid := 7, m_size := 99, m_mode := 5\<rparr>)"
    by (simp add: blank_meta_def)
qed

text \<open>
  What the argument parser guarantees of the predicates it builds, and the conjunction they
  stand for.
\<close>

definition wf_predicates :: "Predicates \<Rightarrow> bool" where
  "wf_predicates p \<longleftrightarrow>
     (\<forall>s. p_size p = Some s \<longrightarrow> 0 < uint (sp_unit s)) \<and>
     (\<forall>t \<in> set (p_times p). tp_unit_secs t \<in> {DAY, MINUTE})"

definition satisfied :: "Predicates \<Rightarrow> Meta \<Rightarrow> i64 \<Rightarrow> bool" where
  "satisfied p m now \<longleftrightarrow>
     (\<forall>s. p_size p = Some s \<longrightarrow> size_matches s (m_size m) = Some True) \<and>
     (\<forall>t \<in> set (p_times p). time_matches t m now = Some True) \<and>
     (\<forall>q. p_perm p = Some q \<longrightarrow> perm_matches q (m_mode m)) \<and>
     (\<forall>u. p_uid p = Some u \<longrightarrow> comparison_holds (ip_cmp u) (uint (m_uid m))) \<and>
     (\<forall>g. p_gid p = Some g \<longrightarrow> comparison_holds (ip_cmp g) (uint (m_gid m))) \<and>
     (\<forall>l. p_links p = Some l \<longrightarrow> id_matches l (m_nlink m)) \<and>
     (\<forall>i. p_inum p = Some i \<longrightarrow> id_matches i (m_ino m)) \<and>
     (\<forall>n \<in> set (p_newer p). sint (np_ref_mtime n) < sint (time_field_of (np_field n) m))"

lemma wf_default [simp]: "wf_predicates default_predicates"
  by (simp add: wf_predicates_def default_predicates_def)

lemma id_matches_u32: "id_matches p (ucast (i :: u32)) \<longleftrightarrow> comparison_holds (ip_cmp p) (uint i)"
proof -
  have "uint (ucast i :: u64) = uint i"
    by (simp add: uint_up_ucast is_up)
  moreover have "uint i < 2 ^ 32" using uint_lt2p [of i] by simp
  ultimately have "min (uint (ucast i :: u64)) (2 ^ 63 - 1) = uint i" by simp
  then show ?thesis by (simp only: id_matches_def comparison_matches_u64_min)
qed

lemma predicates_matches_not_None:
  assumes "wf_predicates p"
  shows "predicates_matches p m now \<noteq> None"
proof -
  have "opt_pass (\<lambda>s. size_matches s (m_size m)) (p_size p) \<noteq> None"
    using assms by (intro opt_pass_not_None size_matches_not_None) (simp add: wf_predicates_def)
  moreover have "all_pass (\<lambda>t. time_matches t m now) (p_times p) \<noteq> None"
    using assms by (intro all_pass_not_None time_matches_not_None) (auto simp: wf_predicates_def)
  ultimately show ?thesis
    unfolding predicates_matches_def by (intro and_also_not_None opt_pass_total all_pass_total)
qed

lemma predicates_matches_True_iff:
  "predicates_matches p m now = Some True \<longleftrightarrow> satisfied p m now"
  unfolding predicates_matches_def satisfied_def and_also_Some_iff opt_pass_Some_True all_pass_Some_True
  by (simp add: id_matches_u32 newer_matches_def word_sless_alt)

text \<open>
  C31. For predicates as the parser builds them the match never panics, and it holds exactly when
  every predicate that is set holds: the flags are ANDed, \<open>-uid\<close>/\<open>-gid\<close> compare the exact id
  and \<open>-newer\<close> asks for a strictly later time.
\<close>

theorem matches_is_conjunction:
  assumes "wf_predicates p"
  shows "predicates_matches p m now = Some (satisfied p m now)"
proof -
  obtain b where "predicates_matches p m now = Some b"
    using predicates_matches_not_None [OF assms] by blast
  then show ?thesis
    using predicates_matches_True_iff [of p m now] by (cases b) auto
qed

theorem matches_is_conjunction_witness:
  "predicates_matches (default_predicates\<lparr>p_uid := Some (id_exact 7),
     p_size := Some \<lparr>sp_cmp = Greater 0, sp_unit = 1\<rparr>\<rparr>) (blank_meta\<lparr>m_uid := 7\<rparr>) 0 = Some False"
proof -
  let ?p = "default_predicates\<lparr>p_uid := Some (id_exact 7),
     p_size := Some \<lparr>sp_cmp = Greater 0, sp_unit = 1\<rparr>\<rparr>"
  have "wf_predicates ?p" by (simp add: wf_predicates_def default_predicates_def)
  note m = matches_is_conjunction [OF this, of "blank_meta\<lparr>m_uid := 7\<rparr>" 0]
  have "\<not> satisfied ?p (blank_meta\<lparr>m_uid := 7\<rparr>) 0"
    by (simp add: satisfied_def default_predicates_def blank_meta_def size_matches_ceil)
  with m show ?thesis by simp
qed

lemma default_matches: "predicates_matches default_predicates m now = Some True"
  by (simp add: predicates_matches_def default_predicates_def)

end
