(* ===== verification/Nss.thy ===== *)
theory Nss
  imports Prelude
begin

text \<open>
  The passwd/group lookups of \<open>src/meta.rs\<close>: the grow-on-\<open>ERANGE\<close> loop around the reentrant
  libc calls, \<open>resolve_user\<close>/\<open>resolve_group\<close>, and the per-thread memo \<open>NssCache\<close>.

  A libc call is a parameter: from the buffer length to its return code and the id of the
  entry it filled in, if any. The buffer has \<open>1024 * 2 ^ k\<close> bytes in round \<open>k\<close>; growing it past
  \<open>isize::MAX\<close> panics (\<open>Vec\<close> capacity overflow), so the loop always ends.
\<close>

section \<open>The retry loop\<close>

definition ERANGE :: int where "ERANGE = 34"

type_synonym nss_reply = "int \<times> u32 option"

function nss_retry :: "(nat \<Rightarrow> nss_reply) \<Rightarrow> nat \<Rightarrow> nss_reply option" where
  "nss_retry call k =
     (if fst (call (1024 * 2 ^ k)) = ERANGE
      then (if 2 ^ 63 \<le> (1024 * 2 ^ k * 2 :: nat) then None else nss_retry call (Suc k))
      else Some (call (1024 * 2 ^ k)))"
  by pat_completeness auto
termination
proof (relation "measure (\<lambda>(call, k). 64 - k)")
  fix call :: "nat \<Rightarrow> nss_reply" and k :: nat
  assume "\<not> 2 ^ 63 \<le> (1024 * 2 ^ k * 2 :: nat)"
  then have "2 ^ (k + 11) < (2 ^ 63 :: nat)" by (simp add: power_add)
  then have "k + 11 < 63" by (rule power_less_imp_less_exp [rotated]) simp
  then show "((call, Suc k), (call, k)) \<in> measure (\<lambda>(call, k). 64 - k)" by simp
qed simp

declare nss_retry.simps [simp del]

text \<open>\<open>getpwnam_r\<close>/\<open>getgrnam_r\<close>: a name with a NUL byte cannot be passed; an error is no entry.\<close>

definition nss_uid :: "(string \<Rightarrow> nat \<Rightarrow> nss_reply) \<Rightarrow> string \<Rightarrow> u32 option option" where
  "nss_uid getpwnam_r name =
     (if CHR 0x00 \<in> set name then Some None
      else map_option (\<lambda>(rc, entry). if rc = 0 then entry else None) (nss_retry (getpwnam_r name) 0))"

definition nss_gid :: "(string \<Rightarrow> nat \<Rightarrow> nss_reply) \<Rightarrow> string \<Rightarrow> u32 option option" where
  "nss_gid getgrnam_r name =
     (if CHR 0x00 \<in> set name then Some None
      else map_option (\<lambda>(rc, entry). if rc = 0 then entry else None) (nss_retry (getgrnam_r name) 0))"

text \<open>\<open>getpwuid_r\<close>/\<open>getgrgid_r\<close>: an error counts as an existing entry.\<close>

definition nss_user_exists :: "(u32 \<Rightarrow> nat \<Rightarrow> nss_reply) \<Rightarrow> u32 \<Rightarrow> bool option" where
  "nss_user_exists getpwuid_r uid =
     map_option (\<lambda>(rc, entry). if rc = 0 then entry \<noteq> None else True) (nss_retry (getpwuid_r uid) 0)"

definition nss_group_exists :: "(u32 \<Rightarrow> nat \<Rightarrow> nss_reply) \<Rightarrow> u32 \<Rightarrow> bool option" where
  "nss_group_exists getgrgid_r gid =
     map_option (\<lambda>(rc, entry). if rc = 0 then entry \<noteq> None else True) (nss_retry (getgrgid_r gid) 0)"

definition resolve_user :: "(string \<Rightarrow> nat \<Rightarrow> nss_reply) \<Rightarrow> string \<Rightarrow> (error + u32) option" where
  "resolve_user getpwnam_r name =
     map_option
       (\<lambda>r. case r of
              Some uid \<Rightarrow> Inr uid
            | None \<Rightarrow> (case parse_u32_radix 10 name of Inr n \<Rightarrow> Inr n | Inl _ \<Rightarrow> Inl (UnknownUser name)))
       (nss_uid getpwnam_r name)"

definition resolve_group :: "(string \<Rightarrow> nat \<Rightarrow> nss_reply) \<Rightarrow> string \<Rightarrow> (error + u32) option" where
  "resolve_group getgrnam_r name =
     map_option
       (\<lambda>r. case r of
              Some gid \<Rightarrow> Inr gid
            | None \<Rightarrow> (case parse_u32_radix 10 name of Inr n \<Rightarrow> Inr n | Inl _ \<Rightarrow> Inl (UnknownGroup name)))
       (nss_gid getgrnam_r name)"

section \<open>The memo\<close>

record NssCache =
  nc_users :: "u32 \<rightharpoonup> bool"
  nc_groups :: "u32 \<rightharpoonup> bool"

definition nss_cache_default :: NssCache where
  "nss_cache_default = \<lparr>nc_users = Map.empty, nc_groups = Map.empty\<rparr>"

text \<open>\<open>*map.entry(id).or_insert_with(|| lookup(id))\<close>\<close>

definition user_exists :: "(u32 \<Rightarrow> nat \<Rightarrow> nss_reply) \<Rightarrow> u32 \<Rightarrow> NssCache \<Rightarrow> (bool \<times> NssCache) option" where
  "user_exists getpwuid_r uid c =
     (case nc_users c uid of
        Some b \<Rightarrow> Some (b, c)
      | None \<Rightarrow>
          map_option (\<lambda>b. (b, c\<lparr>nc_users := (nc_users c)(uid \<mapsto> b)\<rparr>)) (nss_user_exists getpwuid_r uid))"

definition group_exists :: "(u32 \<Rightarrow> nat \<Rightarrow> nss_reply) \<Rightarrow> u32 \<Rightarrow> NssCache \<Rightarrow> (bool \<times> NssCache) option" where
  "group_exists getgrgid_r gid c =
     (case nc_groups c gid of
        Some b \<Rightarrow> Some (b, c)
      | None \<Rightarrow>
          map_option (\<lambda>b. (b, c\<lparr>nc_groups := (nc_groups c)(gid \<mapsto> b)\<rparr>)) (nss_group_exists getgrgid_r gid))"

section \<open>The loop returns the first reply that fits\<close>

lemma nss_retry_Some:
  "nss_retry call k = Some r \<Longrightarrow>
   \<exists>j \<ge> k. r = call (1024 * 2 ^ j) \<and> fst r \<noteq> ERANGE \<and> (\<forall>i. k \<le> i \<and> i < j \<longrightarrow> fst (call (1024 * 2 ^ i)) = ERANGE)"
proof (induction call k rule: nss_retry.induct)
  case (1 call k)
  show ?case
  proof (cases "fst (call (1024 * 2 ^ k)) = ERANGE")
    case True
    then have n: "\<not> 2 ^ 63 \<le> (1024 * 2 ^ k * 2 :: nat)" and r: "nss_retry call (Suc k) = Some r"
      using "1.prems" by (simp_all add: nss_retry.simps [of call k] split: if_splits)
    obtain j where j: "Suc k \<le> j" "r = call (1024 * 2 ^ j)" "fst r \<noteq> ERANGE"
      "\<forall>i. Suc k \<le> i \<and> i < j \<longrightarrow> fst (call (1024 * 2 ^ i)) = ERANGE"
      using "1.IH" [OF True n r] by blast
    have "fst (call (1024 * 2 ^ i)) = ERANGE" if "k \<le> i" "i < j" for i
      using that j(4) True by (cases "i = k") auto
    with j show ?thesis by (intro exI [of _ j]) auto
  next
    case False
    with "1.prems" show ?thesis by (intro exI [of _ k]) (simp add: nss_retry.simps [of call k])
  qed
qed

lemma nss_retry_enough:
  assumes "fst (call (1024 * 2 ^ j)) \<noteq> ERANGE" "k \<le> j" "j \<le> 52"
  shows "nss_retry call k \<noteq> None"
  using assms
proof (induction call k rule: nss_retry.induct)
  case (1 call k)
  show ?case
  proof (cases "fst (call (1024 * 2 ^ k)) = ERANGE")
    case True
    with "1.prems" have "Suc k \<le> j" by (cases "k = j") auto
    then have "(2 ^ (k + 11) :: nat) < 2 ^ 63"
      using "1.prems"(3) by (intro power_strict_increasing) auto
    then have n: "\<not> 2 ^ 63 \<le> (1024 * 2 ^ k * 2 :: nat)" by (simp add: power_add)
    have "nss_retry call (Suc k) \<noteq> None"
      by (rule "1.IH" [OF True n "1.prems"(1) \<open>Suc k \<le> j\<close> "1.prems"(3)])
    with True n show ?thesis by (simp add: nss_retry.simps [of call k])
  next
    case False
    then show ?thesis by (simp add: nss_retry.simps [of call k])
  qed
qed

section \<open>The interface of a memo\<close>

text \<open>A memo is coherent when what it remembers is what the source would answer.\<close>

definition coherent :: "('k \<Rightarrow> 'v option) \<Rightarrow> ('k \<rightharpoonup> 'v) \<Rightarrow> bool" where
  "coherent source vw \<longleftrightarrow> (\<forall>k v. vw k = Some v \<longrightarrow> source k = Some v)"

fun memo_run :: "('k \<Rightarrow> 'c \<Rightarrow> ('v \<times> 'c) option) \<Rightarrow> 'k list \<Rightarrow> 'c \<Rightarrow> ('v list \<times> 'c) option" where
  "memo_run get [] c = Some ([], c)"
| "memo_run get (k # ks) c =
     (case get k c of
        None \<Rightarrow> None
      | Some (v, c1) \<Rightarrow>
          (case memo_run get ks c1 of None \<Rightarrow> None | Some (vs, c2) \<Rightarrow> Some (v # vs, c2)))"

locale memo =
  fixes source :: "'k \<Rightarrow> 'v option"
    and get :: "'k \<Rightarrow> 'c \<Rightarrow> ('v \<times> 'c) option"
    and view :: "'c \<Rightarrow> 'k \<Rightarrow> 'v option"
  assumes get_hit: "view c k = Some v \<Longrightarrow> get k c = Some (v, c)"
    and get_miss: "view c k = None \<Longrightarrow> source k = Some v \<Longrightarrow>
      \<exists>c'. get k c = Some (v, c') \<and> view c' = (view c)(k \<mapsto> v)"
begin

lemma get_coherent:
  assumes "coherent source (view c)" "source k = Some v"
  shows "\<exists>c'. get k c = Some (v, c') \<and> coherent source (view c') \<and> dom (view c') = insert k (dom (view c))"
proof (cases "view c k")
  case None
  then obtain c' where "get k c = Some (v, c')" "view c' = (view c)(k \<mapsto> v)"
    using get_miss [OF None assms(2)] by blast
  with assms show ?thesis by (auto simp: coherent_def)
next
  case (Some u)
  then have "u = v" using assms by (auto simp: coherent_def)
  with Some get_hit [OF Some] assms show ?thesis by auto
qed

lemma run_transparent:
  assumes "coherent source (view c)" "\<And>k. k \<in> set ks \<Longrightarrow> source k = Some (f k)"
  shows "\<exists>c'. memo_run get ks c = Some (map f ks, c') \<and> coherent source (view c')
    \<and> dom (view c') = dom (view c) \<union> set ks"
  using assms
proof (induction ks arbitrary: c)
  case Nil
  then show ?case by simp
next
  case (Cons k ks)
  obtain c1 where c1: "get k c = Some (f k, c1)" "coherent source (view c1)"
    "dom (view c1) = insert k (dom (view c))"
    using get_coherent [OF Cons.prems(1), of k "f k"] Cons.prems(2) by auto
  obtain c2 where "memo_run get ks c1 = Some (map f ks, c2)" "coherent source (view c2)"
    "dom (view c2) = dom (view c1) \<union> set ks"
    using Cons.IH [OF c1(2)] Cons.prems(2) by auto
  with c1 show ?case by auto
qed

end

interpretation users: memo "nss_user_exists getpwuid_r" "user_exists getpwuid_r" nc_users
  for getpwuid_r
  by unfold_locales (auto simp: user_exists_def)

interpretation groups: memo "nss_group_exists getgrgid_r" "group_exists getgrgid_r" nc_groups
  for getgrgid_r
  by unfold_locales (auto simp: group_exists_def)

lemma user_exists_groups: "user_exists g u c = Some (b, c') \<Longrightarrow> nc_groups c' = nc_groups c"
  by (auto simp: user_exists_def split: option.splits)

lemma group_exists_users: "group_exists g u c = Some (b, c') \<Longrightarrow> nc_users c' = nc_users c"
  by (auto simp: group_exists_def split: option.splits)

section \<open>Properties\<close>

text \<open>
  C37. The memo behind \<open>-nouser\<close>/\<open>-nogroup\<close> is transparent: over any sequence of ids it gives the
  answers of fresh lookups, and it remembers exactly the ids asked for, one entry each.
\<close>

theorem nss_cache_transparent:
  assumes "\<And>i. i \<in> set ids \<Longrightarrow> nss_user_exists getpwuid_r i = Some (u i)"
    and "\<And>i. i \<in> set ids \<Longrightarrow> nss_group_exists getgrgid_r i = Some (g i)"
  shows "\<exists>c c'. memo_run (user_exists getpwuid_r) ids nss_cache_default = Some (map u ids, c)
    \<and> dom (nc_users c) = set ids
    \<and> memo_run (group_exists getgrgid_r) ids nss_cache_default = Some (map g ids, c')
    \<and> dom (nc_groups c') = set ids"
proof -
  have "coherent (nss_user_exists getpwuid_r) (nc_users nss_cache_default)"
    "coherent (nss_group_exists getgrgid_r) (nc_groups nss_cache_default)"
    by (simp_all add: coherent_def nss_cache_default_def)
  note co = this
  obtain c where "memo_run (user_exists getpwuid_r) ids nss_cache_default = Some (map u ids, c)"
    "dom (nc_users c) = dom (nc_users nss_cache_default) \<union> set ids"
    using users.run_transparent [OF co(1), of ids u] assms(1) by blast
  moreover obtain c' where "memo_run (group_exists getgrgid_r) ids nss_cache_default = Some (map g ids, c')"
    "dom (nc_groups c') = dom (nc_groups nss_cache_default) \<union> set ids"
    using groups.run_transparent [OF co(2), of ids g] assms(2) by blast
  ultimately show ?thesis by (auto simp: nss_cache_default_def)
qed

lemma nss_retry_round_0: "fst (call 1024) \<noteq> ERANGE \<Longrightarrow> nss_retry call 0 = Some (call 1024)"
  by (simp add: nss_retry.simps [of call 0])

theorem nss_cache_transparent_witness:
  "\<exists>c c'. memo_run (user_exists (\<lambda>i _. (0, if i = 0 then Some 0 else None))) [0, 7, 0] nss_cache_default
      = Some ([True, False, True], c)
    \<and> dom (nc_users c) = {0, 7}
    \<and> memo_run (group_exists (\<lambda>i _. (5, None))) [0, 7, 0] nss_cache_default = Some ([True, True, True], c')
    \<and> dom (nc_groups c') = {0, 7}"
proof -
  have u: "nss_user_exists (\<lambda>i _. (0, if i = 0 then Some 0 else None)) i = Some (i = 0)" for i
    by (simp add: nss_user_exists_def nss_retry_round_0 ERANGE_def)
  have g: "nss_group_exists (\<lambda>i _. (5, None)) i = Some True" for i
    by (simp add: nss_group_exists_def nss_retry_round_0 ERANGE_def)
  have "set [0, 7, 0 :: u32] = {0, 7}" "map (\<lambda>i :: u32. i = 0) [0, 7, 0] = [True, False, True]"
    "map (\<lambda>_ :: u32. True) [0, 7, 0] = [True, True, True]" by auto
  with nss_cache_transparent [of "[0, 7, 0]", OF u g] show ?thesis by simp
qed

lemma nss_retry_first_fit:
  assumes "j \<le> 52" "\<And>i. i < j \<Longrightarrow> fst (call (1024 * 2 ^ i)) = ERANGE"
    and "fst (call (1024 * 2 ^ j)) \<noteq> ERANGE"
  shows "nss_retry call 0 = Some (call (1024 * 2 ^ j))"
proof -
  obtain r where r: "nss_retry call 0 = Some r"
    using nss_retry_enough [of call j 0] assms by auto
  obtain j' where j': "r = call (1024 * 2 ^ j')" "fst r \<noteq> ERANGE"
    "\<forall>i. 0 \<le> i \<and> i < j' \<longrightarrow> fst (call (1024 * 2 ^ i)) = ERANGE"
    using nss_retry_Some [OF r] by blast
  have "j' = j"
    using assms(2) [of j'] assms(3) j'(2,3) j'(1) by (metis le0 linorder_neqE_nat)
  with r j'(1) show ?thesis by simp
qed

text \<open>
  When the libc call answers \<open>ERANGE\<close> for the first \<open>j\<close> buffer sizes and something else for the
  next, that answer decides: \<open>-user\<close>/\<open>-group\<close> take the id only from a successful call, while for
  \<open>-nouser\<close>/\<open>-nogroup\<close> every error counts as an existing entry.
\<close>

theorem nss_first_fitting_reply:
  assumes "j \<le> 52" and "\<And>i. i < j \<Longrightarrow> fst (call (1024 * 2 ^ i)) = ERANGE"
    and "call (1024 * 2 ^ j) = (rc, entry)" and "rc \<noteq> ERANGE" and "CHR 0x00 \<notin> set name"
  shows "nss_uid (\<lambda>_. call) name = Some (if rc = 0 then entry else None)
    \<and> nss_gid (\<lambda>_. call) name = Some (if rc = 0 then entry else None)
    \<and> nss_user_exists (\<lambda>_. call) i = Some (rc \<noteq> 0 \<or> entry \<noteq> None)
    \<and> nss_group_exists (\<lambda>_. call) i = Some (rc \<noteq> 0 \<or> entry \<noteq> None)"
proof -
  have "nss_retry call 0 = Some (rc, entry)"
    using nss_retry_first_fit [of j call] assms by simp
  with assms(5) show ?thesis
    by (simp add: nss_uid_def nss_gid_def nss_user_exists_def nss_group_exists_def)
qed

theorem nss_first_fitting_reply_witness:
  "nss_uid (\<lambda>_ len. if len < 2048 then (ERANGE, None) else (0, Some 1000)) ''joe'' = Some (Some 1000)"
  using nss_first_fitting_reply [of 1 "\<lambda>len. if len < 2048 then (ERANGE, None) else (0, Some 1000)"
      0 "Some 1000" "''joe''" 0]
  by (simp add: ERANGE_def)

lemma parse_u32_show:
  assumes "n < 2 ^ 32"
  shows "parse_u32_radix 10 (show_radix 10 n) = Inr (of_nat n)"
proof -
  have "int n < 2 ^ 32" using assms by (metis of_nat_less_iff of_nat_numeral of_nat_power)
  then have "from_str_radix False 0 (2 ^ 32 - 1) (int 10) (show_radix 10 n) = Inr (int n)"
    by (intro from_str_radix_show) simp_all
  then show ?thesis by (simp add: parse_u32_radix_def)
qed

text \<open>
  A decimal argument of \<open>-user\<close>/\<open>-group\<close> stands for the account of that very name when there
  is one, and for the numeric id otherwise.
\<close>

theorem resolve_decimal:
  assumes "n < 2 ^ 32"
    and "nss_uid getpwnam_r (show_radix 10 n) = Some u" and "nss_gid getgrnam_r (show_radix 10 n) = Some g"
  shows "resolve_user getpwnam_r (show_radix 10 n) = Some (Inr (case u of Some i \<Rightarrow> i | None \<Rightarrow> of_nat n))
    \<and> resolve_group getgrnam_r (show_radix 10 n) = Some (Inr (case g of Some i \<Rightarrow> i | None \<Rightarrow> of_nat n))"
  using assms by (simp add: resolve_user_def resolve_group_def parse_u32_show split: option.split)

theorem resolve_decimal_witness:
  "resolve_user (\<lambda>_ _. (0, None)) (show_radix 10 42) = Some (Inr 42)
   \<and> resolve_group (\<lambda>_ _. (0, Some 7)) (show_radix 10 42) = Some (Inr 7)"
proof -
  have "CHR 0x00 \<notin> set (show_radix 10 42)"
    by (rule show_radix_no_NUL) simp_all
  then show ?thesis
    using resolve_decimal [of 42 "\<lambda>_ _. (0, None)" None "\<lambda>_ _. (0, Some 7)" "Some 7"]
    by (simp add: nss_uid_def nss_gid_def nss_retry_round_0 ERANGE_def)
qed

end
