(* ===== verification/Filetype.thy ===== *)
theory Filetype
  imports Prelude
begin

text \<open>
  The type filter of \<open>src/filetype.rs\<close>: one bit per entry type, the mask built from the \<open>--type\<close>
  selectors, and the emptiness test. The two \<open>std::fs\<close> calls of the emptiness test are
  parameters: \<open>read_dir\<close> lists a directory (an errno, or the iterator's items) and
  \<open>metadata_len\<close> is the length of the file a path resolves to.
\<close>

section \<open>Types and masks\<close>

datatype EntryType = File | Dir | Symlink | BlockDevice | CharDevice | Fifo | Socket

text \<open>\<open>args::FileType\<close>: the selectors of \<open>--file-type\<close>.\<close>

datatype FileType =
  SelEmpty | SelBlockDevice | SelCharDevice | SelDirectory | SelPipe | SelFile | SelSymlink | SelSocket

definition FT_FILE :: u8 where "FT_FILE = push_bit 0 1"
definition FT_DIRECTORY :: u8 where "FT_DIRECTORY = push_bit 1 1"
definition FT_SYMLINK :: u8 where "FT_SYMLINK = push_bit 2 1"
definition FT_BLOCK_DEVICE :: u8 where "FT_BLOCK_DEVICE = push_bit 3 1"
definition FT_CHAR_DEVICE :: u8 where "FT_CHAR_DEVICE = push_bit 4 1"
definition FT_PIPE :: u8 where "FT_PIPE = push_bit 5 1"
definition FT_SOCKET :: u8 where "FT_SOCKET = push_bit 6 1"

lemmas ft_defs [bits_simps] =
  FT_FILE_def FT_DIRECTORY_def FT_SYMLINK_def FT_BLOCK_DEVICE_def FT_CHAR_DEVICE_def
  FT_PIPE_def FT_SOCKET_def

record TypeMask =
  ft_selected :: u8
  ft_empty :: bool

fun filetype_add :: "FileType \<Rightarrow> u8 \<times> bool \<Rightarrow> u8 \<times> bool" where
  "filetype_add SelEmpty (selected, emp) = (selected, True)"
| "filetype_add SelBlockDevice (selected, emp) = (selected OR FT_BLOCK_DEVICE, emp)"
| "filetype_add SelCharDevice (selected, emp) = (selected OR FT_CHAR_DEVICE, emp)"
| "filetype_add SelDirectory (selected, emp) = (selected OR FT_DIRECTORY, emp)"
| "filetype_add SelPipe (selected, emp) = (selected OR FT_PIPE, emp)"
| "filetype_add SelFile (selected, emp) = (selected OR FT_FILE, emp)"
| "filetype_add SelSymlink (selected, emp) = (selected OR FT_SYMLINK, emp)"
| "filetype_add SelSocket (selected, emp) = (selected OR FT_SOCKET, emp)"

definition filetype_new :: "FileType list \<Rightarrow> TypeMask" where
  "filetype_new selectors =
     (let (selected, emp) = fold filetype_add selectors (0, False);
          selected = (if emp \<and> selected AND (FT_FILE OR FT_DIRECTORY) = 0
                      then selected OR (FT_FILE OR FT_DIRECTORY) else selected)
      in \<lparr>ft_selected = selected, ft_empty = emp\<rparr>)"

fun type_bit :: "EntryType \<Rightarrow> u8" where
  "type_bit File = FT_FILE"
| "type_bit Dir = FT_DIRECTORY"
| "type_bit Symlink = FT_SYMLINK"
| "type_bit BlockDevice = FT_BLOCK_DEVICE"
| "type_bit CharDevice = FT_CHAR_DEVICE"
| "type_bit Fifo = FT_PIPE"
| "type_bit Socket = FT_SOCKET"

definition entry_is_empty ::
  "(path \<Rightarrow> int + (int + string) list) \<Rightarrow> (path \<Rightarrow> int + u64) \<Rightarrow> path \<Rightarrow> bool \<Rightarrow> bool" where
  "entry_is_empty read_dir metadata_len p is_dir =
     (if is_dir then (case read_dir p of Inl _ \<Rightarrow> False | Inr items \<Rightarrow> items = [])
      else (case metadata_len p of Inl _ \<Rightarrow> False | Inr n \<Rightarrow> n = 0))"

definition ignore_filetype ::
  "(path \<Rightarrow> int + (int + string) list) \<Rightarrow> (path \<Rightarrow> int + u64) \<Rightarrow> TypeMask \<Rightarrow> EntryType \<Rightarrow> path \<Rightarrow> bool" where
  "ignore_filetype read_dir metadata_len ft ty p =
     (if type_bit ty AND ft_selected ft = 0 then True
      else ft_empty ft \<and> \<not> entry_is_empty read_dir metadata_len p (ty = Dir))"

section \<open>What a selection admits\<close>

fun selector_of :: "EntryType \<Rightarrow> FileType" where
  "selector_of File = SelFile"
| "selector_of Dir = SelDirectory"
| "selector_of Symlink = SelSymlink"
| "selector_of BlockDevice = SelBlockDevice"
| "selector_of CharDevice = SelCharDevice"
| "selector_of Fifo = SelPipe"
| "selector_of Socket = SelSocket"

lemma type_bit_and: "type_bit ty AND type_bit ty' \<noteq> 0 \<longleftrightarrow> ty = ty'"
  by (cases ty; cases ty') (simp_all add: ft_defs)

lemma filetype_add_bit:
  "fst (filetype_add s (m, e)) AND type_bit ty \<noteq> 0 \<longleftrightarrow> m AND type_bit ty \<noteq> 0 \<or> s = selector_of ty"
  by (cases s; cases ty) (simp_all add: word_or_and_eq_0_iff ft_defs)

lemma filetype_add_empty: "snd (filetype_add s (m, e)) \<longleftrightarrow> e \<or> s = SelEmpty"
  by (cases s) simp_all

lemma fold_filetype_add_bit:
  "fst (fold filetype_add ss me) AND type_bit ty \<noteq> 0 \<longleftrightarrow>
     fst me AND type_bit ty \<noteq> 0 \<or> selector_of ty \<in> set ss"
proof (induction ss arbitrary: me)
  case (Cons s ss)
  have "fst (filetype_add s me) AND type_bit ty \<noteq> 0 \<longleftrightarrow>
      fst me AND type_bit ty \<noteq> 0 \<or> s = selector_of ty"
    using filetype_add_bit [of s "fst me" "snd me" ty] by simp
  then show ?case using Cons.IH [of "filetype_add s me"] by auto
qed simp

lemma fold_filetype_add_empty:
  "snd (fold filetype_add ss me) \<longleftrightarrow> snd me \<or> SelEmpty \<in> set ss"
proof (induction ss arbitrary: me)
  case (Cons s ss)
  have "snd (filetype_add s me) \<longleftrightarrow> snd me \<or> s = SelEmpty"
    using filetype_add_empty [of s "fst me" "snd me"] by simp
  then show ?case using Cons.IH [of "filetype_add s me"] by auto
qed simp

definition admits :: "FileType list \<Rightarrow> EntryType \<Rightarrow> bool" where
  "admits ss ty \<longleftrightarrow> selector_of ty \<in> set ss
     \<or> (SelEmpty \<in> set ss \<and> SelFile \<notin> set ss \<and> SelDirectory \<notin> set ss \<and> ty \<in> {File, Dir})"

lemma filetype_new_fields:
  "type_bit ty AND ft_selected (filetype_new ss) \<noteq> 0 \<longleftrightarrow> admits ss ty"
  "ft_empty (filetype_new ss) \<longleftrightarrow> SelEmpty \<in> set ss"
proof -
  obtain m e where f: "fold filetype_add ss (0, False) = (m, e)"
    by (cases "fold filetype_add ss (0, False)")
  have m: "m AND type_bit t \<noteq> 0 \<longleftrightarrow> selector_of t \<in> set ss" for t
    using fold_filetype_add_bit [of ss "(0, False)" t] f by simp
  have e: "e \<longleftrightarrow> SelEmpty \<in> set ss"
    using fold_filetype_add_empty [of ss "(0, False)"] f by simp
  have fd: "m AND (FT_FILE OR FT_DIRECTORY) = 0 \<longleftrightarrow> SelFile \<notin> set ss \<and> SelDirectory \<notin> set ss"
    using m [of File] m [of Dir] by (simp add: word_and_or_eq_0_iff) blast
  have bits: "(m OR (FT_FILE OR FT_DIRECTORY)) AND type_bit ty \<noteq> 0 \<longleftrightarrow>
      m AND type_bit ty \<noteq> 0 \<or> ty \<in> {File, Dir}"
    using type_bit_and [of File ty] type_bit_and [of Dir ty]
    by (auto simp: word_or_and_eq_0_iff)
  show "ft_empty (filetype_new ss) \<longleftrightarrow> SelEmpty \<in> set ss"
    by (simp add: filetype_new_def f e Let_def)
  show "type_bit ty AND ft_selected (filetype_new ss) \<noteq> 0 \<longleftrightarrow> admits ss ty"
    using bits m [of ty] e fd
    by (auto simp: filetype_new_def f Let_def admits_def and.commute [of "type_bit ty"])
qed

text \<open>
  C34. The one-AND type test is right for every selector list: an entry is kept exactly when its
  type was selected (or is a file or directory under \<open>--empty\<close> with neither of those selected)
  and, under \<open>--empty\<close>, it is empty.
\<close>

theorem type_filter_correct:
  "\<not> ignore_filetype read_dir metadata_len (filetype_new ss) ty p \<longleftrightarrow>
     admits ss ty
     \<and> (if SelEmpty \<in> set ss then entry_is_empty read_dir metadata_len p (ty = Dir) else True)"
  using filetype_new_fields(1) [of ty ss] filetype_new_fields(2) [of ss] by (auto simp: ignore_filetype_def)

text \<open>
  \<open>--empty\<close> widens the selection to files and directories not only when it stands alone but
  whenever neither was named: with \<open>--file-type symlink --empty\<close> a zero-length regular file is kept.
\<close>

theorem empty_widens_other_selections:
  "metadata_len p = Inr 0 \<Longrightarrow>
   \<not> ignore_filetype read_dir metadata_len (filetype_new [SelSymlink, SelEmpty]) File p"
  using filetype_new_fields(1) [of File "[SelSymlink, SelEmpty]"]
    filetype_new_fields(2) [of "[SelSymlink, SelEmpty]"]
  by (simp add: ignore_filetype_def admits_def entry_is_empty_def)

theorem empty_widens_other_selections_witness:
  "\<not> ignore_filetype (\<lambda>_. Inl 20) (\<lambda>_. Inr 0) (filetype_new [SelSymlink, SelEmpty]) File ''f''"
  by (rule empty_widens_other_selections) simp

end
