(* ===== verification/Args.thy ===== *)
theory Args
  imports Predicates Nss Filetype
begin

text \<open>
  The command line of \<open>src/args.rs\<close>: the rewriting of find's single-dash spellings, the option
  loop of \<open>parse_inner\<close> and the checks after it.

  The \<open>lexopt\<close> tokenizer is third-party: it is the record \<open>lexopt\<close> of its operations, over an
  abstract parser state. What the loop needs of it for termination is that a successful \<open>next\<close>
  consumes something and a \<open>value\<close> gives nothing back; every theorem that relies on this has it
  as a hypothesis. The file system, the CPU count and the account database are the record
  \<open>parse_env\<close>. The model is the Linux build (\<open>cfg(unix)\<close> and \<open>target_os = "linux"\<close> arms).

  Results: the outer option of the loop is its termination (\<open>None\<close>: it does not return), the
  inner one a panic of the account lookup, then \<open>Result\<close>.
\<close>

section \<open>Data\<close>

record Args =
  a_follow_symlinks :: bool
  a_one_filesystem :: bool
  a_threads :: usize
  a_idle :: bool
  a_max_depth :: "usize option"
  a_min_depth :: "usize option"
  a_max_scan_rate :: "u32 option"
  a_max_results :: "usize option"
  a_name :: "string list option"
  a_regex :: "string list option"
  a_case_insensitive :: bool
  a_file_type :: "FileType list"
  a_meta :: Predicates
  a_path_glob :: "string list option"
  a_lname :: "string list option"
  a_access :: u8
  a_exclude :: "string list option"
  a_null :: bool
  a_path :: "path list"

datatype Outcome = Help | Version | Run Args

text \<open>\<open>lexopt::Arg\<close> and the operations of \<open>lexopt\<close> that the loop calls.\<close>

datatype arg = Short char | Long string | Value osstring

record 'p lexopt =
  lx_from_iter :: "osstring list \<Rightarrow> 'p"
  lx_next :: "'p \<Rightarrow> string + arg option \<times> 'p"
  lx_value :: "'p \<Rightarrow> string + osstring \<times> 'p"
  lx_string :: "osstring \<Rightarrow> string + string"
  lx_parse_usize :: "osstring \<Rightarrow> string + usize"
  lx_parse_u32 :: "osstring \<Rightarrow> string + u32"
  lx_unexpected :: "arg \<Rightarrow> string"

record parse_env =
  env_is_dir :: "path \<Rightarrow> bool"
  env_normalize :: "path \<Rightarrow> int + path"
  env_parallelism :: "usize option"
  env_getpwnam :: "string \<Rightarrow> nat \<Rightarrow> nss_reply"
  env_getgrnam :: "string \<Rightarrow> nat \<Rightarrow> nss_reply"
  env_modified :: "path \<Rightarrow> int + SystemTime"

section \<open>find's spellings\<close>

definition find_aliases :: "(string \<times> string) list" where
  "find_aliases =
    [(''-print0'', ''--null''), (''-mindepth'', ''--min-depth''), (''-size'', ''--size''),
     (''-mtime'', ''--mtime''), (''-ctime'', ''--ctime''), (''-atime'', ''--atime''),
     (''-mmin'', ''--mmin''), (''-cmin'', ''--cmin''), (''-amin'', ''--amin''),
     (''-perm'', ''--perm''), (''-uid'', ''--uid''), (''-gid'', ''--gid''),
     (''-user'', ''--user''), (''-group'', ''--group''), (''-name'', ''--name''),
     (''-iname'', ''--iname''), (''-regex'', ''--regex''), (''-iregex'', ''--iregex''),
     (''-type'', ''--file-type''), (''-maxdepth'', ''--max-depth''), (''-xdev'', ''--xdev''),
     (''-mount'', ''--xdev''), (''-follow'', ''--follow-symlinks''), (''-empty'', ''--empty''),
     (''-links'', ''--links''), (''-inum'', ''--inum''), (''-newer'', ''--newer''),
     (''-anewer'', ''--anewer''), (''-cnewer'', ''--cnewer''), (''-path'', ''--path''),
     (''-wholename'', ''--wholename''), (''-ipath'', ''--ipath''),
     (''-iwholename'', ''--iwholename''), (''-lname'', ''--lname''), (''-ilname'', ''--ilname''),
     (''-readable'', ''--readable''), (''-writable'', ''--writable''),
     (''-executable'', ''--executable''), (''-nouser'', ''--nouser''),
     (''-nogroup'', ''--nogroup''), (''-quit'', ''--quit''), (''-print'', ''--print''),
     (''-ignore_readdir_race'', ''--ignore-readdir-race''),
     (''-noignore_readdir_race'', ''--noignore-readdir-race'')]"

definition normalize_arg :: "osstring \<Rightarrow> osstring" where
  "normalize_arg os = (case map_of find_aliases os of Some l \<Rightarrow> l | None \<Rightarrow> os)"

section \<open>Value parsers\<close>

definition parse_file_type :: "string \<Rightarrow> error + FileType" where
  "parse_file_type s =
     (if s = ''empty'' \<or> s = ''e'' then Inr SelEmpty
      else if s = ''block-device'' \<or> s = ''b'' then Inr SelBlockDevice
      else if s = ''char-device'' \<or> s = ''c'' then Inr SelCharDevice
      else if s = ''directory'' \<or> s = ''d'' then Inr SelDirectory
      else if s = ''pipe'' \<or> s = ''p'' then Inr SelPipe
      else if s = ''file'' \<or> s = ''f'' then Inr SelFile
      else if s = ''symlink'' \<or> s = ''l'' then Inr SelSymlink
      else if s = ''socket'' \<or> s = ''s'' then Inr SelSocket
      else Inl (InvalidFileType s))"

definition oversubscription_warning :: "usize \<Rightarrow> usize \<Rightarrow> (usize \<times> usize) option" where
  "oversubscription_warning threads available =
     (if threads > available then Some (threads, available) else None)"

definition parse_threads :: "string \<Rightarrow> error + usize" where
  "parse_threads x =
     and_then (map_err ParseInt (parse_usize x))
       (\<lambda>v. if 2 \<le> v \<and> v \<le> 65535 then Inr v else Inl ThreadsOutOfRange)"

definition parse_paths :: "parse_env \<Rightarrow> string \<Rightarrow> error + path" where
  "parse_paths env x =
     (if env_is_dir env x then map_err IoError (env_normalize env x) else Inl (NotADirectory x))"

definition default_threads :: "parse_env \<Rightarrow> usize" where
  "default_threads env = (case env_parallelism env of None \<Rightarrow> 2 | Some n \<Rightarrow> n)"

definition lx_val :: "'p lexopt \<Rightarrow> 'p \<Rightarrow> error + osstring \<times> 'p" where
  "lx_val lx p = map_err Lexopt (lx_value lx p)"

definition val_str :: "'p lexopt \<Rightarrow> 'p \<Rightarrow> error + string \<times> 'p" where
  "val_str lx p =
     and_then (lx_val lx p) (\<lambda>(v, p). and_then (map_err Lexopt (lx_string lx v)) (\<lambda>s. Inr (s, p)))"

section \<open>The option loop\<close>

text \<open>The mutable locals of \<open>parse_inner\<close>.\<close>

record parse_locals =
  l_follow_symlinks :: bool
  l_one_filesystem :: bool
  l_threads :: "usize option"
  l_idle :: bool
  l_max_depth :: "usize option"
  l_min_depth :: "usize option"
  l_max_scan_rate :: "u32 option"
  l_max_results :: "usize option"
  l_name :: "string list"
  l_regex :: "string list"
  l_case_insensitive :: bool
  l_file_type :: "FileType list"
  l_exclude :: "string list"
  l_null :: bool
  l_meta :: Predicates
  l_path_glob :: "string list"
  l_lname :: "string list"
  l_access :: u8
  l_path :: "path list"

definition initial_locals :: parse_locals where
  "initial_locals =
     \<lparr>l_follow_symlinks = False, l_one_filesystem = True, l_threads = None, l_idle = False,
      l_max_depth = None, l_min_depth = None, l_max_scan_rate = None, l_max_results = None,
      l_name = [], l_regex = [], l_case_insensitive = False, l_file_type = [], l_exclude = [],
      l_null = False, l_meta = default_predicates, l_path_glob = [], l_lname = [], l_access = 0,
      l_path = []\<rparr>"

text \<open>The arms of the \<open>match\<close>, in the order of the source.\<close>

datatype arm =
    ArmHelp | ArmVersion | ArmFollow | ArmOneFs | ArmCrossFs | ArmThreads | ArmIdle
  | ArmMaxDepth | ArmMinDepth | ArmScanRate | ArmMaxResults | ArmName | ArmRegex | ArmIcase
  | ArmIname | ArmIregex | ArmFileType | ArmEmpty | ArmExclude | ArmSize
  | ArmMtime | ArmCtime | ArmAtime | ArmMmin | ArmCmin | ArmAmin
  | ArmPerm | ArmUid | ArmGid | ArmUser | ArmGroup | ArmLinks | ArmInum
  | ArmNewer | ArmAnewer | ArmCnewer | ArmNouser | ArmNogroup
  | ArmPath | ArmIpath | ArmLname | ArmIlname | ArmReadable | ArmWritable | ArmExecutable
  | ArmQuit | ArmNoop | ArmNull

definition arm_table :: "(string \<times> string list \<times> arm) list" where
  "arm_table =
    [(''h'', [''help''], ArmHelp), (''V'', [''version''], ArmVersion),
     (''fL'', [''follow-symlinks''], ArmFollow),
     (''o'', [''one-filesystem'', ''xdev''], ArmOneFs),
     ([], [''no-one-filesystem'', ''cross-filesystem''], ArmCrossFs),
     (''x'', [''threads''], ArmThreads), ([], [''idle''], ArmIdle),
     (''d'', [''max-depth''], ArmMaxDepth), ([], [''min-depth''], ArmMinDepth),
     (''s'', [''max-scan-rate''], ArmScanRate), ([], [''max-results''], ArmMaxResults),
     (''n'', [''name''], ArmName), (''r'', [''regex''], ArmRegex),
     (''i'', [''case-insensitive''], ArmIcase), ([], [''iname''], ArmIname),
     ([], [''iregex''], ArmIregex), (''t'', [''file-type''], ArmFileType),
     ([], [''empty''], ArmEmpty), (''E'', [''exclude''], ArmExclude), ([], [''size''], ArmSize),
     ([], [''mtime''], ArmMtime), ([], [''ctime''], ArmCtime), ([], [''atime''], ArmAtime),
     ([], [''mmin''], ArmMmin), ([], [''cmin''], ArmCmin), ([], [''amin''], ArmAmin),
     ([], [''perm''], ArmPerm), ([], [''uid''], ArmUid), ([], [''gid''], ArmGid),
     ([], [''user''], ArmUser), ([], [''group''], ArmGroup), ([], [''links''], ArmLinks),
     ([], [''inum''], ArmInum), ([], [''newer''], ArmNewer), ([], [''anewer''], ArmAnewer),
     ([], [''cnewer''], ArmCnewer), ([], [''nouser''], ArmNouser), ([], [''nogroup''], ArmNogroup),
     ([], [''path'', ''wholename''], ArmPath), ([], [''ipath'', ''iwholename''], ArmIpath),
     ([], [''lname''], ArmLname), ([], [''ilname''], ArmIlname),
     ([], [''readable''], ArmReadable), ([], [''writable''], ArmWritable),
     ([], [''executable''], ArmExecutable), ([], [''quit''], ArmQuit),
     ([], [''print'', ''ignore-readdir-race'', ''noignore-readdir-race''], ArmNoop),
     (''0'', [''null'', ''print0''], ArmNull)]"

fun arm_matches :: "arg \<Rightarrow> string \<times> string list \<times> arm \<Rightarrow> bool" where
  "arm_matches (Short c) (shorts, longs, _) = (c \<in> set shorts)"
| "arm_matches (Long s) (shorts, longs, _) = (s \<in> set longs)"
| "arm_matches (Value _) _ = False"

definition classify :: "arg \<Rightarrow> arm option" where
  "classify a = map_option (\<lambda>(_, _, m). m) (find (arm_matches a) arm_table)"

text \<open>What one iteration does: \<open>return\<close>, or go on with new locals and parser state.\<close>

datatype 'p flow = Return Outcome | Continue parse_locals 'p

abbreviation set_flag :: "parse_locals \<Rightarrow> 'p \<Rightarrow> (error + 'p flow) option" where
  "set_flag l p \<equiv> Some (Inr (Continue l p))"

text \<open>An arm that reads its value with \<open>value()?\<close>, or with \<open>value()?.string()?\<close>.\<close>

definition with_value ::
  "'p lexopt \<Rightarrow> 'p \<Rightarrow> (osstring \<Rightarrow> error + parse_locals) \<Rightarrow> (error + 'p flow) option" where
  "with_value lx p k = Some (and_then (lx_val lx p) (\<lambda>(v, p). and_then (k v) (\<lambda>l. Inr (Continue l p))))"

definition with_str ::
  "'p lexopt \<Rightarrow> 'p \<Rightarrow> (string \<Rightarrow> error + parse_locals) \<Rightarrow> (error + 'p flow) option" where
  "with_str lx p k = Some (and_then (val_str lx p) (\<lambda>(v, p). and_then (k v) (\<lambda>l. Inr (Continue l p))))"

definition with_str_or_panic ::
  "'p lexopt \<Rightarrow> 'p \<Rightarrow> (string \<Rightarrow> (error + parse_locals) option) \<Rightarrow> (error + 'p flow) option" where
  "with_str_or_panic lx p k =
     (case val_str lx p of
        Inl e \<Rightarrow> Some (Inl e)
      | Inr (v, p) \<Rightarrow> map_option (\<lambda>r. and_then r (\<lambda>l. Inr (Continue l p))) (k v))"

definition push_time :: "parse_locals \<Rightarrow> error + TimePred \<Rightarrow> error + parse_locals" where
  "push_time l r = and_then r (\<lambda>t. Inr (l\<lparr>l_meta := (l_meta l)\<lparr>p_times := p_times (l_meta l) @ [t]\<rparr>\<rparr>))"

definition push_newer :: "parse_locals \<Rightarrow> error + NewerPred \<Rightarrow> error + parse_locals" where
  "push_newer l r = and_then r (\<lambda>n. Inr (l\<lparr>l_meta := (l_meta l)\<lparr>p_newer := p_newer (l_meta l) @ [n]\<rparr>\<rparr>))"

primrec run_arm ::
  "'p lexopt \<Rightarrow> parse_env \<Rightarrow> arm \<Rightarrow> parse_locals \<Rightarrow> 'p \<Rightarrow> (error + 'p flow) option" where
  "run_arm lx env ArmHelp l p = Some (Inr (Return Help))"
| "run_arm lx env ArmVersion l p = Some (Inr (Return Version))"
| "run_arm lx env ArmFollow l p = set_flag (l\<lparr>l_follow_symlinks := True\<rparr>) p"
| "run_arm lx env ArmOneFs l p = set_flag (l\<lparr>l_one_filesystem := True\<rparr>) p"
| "run_arm lx env ArmCrossFs l p = set_flag (l\<lparr>l_one_filesystem := False\<rparr>) p"
| "run_arm lx env ArmThreads l p =
     with_str lx p (\<lambda>s. and_then (parse_threads s) (\<lambda>n. Inr (l\<lparr>l_threads := Some n\<rparr>)))"
| "run_arm lx env ArmIdle l p = set_flag (l\<lparr>l_idle := True\<rparr>) p"
| "run_arm lx env ArmMaxDepth l p =
     with_value lx p (\<lambda>v. and_then (map_err Lexopt (lx_parse_usize lx v)) (\<lambda>n. Inr (l\<lparr>l_max_depth := Some n\<rparr>)))"
| "run_arm lx env ArmMinDepth l p =
     with_value lx p (\<lambda>v. and_then (map_err Lexopt (lx_parse_usize lx v)) (\<lambda>n. Inr (l\<lparr>l_min_depth := Some n\<rparr>)))"
| "run_arm lx env ArmScanRate l p =
     with_value lx p (\<lambda>v. and_then (map_err Lexopt (lx_parse_u32 lx v)) (\<lambda>n. Inr (l\<lparr>l_max_scan_rate := Some n\<rparr>)))"
| "run_arm lx env ArmMaxResults l p =
     with_value lx p (\<lambda>v. and_then (map_err Lexopt (lx_parse_usize lx v)) (\<lambda>n. Inr (l\<lparr>l_max_results := Some n\<rparr>)))"
| "run_arm lx env ArmName l p = with_str lx p (\<lambda>s. Inr (l\<lparr>l_name := l_name l @ [s]\<rparr>))"
| "run_arm lx env ArmRegex l p = with_str lx p (\<lambda>s. Inr (l\<lparr>l_regex := l_regex l @ [s]\<rparr>))"
| "run_arm lx env ArmIcase l p = set_flag (l\<lparr>l_case_insensitive := True\<rparr>) p"
| "run_arm lx env ArmIname l p =
     with_str lx p (\<lambda>s. Inr (l\<lparr>l_case_insensitive := True, l_name := l_name l @ [s]\<rparr>))"
| "run_arm lx env ArmIregex l p =
     with_str lx p (\<lambda>s. Inr (l\<lparr>l_case_insensitive := True, l_regex := l_regex l @ [s]\<rparr>))"
| "run_arm lx env ArmFileType l p =
     with_str lx p (\<lambda>s. and_then (parse_file_type s) (\<lambda>t. Inr (l\<lparr>l_file_type := l_file_type l @ [t]\<rparr>)))"
| "run_arm lx env ArmEmpty l p = set_flag (l\<lparr>l_file_type := l_file_type l @ [SelEmpty]\<rparr>) p"
| "run_arm lx env ArmExclude l p = with_str lx p (\<lambda>s. Inr (l\<lparr>l_exclude := l_exclude l @ [s]\<rparr>))"
| "run_arm lx env ArmSize l p =
     with_str lx p (\<lambda>s. and_then (size_parse s) (\<lambda>q. Inr (l\<lparr>l_meta := (l_meta l)\<lparr>p_size := Some q\<rparr>\<rparr>)))"
| "run_arm lx env ArmMtime l p = with_str lx p (\<lambda>s. push_time l (time_mtime s DAY))"
| "run_arm lx env ArmCtime l p = with_str lx p (\<lambda>s. push_time l (time_ctime s DAY))"
| "run_arm lx env ArmAtime l p = with_str lx p (\<lambda>s. push_time l (time_atime s DAY))"
| "run_arm lx env ArmMmin l p = with_str lx p (\<lambda>s. push_time l (time_mtime s MINUTE))"
| "run_arm lx env ArmCmin l p = with_str lx p (\<lambda>s. push_time l (time_ctime s MINUTE))"
| "run_arm lx env ArmAmin l p = with_str lx p (\<lambda>s. push_time l (time_atime s MINUTE))"
| "run_arm lx env ArmPerm l p =
     with_str lx p (\<lambda>s. and_then (perm_parse s) (\<lambda>q. Inr (l\<lparr>l_meta := (l_meta l)\<lparr>p_perm := Some q\<rparr>\<rparr>)))"
| "run_arm lx env ArmUid l p =
     with_str lx p (\<lambda>s. and_then (id_parse s) (\<lambda>q. Inr (l\<lparr>l_meta := (l_meta l)\<lparr>p_uid := Some q\<rparr>\<rparr>)))"
| "run_arm lx env ArmGid l p =
     with_str lx p (\<lambda>s. and_then (id_parse s) (\<lambda>q. Inr (l\<lparr>l_meta := (l_meta l)\<lparr>p_gid := Some q\<rparr>\<rparr>)))"
| "run_arm lx env ArmUser l p =
     with_str_or_panic lx p (\<lambda>s. map_option
       (\<lambda>r. and_then r (\<lambda>i. Inr (l\<lparr>l_meta := (l_meta l)\<lparr>p_uid := Some (id_exact i)\<rparr>\<rparr>)))
       (resolve_user (env_getpwnam env) s))"
| "run_arm lx env ArmGroup l p =
     with_str_or_panic lx p (\<lambda>s. map_option
       (\<lambda>r. and_then r (\<lambda>i. Inr (l\<lparr>l_meta := (l_meta l)\<lparr>p_gid := Some (id_exact i)\<rparr>\<rparr>)))
       (resolve_group (env_getgrnam env) s))"
| "run_arm lx env ArmLinks l p =
     with_str lx p (\<lambda>s. and_then (id_parse s) (\<lambda>q. Inr (l\<lparr>l_meta := (l_meta l)\<lparr>p_links := Some q\<rparr>\<rparr>)))"
| "run_arm lx env ArmInum l p =
     with_str lx p (\<lambda>s. and_then (id_parse s) (\<lambda>q. Inr (l\<lparr>l_meta := (l_meta l)\<lparr>p_inum := Some q\<rparr>\<rparr>)))"
| "run_arm lx env ArmNewer l p =
     with_value lx p (\<lambda>v. push_newer l (and_then (file_mtime (env_modified env) v) (\<lambda>t. Inr (newer_newer t))))"
| "run_arm lx env ArmAnewer l p =
     with_value lx p (\<lambda>v. push_newer l (and_then (file_mtime (env_modified env) v) (\<lambda>t. Inr (newer_anewer t))))"
| "run_arm lx env ArmCnewer l p =
     with_value lx p (\<lambda>v. push_newer l (and_then (file_mtime (env_modified env) v) (\<lambda>t. Inr (newer_cnewer t))))"
| "run_arm lx env ArmNouser l p = set_flag (l\<lparr>l_meta := (l_meta l)\<lparr>p_nouser := True\<rparr>\<rparr>) p"
| "run_arm lx env ArmNogroup l p = set_flag (l\<lparr>l_meta := (l_meta l)\<lparr>p_nogroup := True\<rparr>\<rparr>) p"
| "run_arm lx env ArmPath l p = with_str lx p (\<lambda>s. Inr (l\<lparr>l_path_glob := l_path_glob l @ [s]\<rparr>))"
| "run_arm lx env ArmIpath l p =
     with_str lx p (\<lambda>s. Inr (l\<lparr>l_case_insensitive := True, l_path_glob := l_path_glob l @ [s]\<rparr>))"
| "run_arm lx env ArmLname l p = with_str lx p (\<lambda>s. Inr (l\<lparr>l_lname := l_lname l @ [s]\<rparr>))"
| "run_arm lx env ArmIlname l p =
     with_str lx p (\<lambda>s. Inr (l\<lparr>l_case_insensitive := True, l_lname := l_lname l @ [s]\<rparr>))"
| "run_arm lx env ArmReadable l p = set_flag (l\<lparr>l_access := l_access l OR access_READ\<rparr>) p"
| "run_arm lx env ArmWritable l p = set_flag (l\<lparr>l_access := l_access l OR access_WRITE\<rparr>) p"
| "run_arm lx env ArmExecutable l p = set_flag (l\<lparr>l_access := l_access l OR access_EXEC\<rparr>) p"
| "run_arm lx env ArmQuit l p = set_flag (l\<lparr>l_max_results := Some 1\<rparr>) p"
| "run_arm lx env ArmNoop l p = set_flag l p"
| "run_arm lx env ArmNull l p = set_flag (l\<lparr>l_null := True\<rparr>) p"

definition handle_arg ::
  "'p lexopt \<Rightarrow> parse_env \<Rightarrow> arg \<Rightarrow> parse_locals \<Rightarrow> 'p \<Rightarrow> (error + 'p flow) option" where
  "handle_arg lx env a l p =
     (case classify a of
        Some m \<Rightarrow> run_arm lx env m l p
      | None \<Rightarrow>
          (case a of
             Value val \<Rightarrow>
               Some (and_then (map_err Lexopt (lx_string lx val)) (\<lambda>s.
                     and_then (parse_paths env s) (\<lambda>q. Inr (Continue (l\<lparr>l_path := l_path l @ [q]\<rparr>) p))))
           | _ \<Rightarrow> Some (Inl (Lexopt (lx_unexpected lx a)))))"

text \<open>The checks and defaults after the loop.\<close>

definition then_some :: "'a list \<Rightarrow> 'a list option" where
  "then_some xs = (if xs = [] then None else Some xs)"

definition finish :: "parse_env \<Rightarrow> parse_locals \<Rightarrow> error + Outcome" where
  "finish env l =
     (if l_name l \<noteq> [] \<and> l_regex l \<noteq> [] then Inl NameRegexConflict
      else if l_path l = [] then Inl MissingPath
      else Inr (Run
        \<lparr>a_follow_symlinks = l_follow_symlinks l,
         a_one_filesystem = l_one_filesystem l,
         a_threads = (case l_threads l of Some n \<Rightarrow> n | None \<Rightarrow> if l_idle l then 2 else default_threads env),
         a_idle = l_idle l,
         a_max_depth = l_max_depth l,
         a_min_depth = l_min_depth l,
         a_max_scan_rate = l_max_scan_rate l,
         a_max_results = l_max_results l,
         a_name = then_some (l_name l),
         a_regex = then_some (l_regex l),
         a_case_insensitive = l_case_insensitive l,
         a_file_type = (if l_file_type l = [] then [SelDirectory, SelFile, SelSymlink] else l_file_type l),
         a_meta = l_meta l,
         a_path_glob = then_some (l_path_glob l),
         a_lname = then_some (l_lname l),
         a_access = l_access l,
         a_exclude = then_some (l_exclude l),
         a_null = l_null l,
         a_path = l_path l\<rparr>))"

partial_function (option) parse_loop ::
  "'p lexopt \<Rightarrow> parse_env \<Rightarrow> parse_locals \<Rightarrow> 'p \<Rightarrow> (error + Outcome) option option" where
  "parse_loop lx env l p =
     (case lx_next lx p of
        Inl e \<Rightarrow> Some (Some (Inl (Lexopt e)))
      | Inr (None, p') \<Rightarrow> Some (Some (finish env l))
      | Inr (Some a, p') \<Rightarrow>
          (case handle_arg lx env a l p' of
             None \<Rightarrow> Some None
           | Some (Inl e) \<Rightarrow> Some (Some (Inl e))
           | Some (Inr (Return out)) \<Rightarrow> Some (Some (Inr out))
           | Some (Inr (Continue l' p'')) \<Rightarrow> parse_loop lx env l' p''))"

definition parse_inner ::
  "'p lexopt \<Rightarrow> parse_env \<Rightarrow> osstring list \<Rightarrow> (error + Outcome) option option" where
  "parse_inner lx env args =
     parse_loop lx env initial_locals (lx_from_iter lx (map normalize_arg args))"

text \<open>\<open>Args::parse\<close>: the arguments to run with, or text and an exit status.\<close>

datatype parsed = RunWith Args | Exit0Help | Exit0Version | Exit2 error

definition args_parse :: "'p lexopt \<Rightarrow> parse_env \<Rightarrow> osstring list \<Rightarrow> parsed option option" where
  "args_parse lx env argv =
     map_option (map_option (\<lambda>r. case r of
         Inr (Run args) \<Rightarrow> RunWith args
       | Inr Help \<Rightarrow> Exit0Help
       | Inr Version \<Rightarrow> Exit0Version
       | Inl e \<Rightarrow> Exit2 e)) (parse_inner lx env argv)"

end
