(* ===== verification/Args_Correct.thy ===== *)
theory Args_Correct
  imports Args
begin

text \<open>
  What the parser of \<open>Args\<close> guarantees: that it returns, what an accepted command line looks
  like, which occurrences decide the switches, and how find's spellings relate to the options.
\<close>

section \<open>Inversion of the loop\<close>

lemma with_value_Continue:
  "with_value lx p k = Some (Inr f) \<longleftrightarrow>
     (\<exists>v p' l. lx_value lx p = Inr (v, p') \<and> k v = Inr l \<and> f = Continue l p')"
  by (auto simp: with_value_def lx_val_def and_then_Inr_iff)

lemma with_str_Continue:
  "with_str lx p k = Some (Inr f) \<longleftrightarrow>
     (\<exists>v p' s l. lx_value lx p = Inr (v, p') \<and> lx_string lx v = Inr s \<and> k s = Inr l \<and> f = Continue l p')"
  by (auto simp: with_str_def val_str_def lx_val_def and_then_Inr_iff)

lemma with_str_or_panic_Continue:
  "with_str_or_panic lx p k = Some (Inr f) \<longleftrightarrow>
     (\<exists>v p' s l. lx_value lx p = Inr (v, p') \<and> lx_string lx v = Inr s \<and> k s = Some (Inr l)
        \<and> f = Continue l p')"
  by (auto simp: with_str_or_panic_def val_str_def lx_val_def and_then_Inr_iff split: sum.splits)

lemmas with_Continue = with_value_Continue with_str_Continue with_str_or_panic_Continue

text \<open>The value an arm needs is read at most once.\<close>

lemma run_arm_parser:
  "run_arm lx env m l p = Some (Inr (Continue l' p')) \<Longrightarrow> p' = p \<or> (\<exists>v. lx_value lx p = Inr (v, p'))"
  by (cases m) (auto simp: with_Continue)

lemma handle_arg_parser:
  "handle_arg lx env a l p = Some (Inr (Continue l' p')) \<Longrightarrow> p' = p \<or> (\<exists>v. lx_value lx p = Inr (v, p'))"
  by (auto simp: handle_arg_def and_then_Inr_iff split: option.splits arg.splits dest: run_arm_parser)

section \<open>Termination\<close>

lemma parse_loop_returns:
  assumes next_consumes: "\<And>p a p'. lx_next lx p = Inr (Some a, p') \<Longrightarrow> size_of p' < (size_of p :: nat)"
    and value_consumes: "\<And>p v p'. lx_value lx p = Inr (v, p') \<Longrightarrow> size_of p' \<le> size_of p"
  shows "parse_loop lx env l p \<noteq> None"
proof (induction "size_of p" arbitrary: l p rule: less_induct)
  case less
  show ?case
  proof (cases "lx_next lx p")
    case (Inr r)
    show ?thesis
    proof (cases "fst r")
      case (Some a)
      then have n: "lx_next lx p = Inr (Some a, snd r)" using Inr by (cases r) simp
      note lt = next_consumes [OF n]
      have "parse_loop lx env l' p'' \<noteq> None"
        if "handle_arg lx env a l (snd r) = Some (Inr (Continue l' p''))" for l' p''
        using less [of p'' l'] handle_arg_parser [OF that] value_consumes lt by force
      then show ?thesis
        using n by (subst parse_loop.simps) (auto split: option.splits sum.splits flow.splits)
    qed (use Inr in \<open>subst parse_loop.simps, cases r, simp\<close>)
  qed (simp add: parse_loop.simps [of lx env l p])
qed

text \<open>
  The parser returns on every command line, as long as the tokenizer makes progress: with
  \<open>size_of\<close> a size of its state, \<open>next\<close> decreases it when it yields an argument and \<open>value\<close> does
  not increase it. No order of options, repeated values or bad values makes the loop spin.
\<close>

theorem parse_inner_returns:
  assumes "\<And>p a p'. lx_next lx p = Inr (Some a, p') \<Longrightarrow> size_of p' < (size_of p :: nat)"
    and "\<And>p v p'. lx_value lx p = Inr (v, p') \<Longrightarrow> size_of p' \<le> size_of p"
  shows "\<exists>r. parse_inner lx env argv = Some r"
  using parse_loop_returns [of lx size_of env initial_locals] assms by (auto simp: parse_inner_def)

text \<open>A tokenizer to evaluate the model on: \<open>--long\<close>, \<open>-c\<close>, and everything else a value.\<close>

fun simple_next :: "osstring list \<Rightarrow> string + arg option \<times> osstring list" where
  "simple_next [] = Inr (None, [])"
| "simple_next (t # ts) =
     (if take 2 t = ''--'' then Inr (Some (Long (drop 2 t)), ts)
      else if take 1 t = ''-'' \<and> length t = 2 then Inr (Some (Short (t ! 1)), ts)
      else Inr (Some (Value t), ts))"

fun simple_value :: "osstring list \<Rightarrow> string + osstring \<times> osstring list" where
  "simple_value [] = Inl ''missing value''"
| "simple_value (t # ts) = Inr (t, ts)"

definition simple_lexopt :: "osstring list lexopt" where
  "simple_lexopt =
     \<lparr>lx_from_iter = (\<lambda>argv. drop 1 argv), lx_next = simple_next, lx_value = simple_value, lx_string = Inr,
      lx_parse_usize = (\<lambda>s. map_sum (\<lambda>_. ''bad number'') id (parse_usize s)),
      lx_parse_u32 = (\<lambda>s. map_sum (\<lambda>_. ''bad number'') id (parse_u32_radix 10 s)),
      lx_unexpected = (\<lambda>_. ''unexpected argument'')\<rparr>"

definition simple_env :: parse_env where
  "simple_env =
     \<lparr>env_is_dir = (\<lambda>p. p = ''.''), env_normalize = (\<lambda>_. Inr ''/work''), env_parallelism = Some 8,
      env_getpwnam = (\<lambda>_ _. (0, None)), env_getgrnam = (\<lambda>_ _. (0, None)),
      env_modified = (\<lambda>_. Inl 2)\<rparr>"

lemma simple_lexopt_simps [simp]:
  "lx_from_iter simple_lexopt argv = drop 1 argv" "lx_next simple_lexopt = simple_next"
  "lx_value simple_lexopt = simple_value" "lx_string simple_lexopt = Inr"
  by (simp_all add: simple_lexopt_def)

lemma simple_next_consumes: "simple_next p = Inr (Some a, p') \<Longrightarrow> length p' < length p"
  by (cases p) (auto split: if_splits)

lemma simple_value_consumes: "simple_value p = Inr (v, p') \<Longrightarrow> length p' \<le> length p"
  by (cases p) auto

theorem parse_inner_returns_witness:
  "\<exists>r. parse_inner simple_lexopt simple_env [''minifind'', ''-size'', ''1k'', ''.''] = Some r"
  by (rule parse_inner_returns [of simple_lexopt length])
     (simp_all add: simple_lexopt_def simple_next_consumes simple_value_consumes)

section \<open>What is accepted\<close>

definition listed_ok :: "'a list option \<Rightarrow> bool" where
  "listed_ok xs = (xs \<noteq> Some [])"

definition threads_ok :: "usize \<Rightarrow> bool" where
  "threads_ok n = (2 \<le> n \<and> n \<le> 65535)"

definition path_ok :: "parse_env \<Rightarrow> path \<Rightarrow> bool" where
  "path_ok env q = (\<exists>x. env_is_dir env x \<and> env_normalize env x = Inr q)"

definition locals_ok :: "parse_env \<Rightarrow> parse_locals \<Rightarrow> bool" where
  "locals_ok env l \<longleftrightarrow>
     wf_predicates (l_meta l) \<and> pred_option threads_ok (l_threads l)
     \<and> l_access l AND 0xF8 = 0 \<and> list_all (path_ok env) (l_path l)"

definition args_ok :: "parse_env \<Rightarrow> Args \<Rightarrow> bool" where
  "args_ok env a \<longleftrightarrow>
     a_path a \<noteq> [] \<and> list_all (path_ok env) (a_path a)
     \<and> (a_name a = None \<or> a_regex a = None)
     \<and> listed_ok (a_name a) \<and> listed_ok (a_regex a) \<and> listed_ok (a_path_glob a)
     \<and> listed_ok (a_lname a) \<and> listed_ok (a_exclude a)
     \<and> a_file_type a \<noteq> []
     \<and> (threads_ok (a_threads a) \<or> a_threads a = (if a_idle a then 2 else default_threads env))
     \<and> a_access a AND 0xF8 = 0
     \<and> wf_predicates (a_meta a)"

lemma size_parse_unit: "size_parse s = Inr q \<Longrightarrow> 0 < uint (sp_unit q)"
  by (auto simp: size_parse_def and_then_Inr_iff intro: size_unit_pos split: if_splits option.splits)

lemma time_new_unit: "time_new s u f = Inr t \<Longrightarrow> tp_unit_secs t = u"
  by (auto simp: time_new_def and_then_Inr_iff)

lemmas time_parse_defs = time_mtime_def time_ctime_def time_atime_def

lemma parse_threads_ok: "parse_threads s = Inr n \<Longrightarrow> threads_ok n"
  by (auto simp: parse_threads_def threads_ok_def and_then_Inr_iff split: if_splits)

lemma parse_paths_ok: "parse_paths env s = Inr q \<Longrightarrow> path_ok env q"
  by (auto simp: parse_paths_def path_ok_def split: if_splits)

lemma locals_ok_update [simp]:
  "locals_ok env (l\<lparr>l_follow_symlinks := b\<rparr>) = locals_ok env l"
  "locals_ok env (l\<lparr>l_one_filesystem := b\<rparr>) = locals_ok env l"
  "locals_ok env (l\<lparr>l_idle := b\<rparr>) = locals_ok env l"
  "locals_ok env (l\<lparr>l_max_depth := u\<rparr>) = locals_ok env l"
  "locals_ok env (l\<lparr>l_min_depth := u\<rparr>) = locals_ok env l"
  "locals_ok env (l\<lparr>l_max_scan_rate := r\<rparr>) = locals_ok env l"
  "locals_ok env (l\<lparr>l_max_results := u\<rparr>) = locals_ok env l"
  "locals_ok env (l\<lparr>l_name := ss\<rparr>) = locals_ok env l"
  "locals_ok env (l\<lparr>l_regex := ss\<rparr>) = locals_ok env l"
  "locals_ok env (l\<lparr>l_case_insensitive := b\<rparr>) = locals_ok env l"
  "locals_ok env (l\<lparr>l_file_type := ts\<rparr>) = locals_ok env l"
  "locals_ok env (l\<lparr>l_exclude := ss\<rparr>) = locals_ok env l"
  "locals_ok env (l\<lparr>l_null := b\<rparr>) = locals_ok env l"
  "locals_ok env (l\<lparr>l_path_glob := ss\<rparr>) = locals_ok env l"
  "locals_ok env (l\<lparr>l_lname := ss\<rparr>) = locals_ok env l"
  by (simp_all add: locals_ok_def)

lemma locals_ok_fields:
  assumes "locals_ok env l"
  shows "locals_ok env (l\<lparr>l_meta := m\<rparr>) = wf_predicates m"
    and "locals_ok env (l\<lparr>l_access := b\<rparr>) = (b AND 0xF8 = 0)"
    and "locals_ok env (l\<lparr>l_threads := t\<rparr>) = pred_option threads_ok t"
    and "locals_ok env (l\<lparr>l_path := qs\<rparr>) = list_all (path_ok env) qs"
    and "wf_predicates (l_meta l)" and "l_access l AND 0xF8 = 0" and "list_all (path_ok env) (l_path l)"
  using assms by (simp_all add: locals_ok_def)

lemma wf_predicates_update [simp]:
  "wf_predicates (m\<lparr>p_perm := a\<rparr>) = wf_predicates m"
  "wf_predicates (m\<lparr>p_uid := i\<rparr>) = wf_predicates m"
  "wf_predicates (m\<lparr>p_gid := i\<rparr>) = wf_predicates m"
  "wf_predicates (m\<lparr>p_links := i\<rparr>) = wf_predicates m"
  "wf_predicates (m\<lparr>p_inum := i\<rparr>) = wf_predicates m"
  "wf_predicates (m\<lparr>p_newer := n\<rparr>) = wf_predicates m"
  "wf_predicates (m\<lparr>p_nouser := b\<rparr>) = wf_predicates m"
  "wf_predicates (m\<lparr>p_nogroup := b\<rparr>) = wf_predicates m"
  by (simp_all add: wf_predicates_def)

lemma wf_predicates_size:
  "wf_predicates m \<Longrightarrow> wf_predicates (m\<lparr>p_size := Some q\<rparr>) = (0 < uint (sp_unit q))"
  by (simp add: wf_predicates_def)

lemma wf_predicates_times:
  "wf_predicates m \<Longrightarrow>
   wf_predicates (m\<lparr>p_times := p_times m @ [t]\<rparr>) = (tp_unit_secs t \<in> {DAY, MINUTE})"
  by (auto simp: wf_predicates_def)

lemma access_ok:
  "access_READ AND 0xF8 = 0" "access_WRITE AND 0xF8 = 0" "access_EXEC AND 0xF8 = 0"
  by (simp_all add: access_defs)

lemma push_time_ok:
  assumes "push_time l (time_new s u f) = Inr l'" "u = DAY \<or> u = MINUTE" "locals_ok env l"
  shows "locals_ok env l'"
  using assms by (auto simp: push_time_def and_then_Inr_iff locals_ok_fields wf_predicates_times
      dest!: time_new_unit)

lemma push_newer_ok: "push_newer l r = Inr l' \<Longrightarrow> locals_ok env l \<Longrightarrow> locals_ok env l'"
  by (auto simp: push_newer_def and_then_Inr_iff locals_ok_fields)

lemma run_arm_ok:
  "run_arm lx env m l p = Some (Inr (Continue l' p')) \<Longrightarrow> locals_ok env l \<Longrightarrow> locals_ok env l'"
  by (cases m)
     (simp_all only: run_arm.simps with_Continue and_then_Inr_iff time_parse_defs
        option.inject sum.inject flow.inject flow.distinct simp_thms,
      elim exE conjE,
      auto simp: and_then_Inr_iff locals_ok_fields wf_predicates_size word_or_and_eq_0_iff access_ok
        dest!: push_newer_ok push_time_ok size_parse_unit parse_threads_ok)

lemma handle_arg_cases:
  assumes "handle_arg lx env a l p = Some (Inr (Continue l' p'))"
  obtains (arm) m where "classify a = Some m" "run_arm lx env m l p = Some (Inr (Continue l' p'))"
  | (operand) v s q where "a = Value v" "lx_string lx v = Inr s" "parse_paths env s = Inr q" "p' = p"
      "l' = l\<lparr>l_path := l_path l @ [q]\<rparr>"
  using assms
  by (auto simp: handle_arg_def and_then_Inr_iff split: option.splits arg.splits)

lemma handle_arg_ok:
  assumes "handle_arg lx env a l p = Some (Inr (Continue l' p'))" "locals_ok env l"
  shows "locals_ok env l'"
  using assms(1)
proof (cases rule: handle_arg_cases)
  case (arm m)
  then show ?thesis using assms(2) by (blast intro: run_arm_ok)
next
  case (operand v s q)
  then show ?thesis using assms(2) parse_paths_ok [of env s q] by (simp add: locals_ok_fields)
qed

lemma then_some_simps [simp]: "listed_ok (then_some xs)" "then_some xs = None \<longleftrightarrow> xs = []"
  by (simp_all add: listed_ok_def then_some_def)

lemma finish_ok':
  "locals_ok env l \<Longrightarrow> (case finish env l of Inr (Run a) \<Rightarrow> args_ok env a | _ \<Rightarrow> True)"
  by (cases "l_threads l") (simp_all add: finish_def locals_ok_def args_ok_def)

lemma finish_ok: "finish env l = Inr (Run a) \<Longrightarrow> locals_ok env l \<Longrightarrow> args_ok env a"
  using finish_ok' [of env l] by simp

lemma run_arm_not_Run: "run_arm lx env m l p \<noteq> Some (Inr (Return (Run a)))"
  by (cases m) (auto simp: with_Continue)

lemma handle_arg_not_Run: "handle_arg lx env a' l p \<noteq> Some (Inr (Return (Run a)))"
  by (auto simp: handle_arg_def and_then_Inr_iff run_arm_not_Run split: option.splits arg.splits)

lemma parse_loop_ok:
  "parse_loop lx env l p = Some r \<Longrightarrow> r = Some (Inr (Run a)) \<longrightarrow> locals_ok env l \<longrightarrow> args_ok env a"
proof (rule parse_loop.raw_induct [rotated,
      where P = "\<lambda>lx env l p r. r = Some (Inr (Run a)) \<longrightarrow> locals_ok env l \<longrightarrow> args_ok env a"],
    assumption, goal_cases)
  case (1 loop lx env l p r)
  then show ?case
    by (auto split: sum.splits option.splits prod.splits flow.splits
        simp: handle_arg_not_Run dest: finish_ok handle_arg_ok)
qed

lemma accepted_args: "parse_inner lx env argv = Some (Some (Inr (Run a))) \<Longrightarrow> args_ok env a"
  using parse_loop_ok [of lx env initial_locals _ "Some (Inr (Run a))" a]
  by (simp add: parse_inner_def) (simp add: locals_ok_def initial_locals_def)

text \<open>
  C27. What \<open>run\<close> may assume of an accepted command line: at least one path, each the normal form of
  an existing directory; never both \<open>--name\<close> and \<open>--regex\<close>; no empty pattern list; a nonempty
  type selection; 2 to 65535 threads unless they are the default; access bits only; and metadata
  predicates that cannot panic (positive units).
\<close>

theorem accepted_args_ok:
  "parse_inner lx env argv = Some (Some (Inr (Run a))) \<Longrightarrow> args_ok env a"
  by (rule accepted_args)

lemma simple_parse_example:
  "parse_inner simple_lexopt simple_env [''minifind'', ''-type'', ''f'', ''-name'', ''-size'', ''.''] =
   Some (Some (finish simple_env (initial_locals\<lparr>l_file_type := [SelFile], l_name := [''--size''], l_path := [''/work'']\<rparr>)))"
  by (simp add: parse_inner_def parse_loop.simps [of simple_lexopt] simple_env_def
      normalize_arg_def find_aliases_def handle_arg_def classify_def arm_table_def with_str_def
      val_str_def lx_val_def parse_file_type_def parse_paths_def initial_locals_def)

theorem accepted_args_ok_witness:
  "\<exists>a. parse_inner simple_lexopt simple_env
        [''minifind'', ''-type'', ''f'', ''-name'', ''-size'', ''.''] = Some (Some (Inr (Run a)))
     \<and> args_ok simple_env a"
proof -
  obtain a where "parse_inner simple_lexopt simple_env
      [''minifind'', ''-type'', ''f'', ''-name'', ''-size'', ''.''] = Some (Some (Inr (Run a)))"
    unfolding simple_parse_example by (simp add: finish_def initial_locals_def)
  then show ?thesis using accepted_args_ok by blast
qed

section \<open>Which occurrence decides\<close>

text \<open>The arguments the loop consumes before the tokenizer reports the end.\<close>

inductive parse_steps ::
  "'p lexopt \<Rightarrow> parse_env \<Rightarrow> parse_locals \<Rightarrow> 'p \<Rightarrow> arg list \<Rightarrow> parse_locals \<Rightarrow> 'p \<Rightarrow> bool"
  for lx env where
  steps_done: "parse_steps lx env l p [] l p"
| steps_arg: "lx_next lx p = Inr (Some a, p1) \<Longrightarrow> handle_arg lx env a l p1 = Some (Inr (Continue l1 p2)) \<Longrightarrow>
    parse_steps lx env l1 p2 as l2 p3 \<Longrightarrow> parse_steps lx env l p (a # as) l2 p3"

inductive_cases parse_steps_Nil [elim!]: "parse_steps lx env l p [] l' p'"

lemma parse_loop_steps:
  "parse_loop lx env l p = Some r \<Longrightarrow> r = Some (Inr (Run a)) \<longrightarrow>
     (\<exists>as l' p' p''. parse_steps lx env l p as l' p' \<and> lx_next lx p' = Inr (None, p'')
        \<and> finish env l' = Inr (Run a))"
proof (rule parse_loop.raw_induct [rotated, where P = "\<lambda>lx env l p r. r = Some (Inr (Run a)) \<longrightarrow>
     (\<exists>as l' p' p''. parse_steps lx env l p as l' p' \<and> lx_next lx p' = Inr (None, p'')
        \<and> finish env l' = Inr (Run a))"], assumption, goal_cases)
  case (1 loop lx env l p r)
  show ?case
  proof
    assume r: "r = Some (Inr (Run a))"
    show "\<exists>as l' p' p''. parse_steps lx env l p as l' p' \<and> lx_next lx p' = Inr (None, p'')
        \<and> finish env l' = Inr (Run a)"
      using 1(3) r
      by (auto split: sum.splits option.splits prod.splits flow.splits simp: handle_arg_not_Run
          intro: steps_done dest!: 1(2)) (blast intro: steps_done steps_arg)+
  qed
qed

abbreviation used :: "arm list \<Rightarrow> arg list \<Rightarrow> bool" where
  "used ms as \<equiv> list_ex (\<lambda>a. list_ex (\<lambda>m. classify a = Some m) ms) as"

definition one_filesystem_of :: "bool \<Rightarrow> arg list \<Rightarrow> bool" where
  "one_filesystem_of b as =
     fold (\<lambda>a b. if classify a = Some ArmOneFs then True
                 else if classify a = Some ArmCrossFs then False else b) as b"

definition operands :: "arg list \<Rightarrow> osstring list" where
  "operands as = concat (map (\<lambda>a. case a of Value v \<Rightarrow> [v] | _ \<Rightarrow> []) as)"

lemma run_arm_switches:
  assumes "run_arm lx env m l p = Some (Inr (Continue l' p'))"
  shows "l_follow_symlinks l' = (l_follow_symlinks l \<or> m = ArmFollow)"
    and "l_one_filesystem l' = (if m = ArmOneFs then True else if m = ArmCrossFs then False else l_one_filesystem l)"
    and "l_idle l' = (l_idle l \<or> m = ArmIdle)"
    and "l_null l' = (l_null l \<or> m = ArmNull)"
    and "l_case_insensitive l' = (l_case_insensitive l \<or> m \<in> {ArmIcase, ArmIname, ArmIregex, ArmIpath, ArmIlname})"
    and "l_path l' = l_path l"
  using assms
  by (cases m, auto simp: with_Continue and_then_Inr_iff push_time_def push_newer_def)+

lemma classify_Value [simp]: "classify (Value v) = None"
proof -
  have "find (arm_matches (Value v)) xs = None" for xs by (induction xs) auto
  then show ?thesis by (simp add: classify_def)
qed

lemma classify_not_operand: "classify a = Some m \<Longrightarrow> operands [a] = []"
  by (cases a) (simp_all add: operands_def)

lemma handle_arg_switches:
  assumes "handle_arg lx env a l p = Some (Inr (Continue l' p'))"
  shows "l_follow_symlinks l' = (l_follow_symlinks l \<or> used [ArmFollow] [a])
    \<and> l_one_filesystem l' = one_filesystem_of (l_one_filesystem l) [a]
    \<and> l_idle l' = (l_idle l \<or> used [ArmIdle] [a])
    \<and> l_null l' = (l_null l \<or> used [ArmNull] [a])
    \<and> l_case_insensitive l' =
      (l_case_insensitive l \<or> used [ArmIcase, ArmIname, ArmIregex, ArmIpath, ArmIlname] [a])
    \<and> length (l_path l') = length (l_path l) + length (operands [a])"
  using assms
proof (cases rule: handle_arg_cases)
  case (arm m)
  show ?thesis
    using arm(1) classify_not_operand [OF arm(1)] run_arm_switches [OF arm(2)]
    by (simp add: one_filesystem_of_def)
next
  case (operand v s q)
  then show ?thesis by (simp add: one_filesystem_of_def operands_def)
qed

lemma parse_steps_switches:
  assumes "parse_steps lx env l p as l' p'"
  shows "l_follow_symlinks l' = (l_follow_symlinks l \<or> used [ArmFollow] as)
    \<and> l_one_filesystem l' = one_filesystem_of (l_one_filesystem l) as
    \<and> l_idle l' = (l_idle l \<or> used [ArmIdle] as)
    \<and> l_null l' = (l_null l \<or> used [ArmNull] as)
    \<and> l_case_insensitive l' =
        (l_case_insensitive l \<or> used [ArmIcase, ArmIname, ArmIregex, ArmIpath, ArmIlname] as)
    \<and> length (l_path l') = length (l_path l) + length (operands as)"
  using assms
proof induction
  case (steps_arg p a p1 l l1 p2 as l2 p3)
  note a = handle_arg_switches [OF steps_arg.hyps(2)]
  have "one_filesystem_of b (a # as) = one_filesystem_of (one_filesystem_of b [a]) as" for b
    by (simp add: one_filesystem_of_def)
  moreover have "operands (a # as) = operands [a] @ operands as" by (simp add: operands_def)
  ultimately show ?case using steps_arg.IH a by auto
qed (simp add: one_filesystem_of_def operands_def)

text \<open>
  The switches of an accepted command line, from the arguments that were consumed: following
  symlinks, \<open>--idle\<close> and NUL output are on exactly when their option occurs; matching ignores
  case exactly when \<open>-i\<close> or one of the \<open>-i...\<close> matchers occurs; the last of the options about
  mount points wins and the default is not to cross them; and there is one path per operand.
\<close>

theorem accepted_switches:
  assumes "parse_inner lx env argv = Some (Some (Inr (Run a)))"
  shows "\<exists>as l p.
     parse_steps lx env initial_locals (lx_from_iter lx (map normalize_arg argv)) as l p
     \<and> a_follow_symlinks a = used [ArmFollow] as
     \<and> a_idle a = used [ArmIdle] as
     \<and> a_null a = used [ArmNull] as
     \<and> a_case_insensitive a = used [ArmIcase, ArmIname, ArmIregex, ArmIpath, ArmIlname] as
     \<and> a_one_filesystem a = one_filesystem_of True as
     \<and> length (a_path a) = length (operands as)"
proof -
  obtain as l p where s: "parse_steps lx env initial_locals (lx_from_iter lx (map normalize_arg argv)) as l p"
    and f: "finish env l = Inr (Run a)"
    using parse_loop_steps [of lx env initial_locals _ "Some (Inr (Run a))" a] assms
    unfolding parse_inner_def by blast
  have "a_follow_symlinks a = l_follow_symlinks l \<and> a_idle a = l_idle l \<and> a_null a = l_null l
    \<and> a_case_insensitive a = l_case_insensitive l \<and> a_one_filesystem a = l_one_filesystem l
    \<and> a_path a = l_path l"
    using f by (auto simp: finish_def split: if_splits)
  then show ?thesis
    using s parse_steps_switches [OF s]
    by (intro exI [of _ as] exI [of _ l] exI [of _ p]) (simp add: initial_locals_def)
qed

theorem accepted_switches_witness:
  "\<exists>a as. parse_inner simple_lexopt simple_env
        [''minifind'', ''-type'', ''f'', ''-name'', ''-size'', ''.''] = Some (Some (Inr (Run a)))
     \<and> a_null a = used [ArmNull] as"
proof -
  obtain a where "parse_inner simple_lexopt simple_env
      [''minifind'', ''-type'', ''f'', ''-name'', ''-size'', ''.''] = Some (Some (Inr (Run a)))"
    unfolding simple_parse_example by (simp add: finish_def initial_locals_def)
  then show ?thesis using accepted_switches by blast
qed

section \<open>find's spellings\<close>

fun distinct_names :: "(string \<times> string list \<times> arm) list \<Rightarrow> bool" where
  "distinct_names t \<longleftrightarrow>
     distinct (concat (map (\<lambda>(s, _, _). s) t)) \<and> distinct (concat (map (\<lambda>(_, ls, _). ls) t))"

text \<open>
  Every find spelling is rewritten to a long option of the table, the rewriting never touches its
  own output, and each short or long name selects one arm only (no arm shadows another).
\<close>

theorem spellings_are_options:
  "list_all (\<lambda>(a, b). normalize_arg a = b \<and> normalize_arg b = b
       \<and> take 2 b = ''--'' \<and> classify (Long (drop 2 b)) \<noteq> None) find_aliases
   \<and> distinct_names arm_table"
  by code_simp

text \<open>
  The rewriting looks at every argument, also where find's grammar has a value or an operand: a
  search for the name \<open>-size\<close> looks for \<open>--size\<close> instead.
\<close>

theorem spelling_rewritten_in_value:
  "\<exists>a. parse_inner simple_lexopt simple_env
        [''minifind'', ''-type'', ''f'', ''-name'', ''-size'', ''.''] = Some (Some (Inr (Run a)))
     \<and> a_name a = Some [''--size'']"
  unfolding simple_parse_example by (simp add: finish_def initial_locals_def then_some_def)

end
