(* ===== verification/Args_Values.thy ===== *)
theory Args_Values
  imports Args_Correct
begin

text \<open>
  What the values on a command line mean, and when a command line is rejected. An option that may be
  repeated collects its values in order, the last of an option that may not wins, and \<open>reads\<close> is the list of
  options with the values they took.
\<close>

section \<open>Where the loop stops\<close>

text \<open>What the loop returns when it stops at the locals \<open>l\<close> and the parser state \<open>p\<close>.\<close>

definition stops_with ::
  "'p lexopt \<Rightarrow> parse_env \<Rightarrow> parse_locals \<Rightarrow> 'p \<Rightarrow> (error + Outcome) option \<Rightarrow> bool" where
  "stops_with lx env l p r \<longleftrightarrow>
     (case lx_next lx p of
        Inl e \<Rightarrow> r = Some (Inl (Lexopt e))
      | Inr (None, _) \<Rightarrow> r = Some (finish env l)
      | Inr (Some a, p') \<Rightarrow>
          (case handle_arg lx env a l p' of
             None \<Rightarrow> r = None
           | Some (Inl e) \<Rightarrow> r = Some (Inl e)
           | Some (Inr (Return out)) \<Rightarrow> r = Some (Inr out)
           | Some (Inr (Continue _ _)) \<Rightarrow> False))"

lemma next_cases:
  obtains (bad) e where "lx_next lx p = Inl e" | (finished) p' where "lx_next lx p = Inr (None, p')"
  | (argument) a p' where "lx_next lx p = Inr (Some a, p')"
  by (metis option.exhaust prod.exhaust sum.exhaust)

lemma handled_cases:
  fixes r :: "(error + 'p flow) option"
  obtains (panic) "r = None" | (bad) e where "r = Some (Inl e)" | (return) out where "r = Some (Inr (Return out))"
  | (continue) l p where "r = Some (Inr (Continue l p))"
  by (metis flow.exhaust option.exhaust sum.exhaust)

lemma parse_loop_stops:
  "parse_loop lx env l p = Some r \<Longrightarrow>
     \<exists>as l' p'. parse_steps lx env l p as l' p' \<and> stops_with lx env l' p' r"
proof (rule parse_loop.raw_induct [rotated, where P = "\<lambda>lx env l p r.
     \<exists>as l' p'. parse_steps lx env l p as l' p' \<and> stops_with lx env l' p' r"], assumption, goal_cases)
  case (1 loop lx env l p r)
  note body = 1(3)
  have "stops_with lx env l p r \<or>
    (\<exists>a p1 l1 p2. lx_next lx p = Inr (Some a, p1) \<and> handle_arg lx env a l p1 = Some (Inr (Continue l1 p2))
       \<and> loop lx env l1 p2 = Some r)"
  proof (cases lx p rule: next_cases)
    case (argument a p')
    then show ?thesis
      using body by (cases "handle_arg lx env a l p'" rule: handled_cases) (simp_all add: stops_with_def)
  qed (use body in \<open>simp_all add: stops_with_def\<close>)
  then show ?case
    using 1(2) by (blast intro: steps_done steps_arg)
qed

lemma parse_loop_steps_eq:
  "parse_steps lx env l p as l' p' \<Longrightarrow> parse_loop lx env l p = parse_loop lx env l' p'"
proof (induction rule: parse_steps.induct)
  case (steps_arg p a p1 l l1 p2 as l2 p3)
  have "parse_loop lx env l p = parse_loop lx env l1 p2"
    using steps_arg.hyps(1,2) by (subst parse_loop.simps) simp
  with steps_arg.IH show ?case by simp
qed simp

lemma stops_with_loop:
  assumes "stops_with lx env l p r"
  shows "parse_loop lx env l p = Some r"
proof (cases lx p rule: next_cases)
  case (argument a p')
  then show ?thesis
    using assms
    by (cases "handle_arg lx env a l p'" rule: handled_cases) (simp_all add: stops_with_def parse_loop.simps [of lx env l p])
qed (use assms in \<open>simp_all add: stops_with_def parse_loop.simps [of lx env l p]\<close>)

lemma parse_loop_iff:
  "parse_loop lx env l p = Some r \<longleftrightarrow>
     (\<exists>as l' p'. parse_steps lx env l p as l' p' \<and> stops_with lx env l' p' r)"
  using parse_loop_stops parse_loop_steps_eq stops_with_loop by metis

lemma finish_error:
  "finish env l = Inl e \<longleftrightarrow>
     l_name l \<noteq> [] \<and> l_regex l \<noteq> [] \<and> e = NameRegexConflict
     \<or> (l_name l = [] \<or> l_regex l = []) \<and> l_path l = [] \<and> e = MissingPath"
  by (auto simp: finish_def)

text \<open>
  C25. When a command line is rejected, and why. The arguments are read in order, and the first problem is
  the one reported: an argument the tokenizer cannot split, an option or operand that is unknown, lacks its value or
  has a bad one; and after the last argument, \<open>--name\<close> together with \<open>--regex\<close>, or else no path at all. Nothing
  after the first problem is looked at, and \<open>--help\<close> or \<open>--version\<close> before it prevails.
\<close>

theorem first_problem_is_reported:
  "parse_inner lx env argv = Some (Some (Inl e)) \<longleftrightarrow>
     (\<exists>as l p. parse_steps lx env initial_locals (lx_from_iter lx (map normalize_arg argv)) as l p
        \<and> ((\<exists>msg. lx_next lx p = Inl msg \<and> e = Lexopt msg)
          \<or> (\<exists>a p'. lx_next lx p = Inr (Some a, p') \<and> handle_arg lx env a l p' = Some (Inl e))
          \<or> (\<exists>p'. lx_next lx p = Inr (None, p')
               \<and> (l_name l \<noteq> [] \<and> l_regex l \<noteq> [] \<and> e = NameRegexConflict
                  \<or> (l_name l = [] \<or> l_regex l = []) \<and> l_path l = [] \<and> e = MissingPath))))"
proof -
  have "stops_with lx env l p (Some (Inl e)) \<longleftrightarrow>
      (\<exists>msg. lx_next lx p = Inl msg \<and> e = Lexopt msg)
      \<or> (\<exists>a p'. lx_next lx p = Inr (Some a, p') \<and> handle_arg lx env a l p' = Some (Inl e))
      \<or> (\<exists>p'. lx_next lx p = Inr (None, p') \<and> finish env l = Inl e)" for l p
  proof (cases lx p rule: next_cases)
    case (argument a p')
    then show ?thesis by (cases "handle_arg lx env a l p'" rule: handled_cases) (auto simp: stops_with_def)
  qed (auto simp: stops_with_def)
  then show ?thesis unfolding parse_inner_def parse_loop_iff finish_error by simp
qed

section \<open>The options with their values\<close>

fun takes_value :: "arm \<Rightarrow> bool" where
  "takes_value m \<longleftrightarrow> m \<notin> {ArmHelp, ArmVersion, ArmFollow, ArmOneFs, ArmCrossFs, ArmIdle, ArmIcase, ArmEmpty,
     ArmNouser, ArmNogroup, ArmReadable, ArmWritable, ArmExecutable, ArmQuit, ArmNoop, ArmNull}"

definition value_of :: "'p lexopt \<Rightarrow> arm \<Rightarrow> 'p \<Rightarrow> osstring" where
  "value_of lx m p = (if takes_value m then (case lx_value lx p of Inr (v, _) \<Rightarrow> v | Inl _ \<Rightarrow> []) else [])"

text \<open>An option with the value it took (empty if it takes none), or an operand.\<close>

type_synonym item = "arm option \<times> osstring"

inductive reads ::
  "'p lexopt \<Rightarrow> parse_env \<Rightarrow> parse_locals \<Rightarrow> 'p \<Rightarrow> item list \<Rightarrow> parse_locals \<Rightarrow> 'p \<Rightarrow> bool"
  for lx env where
  reads_done: "reads lx env l p [] l p"
| reads_option: "\<lbrakk>lx_next lx p = Inr (Some a, p1); classify a = Some m; run_arm lx env m l p1 = Some (Inr (Continue l1 p2));
    reads lx env l1 p2 is l2 p3\<rbrakk> \<Longrightarrow> reads lx env l p ((Some m, value_of lx m p1) # is) l2 p3"
| reads_operand: "\<lbrakk>lx_next lx p = Inr (Some (Value v), p1); lx_string lx v = Inr s; parse_paths env s = Inr q;
    reads lx env (l\<lparr>l_path := l_path l @ [q]\<rparr>) p1 is l2 p3\<rbrakk> \<Longrightarrow> reads lx env l p ((None, v) # is) l2 p3"

lemma steps_read: "parse_steps lx env l p as l' p' \<Longrightarrow> \<exists>is. reads lx env l p is l' p'"
proof (induction rule: parse_steps.induct)
  case (steps_arg p a p1 l l1 p2 as l2 p3)
  then obtain "is" where "is": "reads lx env l1 p2 is l2 p3" by blast
  from steps_arg.hyps(2) show ?case
  proof (cases rule: handle_arg_cases)
    case (arm m)
    then show ?thesis using reads_option [OF steps_arg.hyps(1) _ _ "is"] by blast
  next
    case (operand v s q)
    then show ?thesis using reads_operand [of lx p v p1 s env q l "is" l2 p3] steps_arg.hyps(1) "is" by blast
  qed
qed (blast intro: reads_done)

section \<open>Laws of the fields\<close>

text \<open>A field of the locals that changes with each item as \<open>act\<close> says.\<close>

locale accumulated =
  fixes lx :: "'p lexopt" and env :: parse_env
    and field :: "parse_locals \<Rightarrow> 'a" and act :: "item \<Rightarrow> 'a \<Rightarrow> 'a"
  assumes option: "run_arm lx env m l p = Some (Inr (Continue l' p')) \<Longrightarrow> field l' = act (Some m, value_of lx m p) (field l)"
    and operand: "lx_string lx v = Inr s \<Longrightarrow> parse_paths env s = Inr q \<Longrightarrow>
      field (l\<lparr>l_path := l_path l @ [q]\<rparr>) = act (None, v) (field l)"
begin

lemma folded: "reads lx env l p is l' p' \<Longrightarrow> field l' = fold act is (field l)"
  by (induction rule: reads.induct) (simp_all add: option operand)

end

definition all_of :: "(item \<Rightarrow> 'a list) \<Rightarrow> item list \<Rightarrow> 'a list" where
  "all_of gives is = concat (map gives is)"

definition last_of :: "(item \<Rightarrow> 'a list) \<Rightarrow> item list \<Rightarrow> 'a option" where
  "last_of gives is = (let xs = all_of gives is in if xs = [] then None else Some (last xs))"

text \<open>A field that collects what the items give.\<close>

locale collected = accumulated lx env field "\<lambda>i xs. xs @ gives i"
  for lx :: "'p lexopt" and env :: parse_env and field :: "parse_locals \<Rightarrow> 'a list" and gives :: "item \<Rightarrow> 'a list"
begin

lemma collects:
  assumes "reads lx env l p is l' p'" "field l = []"
  shows "field l' = all_of gives is"
proof -
  have "fold (\<lambda>i xs. xs @ gives i) is xs = xs @ all_of gives is" for xs
    by (induction "is" arbitrary: xs) (simp_all add: all_of_def)
  then show ?thesis using folded [OF assms(1)] assms(2) by simp
qed

end

text \<open>A field in which the last value given wins.\<close>

definition overrides :: "'a option \<Rightarrow> 'a list \<Rightarrow> 'a option" where
  "overrides x xs = (if xs = [] then x else Some (last xs))"

locale overridden = accumulated lx env field "\<lambda>i x. overrides x (gives i)"
  for lx :: "'p lexopt" and env :: parse_env and field :: "parse_locals \<Rightarrow> 'a option" and gives :: "item \<Rightarrow> 'a list"
begin

lemma last_wins:
  assumes "reads lx env l p is l' p'" "field l = None"
  shows "field l' = last_of gives is"
proof -
  have "fold (\<lambda>i x. overrides x (gives i)) is x = overrides x (all_of gives is)" for x
    by (induction "is" arbitrary: x) (simp_all add: all_of_def overrides_def)
  then show ?thesis using folded [OF assms(1)] assms(2) by (simp add: last_of_def overrides_def)
qed

end

section \<open>What each option gives\<close>

definition got :: "'e + 'a \<Rightarrow> 'a list" where
  "got r = (case r of Inr x \<Rightarrow> [x] | Inl _ \<Rightarrow> [])"

lemma got_simps [simp]: "got (Inr x) = [x]" "got (Inl e) = []"
  by (simp_all add: got_def)

fun by_option :: "(arm \<Rightarrow> osstring \<Rightarrow> 'a list) \<Rightarrow> item \<Rightarrow> 'a list" where
  "by_option f (Some m, v) = f m v"
| "by_option f (None, v) = []"

definition parsed_by :: "'p lexopt \<Rightarrow> arm list \<Rightarrow> (string \<Rightarrow> error + 'a) \<Rightarrow> item \<Rightarrow> 'a list" where
  "parsed_by lx ms f = by_option (\<lambda>m v. if m \<in> set ms then got (and_then (map_err Lexopt (lx_string lx v)) f) else [])"

abbreviation texts :: "'p lexopt \<Rightarrow> arm list \<Rightarrow> item \<Rightarrow> string list" where
  "texts lx ms \<equiv> parsed_by lx ms Inr"

definition number_by :: "(osstring \<Rightarrow> string + 'a) \<Rightarrow> arm \<Rightarrow> item \<Rightarrow> 'a list" where
  "number_by parse m = by_option (\<lambda>m' v. if m' = m then got (parse v) else [])"

definition result_limits :: "'p lexopt \<Rightarrow> item \<Rightarrow> usize list" where
  "result_limits lx = by_option (\<lambda>m v. if m = ArmQuit then [1] else number_by (lx_parse_usize lx) ArmMaxResults (Some m, v))"

definition file_types :: "'p lexopt \<Rightarrow> item \<Rightarrow> FileType list" where
  "file_types lx = by_option (\<lambda>m v. if m = ArmEmpty then [SelEmpty] else parsed_by lx [ArmFileType] parse_file_type (Some m, v))"

definition start_paths :: "'p lexopt \<Rightarrow> parse_env \<Rightarrow> item \<Rightarrow> path list" where
  "start_paths lx env i =
     (case i of (None, v) \<Rightarrow> got (and_then (map_err Lexopt (lx_string lx v)) (parse_paths env)) | _ \<Rightarrow> [])"

fun access_bits :: "item \<Rightarrow> u8" where
  "access_bits (m, _) =
     (if m = Some ArmReadable then access_READ else if m = Some ArmWritable then access_WRITE
      else if m = Some ArmExecutable then access_EXEC else 0)"

definition uids :: "'p lexopt \<Rightarrow> parse_env \<Rightarrow> item \<Rightarrow> IdPred list" where
  "uids lx env = by_option (\<lambda>m v.
     if m = ArmUser then concat (map (\<lambda>s. case resolve_user (env_getpwnam env) s of
         None \<Rightarrow> [] | Some r \<Rightarrow> map id_exact (got r)) (got (lx_string lx v)))
     else parsed_by lx [ArmUid] id_parse (Some m, v))"

definition gids :: "'p lexopt \<Rightarrow> parse_env \<Rightarrow> item \<Rightarrow> IdPred list" where
  "gids lx env = by_option (\<lambda>m v.
     if m = ArmGroup then concat (map (\<lambda>s. case resolve_group (env_getgrnam env) s of
         None \<Rightarrow> [] | Some r \<Rightarrow> map id_exact (got r)) (got (lx_string lx v)))
     else parsed_by lx [ArmGid] id_parse (Some m, v))"

text \<open>The six time options, each with its field and unit, and the three reference file options.\<close>

definition time_tests :: "'p lexopt \<Rightarrow> item \<Rightarrow> TimePred list" where
  "time_tests lx i =
     parsed_by lx [ArmMtime] (\<lambda>s. time_mtime s DAY) i @ parsed_by lx [ArmMmin] (\<lambda>s. time_mtime s MINUTE) i
     @ parsed_by lx [ArmCtime] (\<lambda>s. time_ctime s DAY) i @ parsed_by lx [ArmCmin] (\<lambda>s. time_ctime s MINUTE) i
     @ parsed_by lx [ArmAtime] (\<lambda>s. time_atime s DAY) i @ parsed_by lx [ArmAmin] (\<lambda>s. time_atime s MINUTE) i"

definition newer_tests :: "parse_env \<Rightarrow> item \<Rightarrow> NewerPred list" where
  "newer_tests env = by_option (\<lambda>m v.
     let t = got (file_mtime (env_modified env) v) in
     if m = ArmNewer then map newer_newer t else if m = ArmAnewer then map newer_anewer t
     else if m = ArmCnewer then map newer_cnewer t else [])"

lemmas gives_defs = parsed_by_def number_by_def result_limits_def file_types_def start_paths_def uids_def gids_def
  time_tests_def newer_tests_def

lemma arm_value:
  "lx_value lx p = Inr (v, p') \<Longrightarrow> takes_value m \<Longrightarrow> value_of lx m p = v"
  by (simp add: value_of_def)

lemmas arm_effects = with_Continue and_then_Inr_iff gives_defs value_of_def overrides_def

lemma run_arm_collects:
  assumes "run_arm lx env m l p = Some (Inr (Continue l' p'))"
  defines "i \<equiv> (Some m, value_of lx m p)"
  shows "l_name l' = l_name l @ texts lx [ArmName, ArmIname] i"
    and "l_regex l' = l_regex l @ texts lx [ArmRegex, ArmIregex] i"
    and "l_path_glob l' = l_path_glob l @ texts lx [ArmPath, ArmIpath] i"
    and "l_lname l' = l_lname l @ texts lx [ArmLname, ArmIlname] i"
    and "l_exclude l' = l_exclude l @ texts lx [ArmExclude] i"
    and "l_file_type l' = l_file_type l @ file_types lx i"
    and "l_path l' = l_path l @ start_paths lx env i"
  using assms(1) unfolding i_def
  by (cases m, auto simp: arm_effects push_time_def push_newer_def)+

lemma run_arm_overrides:
  assumes "run_arm lx env m l p = Some (Inr (Continue l' p'))"
  defines "i \<equiv> (Some m, value_of lx m p)"
  shows "l_max_depth l' = overrides (l_max_depth l) (number_by (lx_parse_usize lx) ArmMaxDepth i)"
    and "l_min_depth l' = overrides (l_min_depth l) (number_by (lx_parse_usize lx) ArmMinDepth i)"
    and "l_max_scan_rate l' = overrides (l_max_scan_rate l) (number_by (lx_parse_u32 lx) ArmScanRate i)"
    and "l_max_results l' = overrides (l_max_results l) (result_limits lx i)"
    and "l_threads l' = overrides (l_threads l) (parsed_by lx [ArmThreads] parse_threads i)"
    and "l_access l' = l_access l OR access_bits i"
  using assms(1) unfolding i_def
  by (cases m, auto simp: arm_effects push_time_def push_newer_def)+

lemma run_arm_meta:
  assumes "run_arm lx env m l p = Some (Inr (Continue l' p'))"
  defines "i \<equiv> (Some m, value_of lx m p)"
  shows "p_size (l_meta l') = overrides (p_size (l_meta l)) (parsed_by lx [ArmSize] size_parse i)"
    and "p_perm (l_meta l') = overrides (p_perm (l_meta l)) (parsed_by lx [ArmPerm] perm_parse i)"
    and "p_uid (l_meta l') = overrides (p_uid (l_meta l)) (uids lx env i)"
    and "p_gid (l_meta l') = overrides (p_gid (l_meta l)) (gids lx env i)"
    and "p_links (l_meta l') = overrides (p_links (l_meta l)) (parsed_by lx [ArmLinks] id_parse i)"
    and "p_inum (l_meta l') = overrides (p_inum (l_meta l)) (parsed_by lx [ArmInum] id_parse i)"
    and "p_times (l_meta l') = p_times (l_meta l) @ time_tests lx i"
    and "p_newer (l_meta l') = p_newer (l_meta l) @ newer_tests env i"
    and "p_nouser (l_meta l') = (p_nouser (l_meta l) \<or> m = ArmNouser)"
    and "p_nogroup (l_meta l') = (p_nogroup (l_meta l) \<or> m = ArmNogroup)"
  using assms(1) unfolding i_def
  by (cases m, auto simp: arm_effects push_time_def push_newer_def Let_def)+

lemma operand_gives [simp]:
  "by_option f (None, v) = []" "parsed_by lx ms g (None, v) = []" "number_by h m (None, v) = []"
  "result_limits lx (None, v) = []" "file_types lx (None, v) = []" "uids lx env (None, v) = []"
  "gids lx env (None, v) = []" "time_tests lx (None, v) = []" "newer_tests env (None, v) = []"
  by (simp_all add: gives_defs)

lemma overrides_Nil [simp]: "overrides x [] = x"
  by (simp add: overrides_def)

interpretation names: collected lx env l_name "texts lx [ArmName, ArmIname]" for lx env
  by unfold_locales (simp_all add: run_arm_collects)

interpretation regexes: collected lx env l_regex "texts lx [ArmRegex, ArmIregex]" for lx env
  by unfold_locales (simp_all add: run_arm_collects)

interpretation path_globs: collected lx env l_path_glob "texts lx [ArmPath, ArmIpath]" for lx env
  by unfold_locales (simp_all add: run_arm_collects)

interpretation lnames: collected lx env l_lname "texts lx [ArmLname, ArmIlname]" for lx env
  by unfold_locales (simp_all add: run_arm_collects)

interpretation excludes: collected lx env l_exclude "texts lx [ArmExclude]" for lx env
  by unfold_locales (simp_all add: run_arm_collects)

interpretation types: collected lx env l_file_type "file_types lx" for lx env
  by unfold_locales (simp_all add: run_arm_collects)

interpretation paths: collected lx env l_path "start_paths lx env" for lx env
  by unfold_locales (simp_all add: run_arm_collects start_paths_def)

interpretation times: collected lx env "\<lambda>l. p_times (l_meta l)" "time_tests lx" for lx env
  by unfold_locales (simp_all add: run_arm_meta)

interpretation newers: collected lx env "\<lambda>l. p_newer (l_meta l)" "newer_tests env" for lx env
  by unfold_locales (simp_all add: run_arm_meta)

interpretation max_depth: overridden lx env l_max_depth "number_by (lx_parse_usize lx) ArmMaxDepth" for lx env
  by unfold_locales (simp_all add: run_arm_overrides)

interpretation min_depth: overridden lx env l_min_depth "number_by (lx_parse_usize lx) ArmMinDepth" for lx env
  by unfold_locales (simp_all add: run_arm_overrides)

interpretation scan_rate: overridden lx env l_max_scan_rate "number_by (lx_parse_u32 lx) ArmScanRate" for lx env
  by unfold_locales (simp_all add: run_arm_overrides)

interpretation max_results: overridden lx env l_max_results "result_limits lx" for lx env
  by unfold_locales (simp_all add: run_arm_overrides)

interpretation threads: overridden lx env l_threads "parsed_by lx [ArmThreads] parse_threads" for lx env
  by unfold_locales (simp_all add: run_arm_overrides)

interpretation size_test: overridden lx env "\<lambda>l. p_size (l_meta l)" "parsed_by lx [ArmSize] size_parse" for lx env
  by unfold_locales (simp_all add: run_arm_meta)

interpretation perm_test: overridden lx env "\<lambda>l. p_perm (l_meta l)" "parsed_by lx [ArmPerm] perm_parse" for lx env
  by unfold_locales (simp_all add: run_arm_meta)

interpretation uid_test: overridden lx env "\<lambda>l. p_uid (l_meta l)" "uids lx env" for lx env
  by unfold_locales (simp_all add: run_arm_meta)

interpretation gid_test: overridden lx env "\<lambda>l. p_gid (l_meta l)" "gids lx env" for lx env
  by unfold_locales (simp_all add: run_arm_meta)

interpretation links_test: overridden lx env "\<lambda>l. p_links (l_meta l)" "parsed_by lx [ArmLinks] id_parse" for lx env
  by unfold_locales (simp_all add: run_arm_meta)

interpretation inum_test: overridden lx env "\<lambda>l. p_inum (l_meta l)" "parsed_by lx [ArmInum] id_parse" for lx env
  by unfold_locales (simp_all add: run_arm_meta)

interpretation access: accumulated lx env l_access "\<lambda>i b. b OR access_bits i" for lx env
  by unfold_locales (simp_all add: run_arm_overrides)

definition mount_choice :: "item \<Rightarrow> bool list" where
  "mount_choice i = (if fst i = Some ArmOneFs then [True] else if fst i = Some ArmCrossFs then [False] else [])"

definition case_arms :: "arm set" where
  "case_arms = {ArmIcase, ArmIname, ArmIregex, ArmIpath, ArmIlname}"

definition flag :: "arm set \<Rightarrow> item \<Rightarrow> bool" where
  "flag ms i = (case fst i of None \<Rightarrow> False | Some m \<Rightarrow> m \<in> ms)"

interpretation follow: accumulated lx env l_follow_symlinks "\<lambda>i b. b \<or> flag {ArmFollow} i" for lx env
  by unfold_locales (simp_all add: run_arm_switches flag_def)

interpretation idle: accumulated lx env l_idle "\<lambda>i b. b \<or> flag {ArmIdle} i" for lx env
  by unfold_locales (simp_all add: run_arm_switches flag_def)

interpretation null: accumulated lx env l_null "\<lambda>i b. b \<or> flag {ArmNull} i" for lx env
  by unfold_locales (simp_all add: run_arm_switches flag_def)

interpretation ignore_case: accumulated lx env l_case_insensitive "\<lambda>i b. b \<or> flag case_arms i" for lx env
  by unfold_locales (simp_all add: run_arm_switches flag_def case_arms_def)

interpretation nouser: accumulated lx env "\<lambda>l. p_nouser (l_meta l)" "\<lambda>i b. b \<or> flag {ArmNouser} i" for lx env
  by unfold_locales (simp_all add: run_arm_meta flag_def)

interpretation nogroup: accumulated lx env "\<lambda>l. p_nogroup (l_meta l)" "\<lambda>i b. b \<or> flag {ArmNogroup} i" for lx env
  by unfold_locales (simp_all add: run_arm_meta flag_def)

interpretation mounts: accumulated lx env l_one_filesystem
    "\<lambda>i b. case mount_choice i of [] \<Rightarrow> b | c # _ \<Rightarrow> c" for lx env
  by unfold_locales (simp_all add: run_arm_switches mount_choice_def)

lemma fold_some: "fold (\<lambda>i b. b \<or> P i) xs b \<longleftrightarrow> b \<or> list_ex P xs"
  by (induction xs arbitrary: b) auto

lemma fold_mounts:
  "fold (\<lambda>i b. case mount_choice i of [] \<Rightarrow> b | c # _ \<Rightarrow> c) xs b = (case last_of mount_choice xs of None \<Rightarrow> b | Some c \<Rightarrow> c)"
  by (induction xs arbitrary: b) (simp_all add: last_of_def all_of_def mount_choice_def Let_def)

section \<open>The meaning of a command line\<close>

text \<open>The arguments that a list of options and operands stands for.\<close>

definition metadata_tests :: "'p lexopt \<Rightarrow> parse_env \<Rightarrow> item list \<Rightarrow> Predicates" where
  "metadata_tests lx env is =
     \<lparr>p_size = last_of (parsed_by lx [ArmSize] size_parse) is, p_times = all_of (time_tests lx) is,
      p_perm = last_of (parsed_by lx [ArmPerm] perm_parse) is,
      p_uid = last_of (uids lx env) is, p_gid = last_of (gids lx env) is,
      p_links = last_of (parsed_by lx [ArmLinks] id_parse) is, p_inum = last_of (parsed_by lx [ArmInum] id_parse) is,
      p_newer = all_of (newer_tests env) is,
      p_nouser = list_ex (flag {ArmNouser}) is, p_nogroup = list_ex (flag {ArmNogroup}) is\<rparr>"

definition meaning_of :: "'p lexopt \<Rightarrow> parse_env \<Rightarrow> item list \<Rightarrow> Args" where
  "meaning_of lx env is =
     \<lparr>a_follow_symlinks = list_ex (flag {ArmFollow}) is,
      a_one_filesystem = (case last_of mount_choice is of None \<Rightarrow> True | Some c \<Rightarrow> c),
      a_threads = (case last_of (parsed_by lx [ArmThreads] parse_threads) is of Some n \<Rightarrow> n
         | None \<Rightarrow> if list_ex (flag {ArmIdle}) is then 2 else default_threads env),
      a_idle = list_ex (flag {ArmIdle}) is,
      a_max_depth = last_of (number_by (lx_parse_usize lx) ArmMaxDepth) is,
      a_min_depth = last_of (number_by (lx_parse_usize lx) ArmMinDepth) is,
      a_max_scan_rate = last_of (number_by (lx_parse_u32 lx) ArmScanRate) is,
      a_max_results = last_of (result_limits lx) is,
      a_name = then_some (all_of (texts lx [ArmName, ArmIname]) is),
      a_regex = then_some (all_of (texts lx [ArmRegex, ArmIregex]) is),
      a_case_insensitive = list_ex (flag case_arms) is,
      a_file_type = (let ts = all_of (file_types lx) is in if ts = [] then [SelDirectory, SelFile, SelSymlink] else ts),
      a_meta = metadata_tests lx env is,
      a_path_glob = then_some (all_of (texts lx [ArmPath, ArmIpath]) is),
      a_lname = then_some (all_of (texts lx [ArmLname, ArmIlname]) is),
      a_access = fold (\<lambda>i b. b OR access_bits i) is 0,
      a_exclude = then_some (all_of (texts lx [ArmExclude]) is),
      a_null = list_ex (flag {ArmNull}) is,
      a_path = all_of (start_paths lx env) is\<rparr>"

lemma initial_simps [simp]:
  "l_follow_symlinks initial_locals = False" "l_one_filesystem initial_locals = True" "l_threads initial_locals = None"
  "l_idle initial_locals = False" "l_max_depth initial_locals = None" "l_min_depth initial_locals = None"
  "l_max_scan_rate initial_locals = None" "l_max_results initial_locals = None" "l_name initial_locals = []"
  "l_regex initial_locals = []" "l_case_insensitive initial_locals = False" "l_file_type initial_locals = []"
  "l_meta initial_locals = default_predicates" "l_path_glob initial_locals = []" "l_lname initial_locals = []"
  "l_access initial_locals = 0" "l_exclude initial_locals = []" "l_null initial_locals = False" "l_path initial_locals = []"
  by (simp_all add: initial_locals_def)

lemma reads_names:
  assumes "reads lx env initial_locals p is l p'"
  shows "l_name l = all_of (texts lx [ArmName, ArmIname]) is" "l_regex l = all_of (texts lx [ArmRegex, ArmIregex]) is"
    "l_path l = all_of (start_paths lx env) is"
  using names.collects [OF assms] regexes.collects [OF assms] paths.collects [OF assms] by simp_all

lemma reads_metadata:
  assumes "reads lx env initial_locals p is l p'"
  shows "l_meta l = metadata_tests lx env is"
proof -
  have d: "p_size default_predicates = None" "p_times default_predicates = []" "p_perm default_predicates = None"
    "p_uid default_predicates = None" "p_gid default_predicates = None" "p_links default_predicates = None"
    "p_inum default_predicates = None" "p_newer default_predicates = []"
    "\<not> p_nouser default_predicates" "\<not> p_nogroup default_predicates"
    by (simp_all add: default_predicates_def)
  show ?thesis
    unfolding metadata_tests_def
    using size_test.last_wins [OF assms] times.collects [OF assms] perm_test.last_wins [OF assms]
      uid_test.last_wins [OF assms] gid_test.last_wins [OF assms] links_test.last_wins [OF assms]
      inum_test.last_wins [OF assms] newers.collects [OF assms] nouser.folded [OF assms] nogroup.folded [OF assms]
    by (intro Predicates.equality) (simp_all add: d fold_some)
qed

lemma reads_meaning:
  assumes "reads lx env initial_locals p is l p'"
  shows "finish env l = Inr (Run a) \<longleftrightarrow>
    (l_name l = [] \<or> l_regex l = []) \<and> l_path l \<noteq> [] \<and> a = meaning_of lx env is"
proof -
  note fields = follow.folded [OF assms] mounts.folded [OF assms] idle.folded [OF assms] null.folded [OF assms]
    ignore_case.folded [OF assms] access.folded [OF assms] max_depth.last_wins [OF assms] min_depth.last_wins [OF assms]
    scan_rate.last_wins [OF assms] max_results.last_wins [OF assms] threads.last_wins [OF assms]
    names.collects [OF assms] regexes.collects [OF assms] path_globs.collects [OF assms] lnames.collects [OF assms]
    excludes.collects [OF assms] types.collects [OF assms] paths.collects [OF assms] reads_metadata [OF assms]
  show ?thesis
    using fields by (auto simp: finish_def meaning_of_def fold_some fold_mounts Let_def)
qed

lemma reads_loop: "reads lx env l p is l' p' \<Longrightarrow> parse_loop lx env l p = parse_loop lx env l' p'"
proof (induction rule: reads.induct)
  case (reads_option p a p1 m l l1 p2 "is" l2 p3)
  have "parse_loop lx env l p = parse_loop lx env l1 p2"
    using reads_option.hyps(1-3) by (subst parse_loop.simps) (simp add: handle_arg_def)
  with reads_option.IH show ?case by simp
next
  case (reads_operand p v p1 s q l "is" l2 p3)
  have "parse_loop lx env l p = parse_loop lx env (l\<lparr>l_path := l_path l @ [q]\<rparr>) p1"
    using reads_operand.hyps(1-3) by (subst parse_loop.simps) (simp add: handle_arg_def)
  with reads_operand.IH show ?case by simp
qed simp

text \<open>
  C4. What an accepted command line means, for every option: it is accepted exactly when its arguments can be read to the
  end as options with their values and operands, at least one operand is there and not both \<open>--name\<close> and \<open>--regex\<close>; and
  then it stands for \<open>meaning_of\<close>: of the limits, the thread count and the \<open>size\<close>, \<open>perm\<close>, owner, link and inode tests the
  last one given counts (\<open>-user\<close> and \<open>--uid\<close> being one option, \<open>--quit\<close> a limit of 1); patterns, types, time tests
  and reference files add up, in order; the order of the options among each other does not matter otherwise.
\<close>

theorem command_line_meaning:
  "parse_inner lx env argv = Some (Some (Inr (Run a))) \<longleftrightarrow>
     (\<exists>is l p p'. reads lx env initial_locals (lx_from_iter lx (map normalize_arg argv)) is l p
        \<and> lx_next lx p = Inr (None, p')
        \<and> all_of (start_paths lx env) is \<noteq> []
        \<and> (all_of (texts lx [ArmName, ArmIname]) is = [] \<or> all_of (texts lx [ArmRegex, ArmIregex]) is = [])
        \<and> a = meaning_of lx env is)"
proof
  assume "parse_inner lx env argv = Some (Some (Inr (Run a)))"
  then obtain as l p p' where s: "parse_steps lx env initial_locals (lx_from_iter lx (map normalize_arg argv)) as l p"
    "lx_next lx p = Inr (None, p')" "finish env l = Inr (Run a)"
    using parse_loop_steps [of lx env initial_locals _ "Some (Inr (Run a))" a] unfolding parse_inner_def by blast
  from steps_read [OF s(1)] obtain "is" where
    r: "reads lx env initial_locals (lx_from_iter lx (map normalize_arg argv)) is l p" by blast
  with s(2,3) show "\<exists>is l p p'. reads lx env initial_locals (lx_from_iter lx (map normalize_arg argv)) is l p
        \<and> lx_next lx p = Inr (None, p') \<and> all_of (start_paths lx env) is \<noteq> []
        \<and> (all_of (texts lx [ArmName, ArmIname]) is = [] \<or> all_of (texts lx [ArmRegex, ArmIregex]) is = [])
        \<and> a = meaning_of lx env is"
    using reads_meaning [OF r] unfolding reads_names [OF r] by blast
next
  assume "\<exists>is l p p'. reads lx env initial_locals (lx_from_iter lx (map normalize_arg argv)) is l p
        \<and> lx_next lx p = Inr (None, p') \<and> all_of (start_paths lx env) is \<noteq> []
        \<and> (all_of (texts lx [ArmName, ArmIname]) is = [] \<or> all_of (texts lx [ArmRegex, ArmIregex]) is = [])
        \<and> a = meaning_of lx env is"
  then obtain "is" l p p' where r: "reads lx env initial_locals (lx_from_iter lx (map normalize_arg argv)) is l p"
    and e: "lx_next lx p = Inr (None, p')" "all_of (start_paths lx env) is \<noteq> []"
      "all_of (texts lx [ArmName, ArmIname]) is = [] \<or> all_of (texts lx [ArmRegex, ArmIregex]) is = []"
      "a = meaning_of lx env is" by blast
  have "finish env l = Inr (Run a)" using reads_meaning [OF r] e(2-4) unfolding reads_names [OF r] by blast
  then have "parse_loop lx env l p = Some (Some (Inr (Run a)))" using e(1) by (simp add: parse_loop.simps [of lx env l p])
  then show "parse_inner lx env argv = Some (Some (Inr (Run a)))" by (simp add: parse_inner_def reads_loop [OF r])
qed

end
