(* ===== verification/Walk.thy ===== *)
theory Walk
  imports Args "HOL-Library.Multiset"
begin

text \<open>
  The parallel walker of \<open>src/walk.rs\<close>: tasks, the lazy metadata handle, the per-task code
  (\<open>process\<close>, \<open>descend\<close> and its per-entry closure), and the work-stealing engine around it
  (\<open>walk_parallel\<close>, \<open>run_worker\<close>, \<open>find_task\<close>) as a step relation over all workers.

  The platform leaf (\<open>walk/unix.rs\<close>, \<open>walk/fallback.rs\<close>) is the record \<open>platform\<close> of its
  operations; the theories of the leaves give its instances. They are functions: the file system
  stands still during one step; \<open>Changing\<close> lets it change between steps. An exclude set is the \<open>is_match\<close> of the compiled glob set.

  One step of the relation is one atomic action of one worker: a load or store of \<open>pending\<close> or
  \<open>quit\<close>, a deque operation, one call of the visitor, or opening one directory.
\<close>

section \<open>Entries, tasks and the metadata handle\<close>

datatype WalkState = WalkContinue | WalkQuit

record Entry =
  e_path :: path
  e_file_type :: EntryType
  e_depth :: usize

definition entry_file_name :: "Entry \<Rightarrow> string" where
  "entry_file_name e = (case path_file_name (e_path e) of Some n \<Rightarrow> n | None \<Rightarrow> e_path e)"

record 'fd Task =
  t_path :: path
  t_parent :: "'fd option"
  t_follow :: bool
  t_depth :: usize
  t_root_dev :: u64
  t_ancestors :: "(u64 \<times> u64) list option"

text \<open>The operations of the platform leaf; an error is its errno.\<close>

record 'fd platform =
  pf_path_id :: "path \<Rightarrow> int + u64 \<times> u64"
  pf_open_root :: "path \<Rightarrow> bool \<Rightarrow> int + 'fd"
  pf_open_child :: "'fd \<Rightarrow> string \<Rightarrow> path \<Rightarrow> bool \<Rightarrow> int + 'fd"
  pf_dir_id :: "'fd \<Rightarrow> int + u64 \<times> u64"
  pf_for_each_entry :: "'fd \<Rightarrow> path \<Rightarrow> (path \<times> string \<times> EntryType) list"
  pf_stat_at :: "'fd \<Rightarrow> string \<Rightarrow> bool \<Rightarrow> u32 \<Rightarrow> int + Meta"
  pf_stat_root :: "path \<Rightarrow> bool \<Rightarrow> u32 \<Rightarrow> int + Meta"
  pf_access_at :: "'fd \<Rightarrow> string \<Rightarrow> u8 \<Rightarrow> bool"
  pf_access_root :: "path \<Rightarrow> u8 \<Rightarrow> bool"
  pf_readlink_at :: "'fd \<Rightarrow> string \<Rightarrow> osstring option"
  pf_readlink_root :: "path \<Rightarrow> osstring option"

datatype 'fd StatSrc = StatChild 'fd string | StatRoot path

record 'fd StatAt =
  sa_src :: "'fd StatSrc"
  sa_follow :: bool

definition stat_child :: "'fd \<Rightarrow> string \<Rightarrow> bool \<Rightarrow> 'fd StatAt" where
  "stat_child dir name follow = \<lparr>sa_src = StatChild dir name, sa_follow = follow\<rparr>"

definition stat_root :: "path \<Rightarrow> bool \<Rightarrow> 'fd StatAt" where
  "stat_root p follow = \<lparr>sa_src = StatRoot p, sa_follow = follow\<rparr>"

definition stat_fetch :: "'fd platform \<Rightarrow> 'fd StatAt \<Rightarrow> u32 \<Rightarrow> int + Meta" where
  "stat_fetch pf st msk =
     (case sa_src st of
        StatChild dir name \<Rightarrow> pf_stat_at pf dir name (sa_follow st) msk
      | StatRoot p \<Rightarrow> pf_stat_root pf p (sa_follow st) msk)"

definition stat_access :: "'fd platform \<Rightarrow> 'fd StatAt \<Rightarrow> u8 \<Rightarrow> bool" where
  "stat_access pf st mode =
     (case sa_src st of
        StatChild dir name \<Rightarrow> pf_access_at pf dir name mode
      | StatRoot p \<Rightarrow> pf_access_root pf p mode)"

definition stat_readlink :: "'fd platform \<Rightarrow> 'fd StatAt \<Rightarrow> osstring option" where
  "stat_readlink pf st =
     (case sa_src st of
        StatChild dir name \<Rightarrow> pf_readlink_at pf dir name
      | StatRoot p \<Rightarrow> pf_readlink_root pf p)"

section \<open>Processing one task\<close>

text \<open>
  The shared read-only state of a run. The limiter only matters by its presence: without it
  \<open>acquire\<close> is not called. A visitor is a function on its captured state.
\<close>

record WalkCtx =
  ctx_args :: Args
  ctx_limited :: bool
  ctx_exclude :: "(string \<Rightarrow> bool) option"

type_synonym ('fd, 'v) visitor = "'v \<Rightarrow> Entry \<Rightarrow> 'fd StatAt \<Rightarrow> WalkState \<times> 'v"

definition descends_into :: "EntryType \<Rightarrow> Args \<Rightarrow> bool" where
  "descends_into ty args = (case ty of Dir \<Rightarrow> True | Symlink \<Rightarrow> a_follow_symlinks args | _ \<Rightarrow> False)"

definition root_entry :: "'fd Task \<Rightarrow> Entry" where
  "root_entry t = \<lparr>e_path = t_path t, e_file_type = Dir, e_depth = t_depth t\<rparr>"

text \<open>The locals of \<open>descend\<close> once the directory is open and accepted.\<close>

record 'fd descent =
  d_dir :: 'fd
  d_child_ancestors :: "(u64 \<times> u64) list option"
  d_child_depth :: usize
  d_enqueue_children :: bool
  d_root_dev :: u64

definition open_task :: "'fd platform \<Rightarrow> 'fd Task \<Rightarrow> int + 'fd" where
  "open_task pf t =
     (case t_parent t of
        None \<Rightarrow> pf_open_root pf (t_path t) (t_follow t)
      | Some parent \<Rightarrow>
          (let leaf = (case path_file_name (t_path t) of Some n \<Rightarrow> n | None \<Rightarrow> t_path t)
           in pf_open_child pf parent leaf (t_path t) (t_follow t)))"

text \<open>
  \<open>descend\<close> up to the read loop: the depth cut, the token (\<open>acquired\<close> is what the limiter's
  \<open>acquire\<close> returned), opening, the mount-point and the cycle test.
\<close>

definition descend_open :: "WalkCtx \<Rightarrow> 'fd platform \<Rightarrow> 'fd Task \<Rightarrow> bool \<Rightarrow> 'fd descent option" where
  "descend_open ctx pf t acquired =
     (if (case a_max_depth (ctx_args ctx) of Some mx \<Rightarrow> t_depth t \<ge> mx | None \<Rightarrow> False) then None
      else if ctx_limited ctx \<and> \<not> acquired then None
      else case open_task pf t of
        Inl _ \<Rightarrow> None
      | Inr dir \<Rightarrow>
          (case pf_dir_id pf dir of
             Inl _ \<Rightarrow> None
           | Inr (dev, ino) \<Rightarrow>
               if a_one_filesystem (ctx_args ctx) \<and> dev \<noteq> t_root_dev t then None
               else if (case t_ancestors t of Some anc \<Rightarrow> (dev, ino) \<in> set anc | None \<Rightarrow> False) then None
               else Some
                 \<lparr>d_dir = dir,
                  d_child_ancestors = map_option (\<lambda>a. a @ [(dev, ino)]) (t_ancestors t),
                  d_child_depth = t_depth t + 1,
                  d_enqueue_children =
                    (case a_max_depth (ctx_args ctx) of Some mx \<Rightarrow> t_depth t + 1 < mx | None \<Rightarrow> True),
                  d_root_dev = t_root_dev t\<rparr>))"

text \<open>
  The closure given to \<open>for_each_entry\<close>: an excluded entry is skipped without a visit; a visitor
  that quits stops the loop; otherwise the entry may become a task.
\<close>

datatype 'fd read_result = Skipped | Stopped | Visited "'fd Task option"

definition child_entry :: "'fd descent \<Rightarrow> path \<times> string \<times> EntryType \<Rightarrow> Entry" where
  "child_entry d x =
     (case x of (p, leaf, ty) \<Rightarrow> \<lparr>e_path = p, e_file_type = ty, e_depth = d_child_depth d\<rparr>)"

definition child_task :: "WalkCtx \<Rightarrow> 'fd descent \<Rightarrow> path \<times> string \<times> EntryType \<Rightarrow> 'fd Task option" where
  "child_task ctx d x =
     (case x of (p, leaf, ty) \<Rightarrow>
        if d_enqueue_children d \<and> descends_into ty (ctx_args ctx)
        then Some \<lparr>t_path = p, t_parent = Some (d_dir d), t_follow = (ty = Symlink),
                   t_depth = d_child_depth d, t_root_dev = d_root_dev d,
                   t_ancestors = d_child_ancestors d\<rparr>
        else None)"

definition excluded :: "WalkCtx \<Rightarrow> string \<Rightarrow> bool" where
  "excluded ctx leaf = (case ctx_exclude ctx of Some ex \<Rightarrow> ex leaf | None \<Rightarrow> False)"

text \<open>The pairs the visitor is called with: for a root, and for an entry of a directory.\<close>

definition root_visit :: "WalkCtx \<Rightarrow> 'fd Task \<Rightarrow> Entry \<times> 'fd StatAt" where
  "root_visit ctx t = (root_entry t, stat_root (t_path t) (a_follow_symlinks (ctx_args ctx)))"

definition child_visit :: "WalkCtx \<Rightarrow> 'fd descent \<Rightarrow> path \<times> string \<times> EntryType \<Rightarrow> Entry \<times> 'fd StatAt" where
  "child_visit ctx d x =
     (case x of (p, leaf, ty) \<Rightarrow>
        (child_entry d x, stat_child (d_dir d) leaf (a_follow_symlinks (ctx_args ctx))))"

definition call_visitor :: "('fd, 'v) visitor \<Rightarrow> 'v \<Rightarrow> Entry \<times> 'fd StatAt \<Rightarrow> WalkState \<times> 'v" where
  "call_visitor visitor v ev = visitor v (fst ev) (snd ev)"

definition read_entry ::
  "WalkCtx \<Rightarrow> ('fd, 'v) visitor \<Rightarrow> 'fd descent \<Rightarrow> path \<times> string \<times> EntryType \<Rightarrow> 'v \<Rightarrow> 'fd read_result \<times> 'v" where
  "read_entry ctx visitor d x v =
     (case x of (p, leaf, ty) \<Rightarrow>
        if excluded ctx leaf then (Skipped, v)
        else
          (case call_visitor visitor v (child_visit ctx d x) of
             (WalkQuit, v') \<Rightarrow> (Stopped, v')
           | (WalkContinue, v') \<Rightarrow> (Visited (child_task ctx d x), v')))"

text \<open>
  \<open>process\<close> and \<open>descend\<close> as one worker runs them when nothing else interferes: the visitor
  state, the value of \<open>quit\<close> and the tasks pushed, in push order.
\<close>

fun read_entries ::
  "WalkCtx \<Rightarrow> ('fd, 'v) visitor \<Rightarrow> 'fd descent \<Rightarrow> (path \<times> string \<times> EntryType) list \<Rightarrow> 'v \<Rightarrow>
   'v \<times> bool \<times> 'fd Task list" where
  "read_entries ctx visitor d [] v = (v, False, [])"
| "read_entries ctx visitor d (x # xs) v =
     (case read_entry ctx visitor d x v of
        (Skipped, v') \<Rightarrow> read_entries ctx visitor d xs v'
      | (Stopped, v') \<Rightarrow> (v', True, [])
      | (Visited c, v') \<Rightarrow>
          (case read_entries ctx visitor d xs v' of
             (v'', q, ts) \<Rightarrow> (v'', q, (case c of None \<Rightarrow> ts | Some t \<Rightarrow> t # ts))))"

definition descend ::
  "WalkCtx \<Rightarrow> 'fd platform \<Rightarrow> ('fd, 'v) visitor \<Rightarrow> bool \<Rightarrow> 'fd Task \<Rightarrow> 'v \<Rightarrow> 'v \<times> bool \<times> 'fd Task list" where
  "descend ctx pf visitor acquired t v =
     (case descend_open ctx pf t acquired of
        None \<Rightarrow> (v, False, [])
      | Some d \<Rightarrow> read_entries ctx visitor d (pf_for_each_entry pf (d_dir d) (t_path t)) v)"

definition process ::
  "WalkCtx \<Rightarrow> 'fd platform \<Rightarrow> ('fd, 'v) visitor \<Rightarrow> bool \<Rightarrow> 'fd Task \<Rightarrow> 'v \<Rightarrow> 'v \<times> bool \<times> 'fd Task list" where
  "process ctx pf visitor acquired t v =
     (if t_parent t = None then
        (case call_visitor visitor v (root_visit ctx t) of
           (WalkQuit, v') \<Rightarrow> (v', True, [])
         | (WalkContinue, v') \<Rightarrow> descend ctx pf visitor acquired t v')
      else descend ctx pf visitor acquired t v)"

section \<open>The engine\<close>

text \<open>Where a worker stands in \<open>run_worker\<close> (and in the \<open>process\<close> it called).\<close>

datatype 'fd phase =
    LoopTop
  | Finding
  | NoTask
  | Begin "'fd Task"
  | Descending "'fd Task"
  | Reading "'fd descent" "(path \<times> string \<times> EntryType) list"
  | Queueing "'fd Task" "'fd descent" "(path \<times> string \<times> EntryType) list"
  | Finished
  | Exited

text \<open>
  The shared state: the injector, every worker's deque (newest task first), phase and visitor
  state, the two atomics, and the visits made so far, which the program does not keep.
\<close>

record ('fd, 'v) walk_state =
  ws_injector :: "'fd Task list"
  ws_local :: "nat \<Rightarrow> 'fd Task list"
  ws_phase :: "nat \<Rightarrow> 'fd phase"
  ws_visitor :: "nat \<Rightarrow> 'v"
  ws_pending :: nat
  ws_quit :: bool
  ws_log :: "(Entry \<times> 'fd StatAt) list"

definition n_workers :: "Args \<Rightarrow> nat" where
  "n_workers args = max (unat (a_threads args - 1)) 1"

definition root_task :: "Args \<Rightarrow> 'fd platform \<Rightarrow> path \<Rightarrow> 'fd Task option" where
  "root_task args pf root =
     (case pf_path_id pf root of
        Inl _ \<Rightarrow> None
      | Inr (dev, ino) \<Rightarrow> Some
          \<lparr>t_path = root, t_parent = None, t_follow = True, t_depth = 0, t_root_dev = dev,
           t_ancestors = (if a_follow_symlinks args then Some [] else None)\<rparr>)"

definition root_tasks :: "Args \<Rightarrow> 'fd platform \<Rightarrow> path list \<Rightarrow> 'fd Task list" where
  "root_tasks args pf roots = List.map_filter (root_task args pf) roots"

text \<open>The state \<open>walk_parallel\<close> starts its workers in.\<close>

definition walk_init :: "WalkCtx \<Rightarrow> 'fd platform \<Rightarrow> path list \<Rightarrow> (nat \<Rightarrow> 'v) \<Rightarrow> ('fd, 'v) walk_state" where
  "walk_init ctx pf roots make_visitor =
     \<lparr>ws_injector = root_tasks (ctx_args ctx) pf roots, ws_local = (\<lambda>_. []), ws_phase = (\<lambda>_. LoopTop),
      ws_visitor = make_visitor, ws_pending = length (root_tasks (ctx_args ctx) pf roots),
      ws_quit = False, ws_log = []\<rparr>"

abbreviation set_phase :: "nat \<Rightarrow> 'fd phase \<Rightarrow> ('fd, 'v) walk_state \<Rightarrow> ('fd, 'v) walk_state" where
  "set_phase w ph s \<equiv> s\<lparr>ws_phase := (ws_phase s)(w := ph)\<rparr>"

definition visit_effect ::
  "nat \<Rightarrow> Entry \<times> 'fd StatAt \<Rightarrow> 'v \<Rightarrow> ('fd, 'v) walk_state \<Rightarrow> ('fd, 'v) walk_state" where
  "visit_effect w ev v s = s\<lparr>ws_visitor := (ws_visitor s)(w := v), ws_log := ws_log s @ [ev]\<rparr>"

text \<open>
  The visitor call with what follows it in the worker's own code: \<open>Quit\<close> stores the flag and
  leaves the task. The three results of \<open>read_entry\<close> likewise.
\<close>

definition begin_root ::
  "WalkCtx \<Rightarrow> ('fd, 'v) visitor \<Rightarrow> nat \<Rightarrow> 'fd Task \<Rightarrow> ('fd, 'v) walk_state \<Rightarrow> ('fd, 'v) walk_state" where
  "begin_root ctx visitor w t s =
     (case call_visitor visitor (ws_visitor s w) (root_visit ctx t) of
        (WalkQuit, v') \<Rightarrow> set_phase w Finished ((visit_effect w (root_visit ctx t) v' s)\<lparr>ws_quit := True\<rparr>)
      | (WalkContinue, v') \<Rightarrow> set_phase w (Descending t) (visit_effect w (root_visit ctx t) v' s))"

definition begin_task ::
  "WalkCtx \<Rightarrow> ('fd, 'v) visitor \<Rightarrow> nat \<Rightarrow> 'fd Task \<Rightarrow> ('fd, 'v) walk_state \<Rightarrow> ('fd, 'v) walk_state" where
  "begin_task ctx visitor w t s =
     (if t_parent t = None then begin_root ctx visitor w t s else set_phase w (Descending t) s)"

definition descend_phase :: "WalkCtx \<Rightarrow> 'fd platform \<Rightarrow> 'fd Task \<Rightarrow> bool \<Rightarrow> 'fd phase" where
  "descend_phase ctx pf t acquired =
     (case descend_open ctx pf t acquired of
        None \<Rightarrow> Finished
      | Some d \<Rightarrow> Reading d (pf_for_each_entry pf (d_dir d) (t_path t)))"

definition read_one ::
  "WalkCtx \<Rightarrow> ('fd, 'v) visitor \<Rightarrow> nat \<Rightarrow> 'fd descent \<Rightarrow> path \<times> string \<times> EntryType \<Rightarrow>
   (path \<times> string \<times> EntryType) list \<Rightarrow> ('fd, 'v) walk_state \<Rightarrow> ('fd, 'v) walk_state" where
  "read_one ctx visitor w d x xs s =
     (case read_entry ctx visitor d x (ws_visitor s w) of
        (Skipped, _) \<Rightarrow> set_phase w (Reading d xs) s
      | (Stopped, v') \<Rightarrow> set_phase w Finished ((visit_effect w (child_visit ctx d x) v' s)\<lparr>ws_quit := True\<rparr>)
      | (Visited None, v') \<Rightarrow> set_phase w (Reading d xs) (visit_effect w (child_visit ctx d x) v' s)
      | (Visited (Some t), v') \<Rightarrow>
          (visit_effect w (child_visit ctx d x) v' (set_phase w (Queueing t d xs) s))
            \<lparr>ws_pending := ws_pending s + 1\<rparr>)"

text \<open>
  One step of worker \<open>w < n\<close>. A relaxed load of \<open>quit\<close> may miss a store of another worker, so
  the worker may go on (\<open>look\<close>) whatever the flag; a miss of \<open>find_task\<close> (\<open>miss\<close>) is always
  possible, since the queues are inspected one after the other. \<open>steal_batch_and_pop\<close> takes a
  nonempty batch off the injector, keeps one task and puts the others in the own deque.
\<close>

inductive walk_step ::
  "WalkCtx \<Rightarrow> 'fd platform \<Rightarrow> ('fd, 'v) visitor \<Rightarrow> nat \<Rightarrow> nat \<Rightarrow> ('fd, 'v) walk_state \<Rightarrow> ('fd, 'v) walk_state \<Rightarrow> bool"
  for ctx pf visitor n w s where
  quit_seen: "\<lbrakk>w < n; ws_phase s w = LoopTop; ws_quit s\<rbrakk> \<Longrightarrow>
    walk_step ctx pf visitor n w s (set_phase w Exited s)"
| look: "\<lbrakk>w < n; ws_phase s w = LoopTop\<rbrakk> \<Longrightarrow>
    walk_step ctx pf visitor n w s (set_phase w Finding s)"
| pop_local: "\<lbrakk>w < n; ws_phase s w = Finding; ws_local s w = t # ts\<rbrakk> \<Longrightarrow>
    walk_step ctx pf visitor n w s (set_phase w (Begin t) (s\<lparr>ws_local := (ws_local s)(w := ts)\<rparr>))"
| steal_injector: "\<lbrakk>w < n; ws_phase s w = Finding; ws_local s w = [];
    ws_injector s = t # batch @ rest; mset kept = mset batch\<rbrakk> \<Longrightarrow>
    walk_step ctx pf visitor n w s
      (set_phase w (Begin t) (s\<lparr>ws_injector := rest, ws_local := (ws_local s)(w := kept)\<rparr>))"
| steal_worker: "\<lbrakk>w < n; ws_phase s w = Finding; ws_local s w = []; w' < n;
    ws_local s w' = ts @ [t]\<rbrakk> \<Longrightarrow>
    walk_step ctx pf visitor n w s (set_phase w (Begin t) (s\<lparr>ws_local := (ws_local s)(w' := ts)\<rparr>))"
| miss: "\<lbrakk>w < n; ws_phase s w = Finding\<rbrakk> \<Longrightarrow>
    walk_step ctx pf visitor n w s (set_phase w NoTask s)"
| all_done: "\<lbrakk>w < n; ws_phase s w = NoTask; ws_pending s = 0\<rbrakk> \<Longrightarrow>
    walk_step ctx pf visitor n w s (set_phase w Exited s)"
| snooze: "\<lbrakk>w < n; ws_phase s w = NoTask; ws_pending s \<noteq> 0\<rbrakk> \<Longrightarrow>
    walk_step ctx pf visitor n w s (set_phase w LoopTop s)"
| begin_process: "\<lbrakk>w < n; ws_phase s w = Begin t\<rbrakk> \<Longrightarrow>
    walk_step ctx pf visitor n w s (begin_task ctx visitor w t s)"
| open_dir: "\<lbrakk>w < n; ws_phase s w = Descending t; acquired \<or> (ctx_limited ctx \<and> ws_quit s)\<rbrakk> \<Longrightarrow>
    walk_step ctx pf visitor n w s (set_phase w (descend_phase ctx pf t acquired) s)"
| read_next: "\<lbrakk>w < n; ws_phase s w = Reading d (x # xs)\<rbrakk> \<Longrightarrow>
    walk_step ctx pf visitor n w s (read_one ctx visitor w d x xs s)"
| read_done: "\<lbrakk>w < n; ws_phase s w = Reading d []\<rbrakk> \<Longrightarrow>
    walk_step ctx pf visitor n w s (set_phase w Finished s)"
| push_task: "\<lbrakk>w < n; ws_phase s w = Queueing t d xs\<rbrakk> \<Longrightarrow>
    walk_step ctx pf visitor n w s
      (set_phase w (Reading d xs) (s\<lparr>ws_local := (ws_local s)(w := t # ws_local s w)\<rparr>))"
| task_done: "\<lbrakk>w < n; ws_phase s w = Finished\<rbrakk> \<Longrightarrow>
    walk_step ctx pf visitor n w s (set_phase w LoopTop (s\<lparr>ws_pending := ws_pending s - 1\<rparr>))"

text \<open>The states \<open>walk_parallel\<close> can be in; it returns when every worker has exited.\<close>

inductive walk_reach ::
  "WalkCtx \<Rightarrow> 'fd platform \<Rightarrow> ('fd, 'v) visitor \<Rightarrow> nat \<Rightarrow> ('fd, 'v) walk_state \<Rightarrow> ('fd, 'v) walk_state \<Rightarrow> bool"
  for ctx pf visitor n s where
  reach_start: "walk_reach ctx pf visitor n s s"
| reach_step: "\<lbrakk>walk_reach ctx pf visitor n s s'; walk_step ctx pf visitor n w s' s''\<rbrakk> \<Longrightarrow>
    walk_reach ctx pf visitor n s s''"

definition walk_returned :: "nat \<Rightarrow> ('fd, 'v) walk_state \<Rightarrow> bool" where
  "walk_returned n s \<longleftrightarrow> (\<forall>w < n. ws_phase s w = Exited)"

definition walk_parallel ::
  "WalkCtx \<Rightarrow> 'fd platform \<Rightarrow> ('fd, 'v) visitor \<Rightarrow> path list \<Rightarrow> (nat \<Rightarrow> 'v) \<Rightarrow> ('fd, 'v) walk_state \<Rightarrow> bool" where
  "walk_parallel ctx pf visitor roots make_visitor s \<longleftrightarrow>
     walk_reach ctx pf visitor (n_workers (ctx_args ctx)) (walk_init ctx pf roots make_visitor) s
     \<and> walk_returned (n_workers (ctx_args ctx)) s"

end
