(* ===== verification/Walk_Engine.thy ===== *)
theory Walk_Engine
  imports Walk
begin

text \<open>
  Accounting for the work-stealing engine. A weight of tasks and worker phases that gives an idle
  worker nothing and a worker its task is conserved by every scheduling step (popping, stealing,
  queueing); a working step changes it by the worker's own phase only. Counting tasks with it gives
  the meaning of \<open>pending\<close>, from which termination detection follows.
\<close>

definition outstanding ::
  "('fd Task \<Rightarrow> 'm) \<Rightarrow> ('fd phase \<Rightarrow> 'm) \<Rightarrow> nat \<Rightarrow> ('fd, 'v) walk_state \<Rightarrow> 'm::comm_monoid_add" where
  "outstanding task_w phase_w n s =
     sum_list (map task_w (ws_injector s))
     + (\<Sum>w<n. sum_list (map task_w (ws_local s w)) + phase_w (ws_phase s w))"

lemma add_rotate: "a + (b + c) = c + a + (b :: 'm::comm_monoid_add)"
  by (simp only: ac_simps)

lemma sum_list_mset_cong:
  fixes f :: "'a \<Rightarrow> 'm::comm_monoid_add"
  assumes "mset xs = mset ys"
  shows "sum_list (map f xs) = sum_list (map f ys)"
proof -
  have "sum_mset (mset (map f xs)) = sum_mset (mset (map f ys))"
    using assms by (simp only: mset_map)
  then show ?thesis by (simp only: sum_mset_sum_list)
qed

fun working :: "'fd phase \<Rightarrow> bool" where
  "working (Begin _) = True"
| "working (Descending _) = True"
| "working (Reading _ _) = True"
| "working Finished = True"
| "working _ = False"

lemma begin_task_frame:
  assumes "s' = begin_task ctx visitor w t s"
  shows "ws_injector s' = ws_injector s" "ws_local s' = ws_local s"
    "ws_phase s' = (ws_phase s)(w := ws_phase s' w)" "ws_pending s' = ws_pending s"
  unfolding assms
  by (simp_all add: begin_task_def begin_root_def visit_effect_def split: WalkState.split prod.split)

lemma read_one_frame:
  assumes "s' = read_one ctx visitor w d x xs s"
  shows "ws_injector s' = ws_injector s" "ws_local s' = ws_local s"
    "ws_phase s' = (ws_phase s)(w := ws_phase s' w)"
  unfolding assms
  by (simp_all add: read_one_def visit_effect_def split: read_result.split prod.split option.split)

lemma working_frame:
  assumes "walk_step ctx pf visitor n w s s'" "working (ws_phase s w)"
  shows "w < n \<and> ws_injector s' = ws_injector s \<and> ws_local s' = ws_local s
    \<and> ws_phase s' = (ws_phase s)(w := ws_phase s' w)"
  using assms
proof cases
  case (begin_process t)
  show ?thesis using begin_task_frame [OF begin_process(1)] begin_process(2) by blast
next
  case (read_next d x xs)
  show ?thesis using read_one_frame [OF read_next(1)] read_next(2) by blast
qed simp_all

locale task_weight =
  fixes task_w :: "'fd Task \<Rightarrow> 'm::comm_monoid_add" and phase_w :: "'fd phase \<Rightarrow> 'm"
  assumes idle: "phase_w LoopTop = 0" "phase_w Finding = 0" "phase_w NoTask = 0" "phase_w Exited = 0"
    and taken: "phase_w (Begin t) = task_w t"
    and queueing: "phase_w (Queueing t d xs) = task_w t + phase_w (Reading d xs)"
begin

abbreviation load :: "('fd, 'v) walk_state \<Rightarrow> nat \<Rightarrow> 'm" where
  "load s w \<equiv> sum_list (map task_w (ws_local s w)) + phase_w (ws_phase s w)"

lemma outstanding_split:
  assumes "w < n" "\<And>i. i < n \<Longrightarrow> i \<noteq> w \<Longrightarrow> load s' i = load s i"
  obtains R where "outstanding task_w phase_w n s = R + sum_list (map task_w (ws_injector s)) + load s w"
    and "outstanding task_w phase_w n s' = R + sum_list (map task_w (ws_injector s')) + load s' w"
proof -
  let ?R = "sum (load s) ({..<n} - {w})"
  have out: "outstanding task_w phase_w n u = sum_list (map task_w (ws_injector u)) + sum (load u) {..<n}"
    for u :: "('fd, 'v) walk_state" by (simp add: outstanding_def)
  have rem: "sum (load u) {..<n} = load u w + sum (load u) ({..<n} - {w})" for u :: "('fd, 'v) walk_state"
    using assms(1) by (intro sum.remove) auto
  have same: "sum (load s') ({..<n} - {w}) = ?R"
    by (rule sum.cong) (use assms(2) in auto)
  show ?thesis
  proof (rule that [of ?R])
    show "outstanding task_w phase_w n s = ?R + sum_list (map task_w (ws_injector s)) + load s w"
      unfolding out [of s] rem [of s] by (rule add_rotate)
    show "outstanding task_w phase_w n s' = ?R + sum_list (map task_w (ws_injector s')) + load s' w"
      unfolding out [of s'] rem [of s'] same by (rule add_rotate)
  qed
qed

lemma phase_change:
  assumes "w < n" "ws_injector s' = ws_injector s" "ws_local s' = ws_local s"
    "ws_phase s' = (ws_phase s)(w := ph)"
  shows "outstanding task_w phase_w n s' + phase_w (ws_phase s w) = outstanding task_w phase_w n s + phase_w ph"
  by (rule outstanding_split [of w n s' s]) (use assms in \<open>simp_all add: ac_simps\<close>)

lemma steal_worker_conserves:
  assumes "w < n" "w' < n" "ws_phase s w = Finding" "ws_local s w = []" "ws_local s w' = ts @ [t]"
  shows "outstanding task_w phase_w n (set_phase w (Begin t) (s\<lparr>ws_local := (ws_local s)(w' := ts)\<rparr>))
    = outstanding task_w phase_w n s"
proof -
  have ne: "w \<noteq> w'" using assms by auto
  let ?m = "s\<lparr>ws_local := (ws_local s)(w' := ts)\<rparr>"
  have "outstanding task_w phase_w n ?m + task_w t = outstanding task_w phase_w n s"
    by (rule outstanding_split [of w' n ?m s]) (use assms in \<open>simp_all add: ac_simps\<close>)
  moreover have "outstanding task_w phase_w n (set_phase w (Begin t) ?m)
      = outstanding task_w phase_w n ?m + task_w t"
    using phase_change [of w n "set_phase w (Begin t) ?m" ?m "Begin t"] assms ne
    by (simp add: idle taken)
  ultimately show ?thesis by simp
qed

lemma scheduling_conserves:
  assumes "walk_step ctx pf visitor n w s s'" "\<not> working (ws_phase s w)"
  shows "outstanding task_w phase_w n s' = outstanding task_w phase_w n s"
  using assms
proof cases
  case (pop_local t ts)
  show ?thesis
    by (rule outstanding_split [of w n s' s]) (use pop_local in \<open>simp_all add: idle taken ac_simps\<close>)
next
  case (steal_injector t batch rest kept)
  then have k: "sum_list (map task_w kept) = sum_list (map task_w batch)"
    by (intro sum_list_mset_cong)
  show ?thesis
    by (rule outstanding_split [of w n s' s])
       (use steal_injector k in \<open>simp_all add: idle taken ac_simps\<close>)
next
  case (steal_worker w' ts t)
  then show ?thesis using steal_worker_conserves by blast
next
  case (push_task t d xs)
  show ?thesis
    by (rule outstanding_split [of w n s' s]) (use push_task in \<open>simp_all add: queueing ac_simps\<close>)
qed (use phase_change [of w n s' s] in \<open>auto simp: idle\<close>)

lemma working_changes_phase:
  assumes "walk_step ctx pf visitor n w s s'" "working (ws_phase s w)"
  shows "outstanding task_w phase_w n s' + phase_w (ws_phase s w)
    = outstanding task_w phase_w n s + phase_w (ws_phase s' w)"
  using phase_change working_frame [OF assms] by blast

end

section \<open>What \<open>pending\<close> counts\<close>

fun held :: "'fd phase \<Rightarrow> nat" where
  "held (Begin _) = 1"
| "held (Descending _) = 1"
| "held (Reading _ _) = 1"
| "held (Queueing _ _ _) = 2"
| "held Finished = 1"
| "held _ = 0"

interpretation counting: task_weight "\<lambda>_. 1 :: nat" held
  by unfold_locales simp_all

abbreviation task_count :: "nat \<Rightarrow> ('fd, 'v) walk_state \<Rightarrow> nat" where
  "task_count n s \<equiv> outstanding (\<lambda>_. 1) held n s"

lemma held_working: "working ph \<Longrightarrow> held ph = 1"
  by (cases ph) simp_all

definition nothing_left :: "nat \<Rightarrow> ('fd, 'v) walk_state \<Rightarrow> bool" where
  "nothing_left n s \<longleftrightarrow> ws_injector s = [] \<and> (\<forall>w < n. ws_local s w = [] \<and> held (ws_phase s w) = 0)"

lemma task_count_0: "task_count n s = 0 \<longleftrightarrow> nothing_left n s"
  by (auto simp: outstanding_def nothing_left_def sum_list_triv)

lemma task_count_1: "w < n \<Longrightarrow> held (ws_phase s w) \<le> task_count n s"
proof -
  assume "w < n"
  then have "sum_list (map (\<lambda>_. 1) (ws_local s w)) + held (ws_phase s w)
      \<le> (\<Sum>w<n. sum_list (map (\<lambda>_. 1) (ws_local s w)) + held (ws_phase s w))"
    by (intro member_le_sum) auto
  then show ?thesis by (simp add: outstanding_def)
qed

text \<open>How a step moves the two atomics.\<close>

lemma begin_task_held: "held (ws_phase (begin_task ctx visitor w t s) w) = 1"
  by (simp add: begin_task_def begin_root_def visit_effect_def split: WalkState.split prod.split)

lemma read_one_held:
  "ws_pending (read_one ctx visitor w d x xs s) + 1
   = ws_pending s + held (ws_phase (read_one ctx visitor w d x xs s) w)"
  by (simp add: read_one_def visit_effect_def split: read_result.split prod.split option.split)

lemma descend_phase_held: "held (descend_phase ctx pf t a) = 1"
  by (simp add: descend_phase_def split: option.split)

lemma pending_scheduling:
  "walk_step ctx pf visitor n w s s' \<Longrightarrow> \<not> working (ws_phase s w) \<Longrightarrow> ws_pending s' = ws_pending s"
  by (cases rule: walk_step.cases) auto

lemma pending_working:
  assumes "walk_step ctx pf visitor n w s s'" "working (ws_phase s w)" "0 < ws_pending s"
  shows "ws_pending s' + 1 = ws_pending s + held (ws_phase s' w)"
  using assms
proof cases
  case (begin_process t)
  then show ?thesis
    using begin_task_held [of ctx visitor w t s] begin_task_frame(4) [OF begin_process(1)] by simp
next
  case (read_next d x xs)
  then show ?thesis using read_one_held [of ctx visitor w d x xs s] by simp
qed (auto simp: descend_phase_held)

lemma step_worker: "walk_step ctx pf visitor n w s s' \<Longrightarrow> w < n"
  by (cases rule: walk_step.cases) auto

lemma pending_step:
  assumes st: "walk_step ctx pf visitor n w s s'" and inv: "ws_pending s = task_count n s"
  shows "ws_pending s' = task_count n s'"
proof (cases "working (ws_phase s w)")
  case True
  have "held (ws_phase s w) \<le> task_count n s" by (rule task_count_1 [OF step_worker [OF st]])
  then have "0 < ws_pending s" using inv held_working [OF True] by simp
  then show ?thesis
    using pending_working [OF st True] counting.working_changes_phase [OF st True] inv
      held_working [OF True] by simp
next
  case False
  then show ?thesis
    using pending_scheduling [OF st False] counting.scheduling_conserves [OF st False] inv by simp
qed

lemma quit_stays:
  assumes "walk_step ctx pf visitor n w s s'" "ws_quit s"
  shows "ws_quit s'"
  using assms
  by cases
     (auto simp: begin_task_def begin_root_def read_one_def visit_effect_def
        split: WalkState.splits prod.splits read_result.splits option.splits)

lemma pending_init: "ws_pending (walk_init ctx pf roots mv) = task_count n (walk_init ctx pf roots mv)"
  by (simp add: walk_init_def outstanding_def sum_list_triv)

lemma pending_reach:
  "walk_reach ctx pf visitor n s0 s \<Longrightarrow> ws_pending s0 = task_count n s0 \<Longrightarrow> ws_pending s = task_count n s"
  by (induction rule: walk_reach.induct) (blast intro: pending_step)+

definition exit_ok :: "nat \<Rightarrow> ('fd, 'v) walk_state \<Rightarrow> bool" where
  "exit_ok n s \<longleftrightarrow> (\<exists>w < n. ws_phase s w = Exited) \<and> \<not> ws_quit s \<longrightarrow> nothing_left n s"

lemma nothing_left_step:
  assumes st: "walk_step ctx pf visitor n w s s'" and inv: "ws_pending s = task_count n s"
    and "nothing_left n s"
  shows "nothing_left n s'"
proof -
  have "held (ws_phase s w) = 0" using assms(3) step_worker [OF st] by (simp add: nothing_left_def)
  then have "\<not> working (ws_phase s w)" by (cases "ws_phase s w") simp_all
  then have "task_count n s' = task_count n s" by (rule counting.scheduling_conserves [OF st])
  then show ?thesis using assms(3) by (simp only: task_count_0 [symmetric])
qed

lemma step_exits:
  assumes "walk_step ctx pf visitor n w s s'" "ws_phase s' v = Exited" "ws_phase s v \<noteq> Exited"
  shows "ws_quit s \<or> ws_pending s = 0"
  using assms
  by cases (auto simp: begin_task_def begin_root_def read_one_def visit_effect_def descend_phase_def
      split: WalkState.splits prod.splits read_result.splits option.splits if_splits)

lemma exit_ok_step:
  assumes st: "walk_step ctx pf visitor n w s s'" and inv: "ws_pending s = task_count n s" and "exit_ok n s"
  shows "exit_ok n s'"
  unfolding exit_ok_def
proof (intro impI, elim conjE exE)
  fix v assume v: "v < n" "ws_phase s' v = Exited" and q: "\<not> ws_quit s'"
  then have nq: "\<not> ws_quit s" using quit_stays [OF st] by blast
  have "nothing_left n s"
  proof (cases "ws_phase s v = Exited")
    case True
    then show ?thesis using assms(3) v nq by (auto simp: exit_ok_def)
  next
    case False
    then show ?thesis using step_exits [OF st v(2)] nq inv task_count_0 by fastforce
  qed
  then show "nothing_left n s'" by (rule nothing_left_step [OF st inv])
qed

lemma exit_ok_reach:
  assumes "walk_reach ctx pf visitor n (walk_init ctx pf roots mv) s"
  shows "exit_ok n s"
  using assms
proof (induction rule: walk_reach.induct)
  case reach_start
  show ?case by (simp add: exit_ok_def walk_init_def)
next
  case (reach_step s' w s'')
  then show ?case using exit_ok_step pending_reach pending_init by blast
qed

end
