(* ===== verification/Walk_Tree.thy ===== *)
theory Walk_Tree
  imports Walk_Engine
begin

text \<open>
  What the parallel walk is meant to visit: the sequential tree walk \<open>walk_tree\<close>, by recursion on
  the children of a task, and the proof that every interleaving of the workers visits exactly its
  entries, each as often as the tree walk does. \<open>fits\<close> bounds the height of the tree below a task;
  it holds under \<open>--max-depth\<close>, and when symlinks are followed because of the cycle test.
\<close>

section \<open>The sequential walk\<close>

definition visits ::
  "WalkCtx \<Rightarrow> 'fd descent \<Rightarrow> (path \<times> string \<times> EntryType) list \<Rightarrow> ((Entry \<times> 'fd StatAt) \<times> 'fd Task option) list" where
  "visits ctx d xs =
     map (\<lambda>x. (child_visit ctx d x, child_task ctx d x)) (filter (\<lambda>(p, leaf, ty). \<not> excluded ctx leaf) xs)"

definition task_children :: "WalkCtx \<Rightarrow> 'fd platform \<Rightarrow> 'fd Task \<Rightarrow> ((Entry \<times> 'fd StatAt) \<times> 'fd Task option) list" where
  "task_children ctx pf t =
     (case descend_open ctx pf t True of
        None \<Rightarrow> []
      | Some d \<Rightarrow> visits ctx d (pf_for_each_entry pf (d_dir d) (t_path t)))"

definition own_visit :: "WalkCtx \<Rightarrow> 'fd Task \<Rightarrow> (Entry \<times> 'fd StatAt) multiset" where
  "own_visit ctx t = (if t_parent t = None then {#root_visit ctx t#} else {#})"

abbreviation subtree :: "('a \<Rightarrow> 'b multiset) \<Rightarrow> 'b \<times> 'a option \<Rightarrow> 'b multiset" where
  "subtree f ec \<equiv> (case ec of (e, c) \<Rightarrow> {#e#} + (case c of None \<Rightarrow> {#} | Some u \<Rightarrow> f u))"

primrec walk_tree :: "WalkCtx \<Rightarrow> 'fd platform \<Rightarrow> nat \<Rightarrow> 'fd Task \<Rightarrow> (Entry \<times> 'fd StatAt) multiset" where
  "walk_tree ctx pf 0 t = {#}"
| "walk_tree ctx pf (Suc k) t =
     own_visit ctx t + sum_list (map (subtree (walk_tree ctx pf k)) (task_children ctx pf t))"

abbreviation child_ok :: "('a \<Rightarrow> bool) \<Rightarrow> 'b \<times> 'a option \<Rightarrow> bool" where
  "child_ok P ec \<equiv> (case ec of (e, c) \<Rightarrow> (case c of None \<Rightarrow> True | Some u \<Rightarrow> P u))"

primrec fits :: "WalkCtx \<Rightarrow> 'fd platform \<Rightarrow> nat \<Rightarrow> 'fd Task \<Rightarrow> bool" where
  "fits ctx pf 0 t = False"
| "fits ctx pf (Suc k) t = list_all (child_ok (fits ctx pf k)) (task_children ctx pf t)"

lemma list_all_child_mono:
  "list_all (child_ok P) xs \<Longrightarrow> (\<And>u. P u \<Longrightarrow> Q u) \<Longrightarrow> list_all (child_ok Q) xs"
  by (auto simp: list_all_iff split: option.splits)

lemma fits_Suc: "fits ctx pf k t \<Longrightarrow> fits ctx pf (Suc k) t"
proof (induction k arbitrary: t)
  case (Suc k)
  have "list_all (child_ok (fits ctx pf k)) (task_children ctx pf t)" using Suc.prems by simp
  then have "list_all (child_ok (fits ctx pf (Suc k))) (task_children ctx pf t)"
    by (rule list_all_child_mono [of "fits ctx pf k"]) (rule Suc.IH)
  then show ?case by (subst fits.simps)
qed simp

lemma sum_subtree_cong:
  "list_all (child_ok P) xs \<Longrightarrow> (\<And>u. P u \<Longrightarrow> f u = g u) \<Longrightarrow>
   sum_list (map (subtree f) xs) = sum_list (map (subtree g) xs)"
  by (induction xs) (auto split: option.splits)

lemma walk_tree_Suc: "fits ctx pf k t \<Longrightarrow> walk_tree ctx pf (Suc k) t = walk_tree ctx pf k t"
proof (induction k arbitrary: t)
  case (Suc k)
  have "list_all (child_ok (fits ctx pf k)) (task_children ctx pf t)" using Suc.prems by simp
  then have "sum_list (map (subtree (walk_tree ctx pf (Suc k))) (task_children ctx pf t))
      = sum_list (map (subtree (walk_tree ctx pf k)) (task_children ctx pf t))"
    by (rule sum_subtree_cong [of "fits ctx pf k"]) (rule Suc.IH)
  then show ?case by (simp only: walk_tree.simps)
qed simp

text \<open>With a height that fits, the tree of a task is its own visit and its children's trees.\<close>

definition below :: "WalkCtx \<Rightarrow> 'fd platform \<Rightarrow> nat \<Rightarrow> ((Entry \<times> 'fd StatAt) \<times> 'fd Task option) list \<Rightarrow> (Entry \<times> 'fd StatAt) multiset" where
  "below ctx pf k xs = sum_list (map (subtree (walk_tree ctx pf k)) xs)"

lemma walk_tree_unfold:
  assumes "fits ctx pf k t"
  shows "walk_tree ctx pf k t = own_visit ctx t + below ctx pf k (task_children ctx pf t)"
    and "list_all (child_ok (fits ctx pf k)) (task_children ctx pf t)"
proof -
  obtain j where k: "k = Suc j" using assms by (cases k) auto
  have ch: "list_all (child_ok (fits ctx pf j)) (task_children ctx pf t)" using assms k by simp
  then show "list_all (child_ok (fits ctx pf k)) (task_children ctx pf t)"
    unfolding k by (rule list_all_child_mono [of "fits ctx pf j"]) (rule fits_Suc)
  have eq: "sum_list (map (subtree (walk_tree ctx pf k)) (task_children ctx pf t))
      = sum_list (map (subtree (walk_tree ctx pf j)) (task_children ctx pf t))"
    unfolding k using ch by (rule sum_subtree_cong [of "fits ctx pf j"]) (rule walk_tree_Suc)
  have "walk_tree ctx pf k t = own_visit ctx t + sum_list (map (subtree (walk_tree ctx pf j)) (task_children ctx pf t))"
    unfolding k by (rule walk_tree.simps)
  then show "walk_tree ctx pf k t = own_visit ctx t + below ctx pf k (task_children ctx pf t)"
    by (simp only: below_def eq)
qed

section \<open>Two more weights\<close>

text \<open>The tasks that do not fit, and the entries still to be visited.\<close>

definition unfit :: "WalkCtx \<Rightarrow> 'fd platform \<Rightarrow> nat \<Rightarrow> 'fd Task \<Rightarrow> nat" where
  "unfit ctx pf k t = (if fits ctx pf k t then 0 else 1)"

fun unfit_phase :: "WalkCtx \<Rightarrow> 'fd platform \<Rightarrow> nat \<Rightarrow> 'fd phase \<Rightarrow> nat" where
  "unfit_phase ctx pf k (Begin t) = unfit ctx pf k t"
| "unfit_phase ctx pf k (Descending t) = unfit ctx pf k t"
| "unfit_phase ctx pf k (Reading d xs) =
     (if list_all (child_ok (fits ctx pf k)) (visits ctx d xs) then 0 else 1)"
| "unfit_phase ctx pf k (Queueing t d xs) =
     unfit ctx pf k t + (if list_all (child_ok (fits ctx pf k)) (visits ctx d xs) then 0 else 1)"
| "unfit_phase ctx pf k _ = 0"

interpretation fitting: task_weight "unfit ctx pf k" "unfit_phase ctx pf k" for ctx pf k
  by unfold_locales simp_all

fun to_visit :: "WalkCtx \<Rightarrow> 'fd platform \<Rightarrow> nat \<Rightarrow> 'fd phase \<Rightarrow> (Entry \<times> 'fd StatAt) multiset" where
  "to_visit ctx pf k (Begin t) = walk_tree ctx pf k t"
| "to_visit ctx pf k (Descending t) = below ctx pf k (task_children ctx pf t)"
| "to_visit ctx pf k (Reading d xs) = below ctx pf k (visits ctx d xs)"
| "to_visit ctx pf k (Queueing t d xs) = walk_tree ctx pf k t + below ctx pf k (visits ctx d xs)"
| "to_visit ctx pf k _ = {#}"

interpretation visiting: task_weight "walk_tree ctx pf k" "to_visit ctx pf k" for ctx pf k
  by unfold_locales simp_all

abbreviation all_fit :: "WalkCtx \<Rightarrow> 'fd platform \<Rightarrow> nat \<Rightarrow> nat \<Rightarrow> ('fd, 'v) walk_state \<Rightarrow> bool" where
  "all_fit ctx pf k n s \<equiv> outstanding (unfit ctx pf k) (unfit_phase ctx pf k) n s = 0"

abbreviation unvisited :: "WalkCtx \<Rightarrow> 'fd platform \<Rightarrow> nat \<Rightarrow> nat \<Rightarrow> ('fd, 'v) walk_state \<Rightarrow> (Entry \<times> 'fd StatAt) multiset" where
  "unvisited ctx pf k n s \<equiv> outstanding (walk_tree ctx pf k) (to_visit ctx pf k) n s"

lemma all_fit_phase: "all_fit ctx pf k n s \<Longrightarrow> w < n \<Longrightarrow> unfit_phase ctx pf k (ws_phase s w) = 0"
  by (simp add: outstanding_def)

lemma visits_Cons:
  "visits ctx d (x # xs) =
     (if excluded ctx (fst (snd x)) then visits ctx d xs
      else (child_visit ctx d x, child_task ctx d x) # visits ctx d xs)"
  by (cases x) (simp add: visits_def)

lemma below_Cons: "below ctx pf k (x # xs) = subtree (walk_tree ctx pf k) x + below ctx pf k xs"
  by (simp add: below_def)

lemma read_entry_cases:
  assumes "read_entry ctx visitor d x v = (r, v')"
  shows "(if excluded ctx (fst (snd x)) then r = Skipped
    else (r = Stopped \<and> fst (call_visitor visitor v (child_visit ctx d x)) = WalkQuit
         \<or> r = Visited (child_task ctx d x)) \<and> v' = snd (call_visitor visitor v (child_visit ctx d x)))"
  using assms by (cases x) (auto simp: read_entry_def split: if_splits prod.splits WalkState.splits)

section \<open>A working step against the two weights\<close>

text \<open>
  What one working step does to the log, relative to the phase weights: nothing is lost unless
  the walk quits, and nothing is ever visited that the tree does not have.
\<close>

definition step_balance ::
  "WalkCtx \<Rightarrow> 'fd platform \<Rightarrow> nat \<Rightarrow> nat \<Rightarrow> ('fd, 'v) walk_state \<Rightarrow> ('fd, 'v) walk_state \<Rightarrow> bool" where
  "step_balance ctx pf k w s s' \<longleftrightarrow>
     unfit_phase ctx pf k (ws_phase s' w) = 0
     \<and> mset (ws_log s') + to_visit ctx pf k (ws_phase s' w)
         \<subseteq># mset (ws_log s) + to_visit ctx pf k (ws_phase s w)
     \<and> (ws_quit s' \<or>
        mset (ws_log s') + to_visit ctx pf k (ws_phase s' w)
          = mset (ws_log s) + to_visit ctx pf k (ws_phase s w))"

lemma begin_task_balance:
  assumes "ws_phase s w = Begin t" "fits ctx pf k t"
  shows "step_balance ctx pf k w s (begin_task ctx visitor w t s)"
  using assms walk_tree_unfold [OF assms(2)]
  by (auto simp: step_balance_def begin_task_def begin_root_def visit_effect_def own_visit_def unfit_def
      split: WalkState.splits prod.splits)

lemma descend_open_token: "descend_open ctx pf t a = Some d \<Longrightarrow> descend_open ctx pf t True = Some d"
  by (auto simp: descend_open_def split: if_splits)

lemma descend_open_unlimited: "\<not> ctx_limited ctx \<Longrightarrow> descend_open ctx pf t a = descend_open ctx pf t True"
  by (simp add: descend_open_def)

lemma open_dir_balance:
  assumes "ws_phase s w = Descending t" "fits ctx pf k t" "a \<or> (ctx_limited ctx \<and> ws_quit s)"
  shows "step_balance ctx pf k w s (set_phase w (descend_phase ctx pf t a) s)"
proof (cases "descend_open ctx pf t a")
  case None
  then show ?thesis
    using assms by (auto simp: step_balance_def descend_phase_def task_children_def below_def)
next
  case (Some d)
  then show ?thesis
    using assms walk_tree_unfold(2) [OF assms(2)] descend_open_token [OF Some]
    by (simp add: step_balance_def descend_phase_def task_children_def)
qed

lemma read_one_balance:
  assumes ph: "ws_phase s w = Reading d (x # xs)"
    and fit: "list_all (child_ok (fits ctx pf k)) (visits ctx d (x # xs))"
  shows "step_balance ctx pf k w s (read_one ctx visitor w d x xs s)"
proof -
  obtain r v' where r: "read_entry ctx visitor d x (ws_visitor s w) = (r, v')"
    by (cases "read_entry ctx visitor d x (ws_visitor s w)")
  show ?thesis
  proof (cases "excluded ctx (fst (snd x))")
    case True
    then show ?thesis
      using ph fit read_entry_cases [OF r] r
      by (simp add: step_balance_def read_one_def visits_Cons)
  next
    case False
    then consider "r = Stopped" | "r = Visited (child_task ctx d x)"
      using read_entry_cases [OF r] by auto
    then show ?thesis
      using ph fit r False
      by cases (auto simp: step_balance_def read_one_def visit_effect_def visits_Cons below_Cons unfit_def
          split: option.splits)
  qed
qed

lemma working_balance:
  assumes "walk_step ctx pf visitor n w s s'" "working (ws_phase s w)"
    "unfit_phase ctx pf k (ws_phase s w) = 0"
  shows "step_balance ctx pf k w s s'"
  using assms
proof cases
  case (begin_process t)
  then show ?thesis using assms(3) begin_task_balance by (simp add: unfit_def split: if_splits)
next
  case (open_dir t a)
  then show ?thesis using assms(3) open_dir_balance [of s w t ctx pf k a]
    by (simp add: unfit_def split: if_splits)
next
  case (read_next d x xs)
  then show ?thesis using assms(3) read_one_balance [of s w d x xs ctx pf k visitor]
    by (simp split: if_splits)
qed (simp_all add: step_balance_def visits_def below_def)

lemma scheduling_log:
  assumes "walk_step ctx pf visitor n w s s'" "\<not> working (ws_phase s w)"
  shows "ws_log s' = ws_log s \<and> ws_quit s' = ws_quit s"
  using assms by cases auto

section \<open>The invariant of the walk\<close>

definition tree_inv ::
  "WalkCtx \<Rightarrow> 'fd platform \<Rightarrow> nat \<Rightarrow> nat \<Rightarrow> (Entry \<times> 'fd StatAt) multiset \<Rightarrow> ('fd, 'v) walk_state \<Rightarrow> bool" where
  "tree_inv ctx pf k n whole s \<longleftrightarrow>
     all_fit ctx pf k n s
     \<and> mset (ws_log s) + unvisited ctx pf k n s \<subseteq># whole
     \<and> (ws_quit s \<or> mset (ws_log s) + unvisited ctx pf k n s = whole)"

lemma balance_transfer:
  fixes l l' u u' p p' :: "'a multiset"
  assumes "u' + p = u + p'"
  shows "l' + p' \<subseteq># l + p \<Longrightarrow> l' + u' \<subseteq># l + u"
    and "l' + p' = l + p \<Longrightarrow> l' + u' = l + u"
proof -
  have swap: "l + u + p' = (l + p) + u'" "l' + u' + p' = (l' + p') + u'"
    using assms by (simp_all add: ac_simps)
  { assume "l' + p' \<subseteq># l + p"
    then have "l' + u' + p' \<subseteq># l + u + p'" unfolding swap by (rule subset_mset.add_right_mono)
    then show "l' + u' \<subseteq># l + u" by simp }
  { assume "l' + p' = l + p"
    then have "l' + u' + p' = l + u + p'" unfolding swap by simp
    then show "l' + u' = l + u" by simp }
qed

lemma tree_inv_step:
  assumes st: "walk_step ctx pf visitor n w s s'" and inv: "tree_inv ctx pf k n whole s"
  shows "tree_inv ctx pf k n whole s'"
proof (cases "working (ws_phase s w)")
  case True
  have fit: "all_fit ctx pf k n s" using inv by (simp add: tree_inv_def)
  have uw: "unfit_phase ctx pf k (ws_phase s w) = 0"
    by (rule all_fit_phase [OF fit step_worker [OF st]])
  have bal: "step_balance ctx pf k w s s'" by (rule working_balance [OF st True uw])
  have fit': "all_fit ctx pf k n s'"
    using fitting.working_changes_phase [OF st True, of ctx pf k] fit uw bal
    by (simp add: step_balance_def)
  note move = balance_transfer [OF visiting.working_changes_phase [OF st True, of ctx pf k]]
  have sub: "mset (ws_log s') + unvisited ctx pf k n s' \<subseteq># mset (ws_log s) + unvisited ctx pf k n s"
    by (rule move(1)) (use bal in \<open>simp add: step_balance_def\<close>)
  have eq: "ws_quit s' \<or> mset (ws_log s') + unvisited ctx pf k n s' = mset (ws_log s) + unvisited ctx pf k n s"
    using bal move(2) by (auto simp: step_balance_def)
  show ?thesis
    using inv fit' sub eq quit_stays [OF st] subset_mset.order_trans [OF sub]
    unfolding tree_inv_def by auto
next
  case False
  then show ?thesis
    using inv fitting.scheduling_conserves [OF st False, of ctx pf k]
      visiting.scheduling_conserves [OF st False, of ctx pf k] scheduling_log [OF st False]
    by (simp add: tree_inv_def)
qed

definition roots_tree :: "WalkCtx \<Rightarrow> 'fd platform \<Rightarrow> nat \<Rightarrow> path list \<Rightarrow> (Entry \<times> 'fd StatAt) multiset" where
  "roots_tree ctx pf k roots = sum_list (map (walk_tree ctx pf k) (root_tasks (ctx_args ctx) pf roots))"

definition roots_fit :: "WalkCtx \<Rightarrow> 'fd platform \<Rightarrow> nat \<Rightarrow> path list \<Rightarrow> bool" where
  "roots_fit ctx pf k roots = list_all (fits ctx pf k) (root_tasks (ctx_args ctx) pf roots)"

lemma tree_inv_init:
  assumes "roots_fit ctx pf k roots"
  shows "tree_inv ctx pf k n (roots_tree ctx pf k roots) (walk_init ctx pf roots mv)"
proof -
  have "list_all (fits ctx pf k) ts \<Longrightarrow> sum_list (map (unfit ctx pf k) ts) = 0" for ts
    by (induction ts) (simp_all add: unfit_def)
  then show ?thesis
    using assms by (simp add: tree_inv_def walk_init_def outstanding_def roots_tree_def roots_fit_def)
qed

lemma tree_inv_reach:
  "walk_reach ctx pf visitor n s0 s \<Longrightarrow> tree_inv ctx pf k n whole s0 \<Longrightarrow> tree_inv ctx pf k n whole s"
  by (induction rule: walk_reach.induct) (blast intro: tree_inv_step)+

end
