(* ===== verification/Walk_Correct.thy ===== *)
theory Walk_Correct
  imports Walk_Tree
begin

text \<open>
  The guarantees of the parallel walk: every interleaving visits the entries of the sequential
  walk exactly once each; the height of the walk is bounded by the depth limit or by the cycle test; and
  an induction rule for what holds of every entry visited.
\<close>

section \<open>Every entry exactly once\<close>

lemma no_quit_step:
  assumes "walk_step ctx pf visitor n w s s'" "\<And>v e st. fst (visitor v e st) = WalkContinue" "\<not> ws_quit s"
  shows "\<not> ws_quit s'"
proof -
  have c: "\<exists>v'. call_visitor visitor v ev = (WalkContinue, v')" for v ev
    using assms(2) [of v "fst ev" "snd ev"] by (cases "call_visitor visitor v ev") (simp add: call_visitor_def)
  show ?thesis
    using assms(1,3)
  proof cases
    case (begin_process t)
    then show ?thesis
      using assms(3) c [of "ws_visitor s w" "root_visit ctx t"]
      by (auto simp: begin_task_def begin_root_def visit_effect_def)
  next
    case (read_next d x xs)
    obtain r v' where r: "read_entry ctx visitor d x (ws_visitor s w) = (r, v')"
      by (cases "read_entry ctx visitor d x (ws_visitor s w)")
    have "r \<noteq> Stopped"
      using read_entry_cases [OF r] c [of "ws_visitor s w" "child_visit ctx d x"] by (auto split: if_splits)
    then show ?thesis
      using read_next r assms(3)
      by (auto simp: read_one_def visit_effect_def split: read_result.splits option.splits)
  qed (use assms(3) in auto)
qed

lemma no_quit_reach:
  "walk_reach ctx pf visitor n s0 s \<Longrightarrow> (\<And>v e st. fst (visitor v e st) = WalkContinue) \<Longrightarrow>
   \<not> ws_quit s0 \<Longrightarrow> \<not> ws_quit s"
proof (induction rule: walk_reach.induct)
  case (reach_step s' w s'')
  then show ?case using no_quit_step by blast
qed

lemma n_workers_pos: "0 < n_workers args"
  by (simp add: n_workers_def)

lemma nothing_left_unvisited: "nothing_left n s \<Longrightarrow> unvisited ctx pf k n s = {#}"
proof -
  assume nl: "nothing_left n s"
  have "to_visit ctx pf k ph = {#}" if "held ph = 0" for ph
    using that by (cases ph) simp_all
  then show ?thesis using nl by (simp add: nothing_left_def outstanding_def)
qed

lemma returned_log:
  assumes r: "walk_reach ctx pf visitor n (walk_init ctx pf roots make_visitor) s" "walk_returned n s" "0 < n"
    and fit: "roots_fit ctx pf k roots"
    and go: "\<And>v e st. fst (visitor v e st) = WalkContinue"
  shows "mset (ws_log s) = roots_tree ctx pf k roots"
proof -
  have nq: "\<not> ws_quit s"
    by (rule no_quit_reach [OF r(1) go]) (simp add: walk_init_def)
  have inv: "tree_inv ctx pf k n (roots_tree ctx pf k roots) s"
    by (rule tree_inv_reach [OF r(1) tree_inv_init [OF fit]])
  have "ws_phase s 0 = Exited" using r(2,3) by (simp add: walk_returned_def)
  then have "nothing_left n s"
    using exit_ok_reach [OF r(1)] nq r(3) by (auto simp: exit_ok_def)
  then have "unvisited ctx pf k n s = {#}" by (rule nothing_left_unvisited)
  with inv nq show ?thesis by (simp add: tree_inv_def)
qed

text \<open>
  C3. Whatever the interleaving of the workers, a walk that was not told to quit visits exactly the
  entries of the sequential walk, each exactly as often: nothing is lost when tasks are stolen or
  workers stop, and nothing is visited twice.
\<close>

theorem every_entry_once:
  assumes "walk_parallel ctx pf visitor roots make_visitor s"
    and "roots_fit ctx pf k roots"
    and "\<And>v e st. fst (visitor v e st) = WalkContinue"
  shows "mset (ws_log s) = roots_tree ctx pf k roots"
proof (rule returned_log [where visitor = visitor])
  show "walk_reach ctx pf visitor (n_workers (ctx_args ctx)) (walk_init ctx pf roots make_visitor) s"
    and "walk_returned (n_workers (ctx_args ctx)) s"
    using assms(1) by (simp_all add: walk_parallel_def)
qed (rule n_workers_pos assms(2,3))+

lemma log_in_tree:
  assumes "walk_reach ctx pf visitor n (walk_init ctx pf roots make_visitor) s"
    and "roots_fit ctx pf k roots"
  shows "mset (ws_log s) \<subseteq># roots_tree ctx pf k roots"
  using tree_inv_reach [OF assms(1) tree_inv_init [OF assms(2)]]
  by (simp add: tree_inv_def) (meson mset_subset_eq_add_left subset_mset.order_trans)

text \<open>
  At every moment, also when the walk is cut short by a visitor that quits, the entries visited
  so far are among those of the sequential walk, none more often.
\<close>

theorem never_more_than_the_tree:
  assumes "walk_reach ctx pf visitor n (walk_init ctx pf roots make_visitor) s"
    and "roots_fit ctx pf k roots"
  shows "mset (ws_log s) \<subseteq># roots_tree ctx pf k roots"
  by (rule log_in_tree [OF assms])

section \<open>How high the tree can be\<close>

lemma child_task_fields:
  assumes "child_task ctx d x = Some u"
  shows "t_depth u = d_child_depth d" "t_ancestors u = d_child_ancestors d" "t_root_dev u = d_root_dev d"
    "d_enqueue_children d" "t_parent u = Some (d_dir d)"
  using assms by (auto simp: child_task_def split: prod.splits if_splits)

lemma task_children_opened:
  assumes "(e, c) \<in> set (task_children ctx pf t)"
  obtains d x where "descend_open ctx pf t True = Some d" "x \<in> set (pf_for_each_entry pf (d_dir d) (t_path t))"
    "\<not> excluded ctx (fst (snd x))" "e = child_visit ctx d x" "c = child_task ctx d x"
proof (cases "descend_open ctx pf t True")
  case None
  then show ?thesis using assms by (simp add: task_children_def)
next
  case (Some d)
  then show ?thesis using assms that by (auto simp: task_children_def visits_def)
qed

lemma descend_open_fields:
  assumes "descend_open ctx pf t True = Some d"
  shows "d_child_depth d = t_depth t + 1"
    and "d_root_dev d = t_root_dev t"
    and "\<exists>dev ino. pf_dir_id pf (d_dir d) = Inr (dev, ino)
      \<and> d_child_ancestors d = map_option (\<lambda>a. a @ [(dev, ino)]) (t_ancestors t)
      \<and> (\<forall>anc. t_ancestors t = Some anc \<longrightarrow> (dev, ino) \<notin> set anc)
      \<and> (a_one_filesystem (ctx_args ctx) \<longrightarrow> dev = t_root_dev t)"
    and "\<And>mx. a_max_depth (ctx_args ctx) = Some mx \<Longrightarrow> t_depth t < mx \<and> d_enqueue_children d = (t_depth t + 1 < mx)"
  using assms by (auto simp: descend_open_def split: if_splits option.splits sum.splits)

lemma word_succ_unat: "(a :: usize) < b \<Longrightarrow> unat (a + 1) = unat a + 1"
  using unsigned_less [of b, where 'a = nat] by (simp add: unat_word_ariths word_less_nat_alt)

lemma fits_step:
  assumes "\<And>d x u. descend_open ctx pf t True = Some d \<Longrightarrow> child_task ctx d x = Some u \<Longrightarrow> fits ctx pf k u"
  shows "fits ctx pf (Suc k) t"
  using assms by (auto simp: list_all_iff elim!: task_children_opened split: option.splits)

lemma fits_max_depth:
  assumes "a_max_depth (ctx_args ctx) = Some mx" "unat mx \<le> unat (t_depth t) + k"
  shows "fits ctx pf (Suc k) t"
  using assms(2)
proof (induction k arbitrary: t)
  case 0
  show ?case
  proof (rule fits_step)
    fix d x u
    assume "descend_open ctx pf t True = Some d"
    then have "t_depth t < mx" using descend_open_fields(4) assms(1) by blast
    then show "fits ctx pf 0 u" using "0" by (simp add: word_less_nat_alt)
  qed
next
  case (Suc k)
  show ?case
  proof (rule fits_step)
    fix d x u
    assume o: "descend_open ctx pf t True = Some d" and c: "child_task ctx d x = Some u"
    have "t_depth t < mx" using descend_open_fields(4) [OF o assms(1)] by blast
    then have "unat (t_depth u) = unat (t_depth t) + 1"
      using word_succ_unat child_task_fields(1) [OF c] descend_open_fields(1) [OF o] by simp
    then show "fits ctx pf (Suc k) u" using Suc by simp
  qed
qed

lemma fits_ancestors:
  assumes ids: "\<And>fd di. pf_dir_id pf fd = Inr di \<Longrightarrow> di \<in> S" and fin: "finite S"
    and "t_ancestors t = Some anc" "distinct anc" "set anc \<subseteq> S" "card S \<le> length anc + k"
  shows "fits ctx pf (Suc k) t"
  using assms(3-6)
proof (induction k arbitrary: t anc)
  case 0
  then have "set anc = S"
    using card_subset_eq [OF fin "0"(3)] distinct_card [OF "0"(2)] card_mono [OF fin "0"(3)] by simp
  show ?case
  proof (rule fits_step)
    fix d x u assume "descend_open ctx pf t True = Some d"
    then show "fits ctx pf 0 u"
      using descend_open_fields(3) [of ctx pf t d] ids "0"(1) \<open>set anc = S\<close> by blast
  qed
next
  case (Suc k)
  show ?case
  proof (rule fits_step)
    fix d x u
    assume o: "descend_open ctx pf t True = Some d" and c: "child_task ctx d x = Some u"
    obtain dev ino where di: "pf_dir_id pf (d_dir d) = Inr (dev, ino)"
      "d_child_ancestors d = Some (anc @ [(dev, ino)])" "(dev, ino) \<notin> set anc"
      using descend_open_fields(3) [OF o] Suc.prems(1) by auto
    show "fits ctx pf (Suc k) u"
      by (rule Suc.IH [of u "anc @ [(dev, ino)]"])
         (use child_task_fields(2) [OF c] di ids [OF di(1)] Suc.prems in auto)
  qed
qed

lemma root_tasks_fields:
  assumes "t \<in> set (root_tasks args pf roots)"
  shows "t_depth t = 0" "t_ancestors t = (if a_follow_symlinks args then Some [] else None)"
    "t_parent t = None" "t_path t \<in> set roots"
  using assms by (auto simp: root_tasks_def List.map_filter_def root_task_def split: sum.splits)

lemma roots_fit_max_depth:
  assumes "a_max_depth (ctx_args ctx) = Some mx"
  shows "roots_fit ctx pf (Suc (unat mx)) roots"
  unfolding roots_fit_def list_all_iff by (intro ballI fits_max_depth [OF assms]) simp

lemma roots_fit_follow:
  assumes "a_follow_symlinks (ctx_args ctx)" "finite S" "\<And>fd di. pf_dir_id pf fd = Inr di \<Longrightarrow> di \<in> S"
  shows "roots_fit ctx pf (Suc (card S)) roots"
  unfolding roots_fit_def list_all_iff
proof
  fix t assume "t \<in> set (root_tasks (ctx_args ctx) pf roots)"
  from root_tasks_fields(2) [OF this] have anc: "t_ancestors t = Some []" using assms(1) by simp
  show "fits ctx pf (Suc (card S)) t"
    by (rule fits_ancestors [OF assms(3) assms(2) anc]) simp_all
qed

text \<open>
  C20. With \<open>--max-depth\<close> the walk is at most that high, whatever the file system contains; and so it
  is when symlinks are followed, by the cycle test alone: no chain of links is followed for more
  steps than there are directories, even if the links form cycles.
\<close>

theorem walk_height_bounded:
  assumes "a_max_depth (ctx_args ctx) = Some mx \<and> k = Suc (unat mx)
    \<or> (a_follow_symlinks (ctx_args ctx) \<and> finite S \<and> (\<forall>fd di. pf_dir_id pf fd = Inr di \<longrightarrow> di \<in> S)
        \<and> k = Suc (card S))"
  shows "roots_fit ctx pf k roots"
  using assms roots_fit_max_depth [of ctx mx pf roots] roots_fit_follow [of ctx S pf roots] by blast

section \<open>What holds of every entry of the walk\<close>

lemma in_sum_list_mset: "e \<in># sum_list xs \<longleftrightarrow> (\<exists>x \<in> set xs. e \<in># x)"
  by (induction xs) auto

lemma member_walk_tree:
  assumes "e \<in># walk_tree ctx pf k t"
    and own: "\<And>t. P t \<Longrightarrow> t_parent t = None \<Longrightarrow> Q (root_visit ctx t)"
    and child: "\<And>t d x. P t \<Longrightarrow> descend_open ctx pf t True = Some d \<Longrightarrow>
        x \<in> set (pf_for_each_entry pf (d_dir d) (t_path t)) \<Longrightarrow> \<not> excluded ctx (fst (snd x)) \<Longrightarrow>
        Q (child_visit ctx d x) \<and> (\<forall>u. child_task ctx d x = Some u \<longrightarrow> P u)"
    and "P t"
  shows "Q e"
  using assms(1,4)
proof (induction k arbitrary: t)
  case (Suc k)
  then consider (own) "e \<in># own_visit ctx t"
    | (below) ec where "ec \<in> set (task_children ctx pf t)" "e \<in># subtree (walk_tree ctx pf k) ec"
    by (auto simp: in_sum_list_mset set_map)
  then show ?case
  proof cases
    case own
    then show ?thesis using assms(2) Suc.prems(2) by (auto simp: own_visit_def split: if_splits)
  next
    case (below ec)
    obtain e' c where ec: "ec = (e', c)" by (cases ec)
    obtain d x where o: "descend_open ctx pf t True = Some d"
      "x \<in> set (pf_for_each_entry pf (d_dir d) (t_path t))" "\<not> excluded ctx (fst (snd x))"
      and e': "e' = child_visit ctx d x" and c: "c = child_task ctx d x"
      using below(1) unfolding ec by (rule task_children_opened)
    have q: "Q (child_visit ctx d x)" "\<And>u. child_task ctx d x = Some u \<Longrightarrow> P u"
      using child [OF Suc.prems(2) o] by auto
    show ?thesis
      using below(2) q Suc.IH unfolding ec e' c by (auto split: option.splits)
  qed
qed simp

lemma walk_log_in_tree:
  assumes "walk_reach ctx pf visitor n (walk_init ctx pf roots mv) s" "roots_fit ctx pf k roots"
    "e \<in> set (ws_log s)"
  obtains t where "t \<in> set (root_tasks (ctx_args ctx) pf roots)" "e \<in># walk_tree ctx pf k t"
proof -
  have "e \<in># roots_tree ctx pf k roots"
    using mset_subset_eqD [OF log_in_tree [OF assms(1,2)]] assms(3) by simp
  then show ?thesis using that by (auto simp: roots_tree_def in_sum_list_mset)
qed

text \<open>A visit of an entry that was listed, under a name that is not excluded, in a directory on the right device.\<close>

definition listed_visit :: "WalkCtx \<Rightarrow> 'fd platform \<Rightarrow> u64 \<Rightarrow> Entry \<times> 'fd StatAt \<Rightarrow> bool" where
  "listed_visit ctx pf root_dev ev \<longleftrightarrow>
     (\<exists>dir p leaf dev ino. (e_path (fst ev), leaf, e_file_type (fst ev)) \<in> set (pf_for_each_entry pf dir p)
        \<and> snd ev = stat_child dir leaf (a_follow_symlinks (ctx_args ctx))
        \<and> \<not> excluded ctx leaf \<and> pf_dir_id pf dir = Inr (dev, ino)
        \<and> (if a_one_filesystem (ctx_args ctx) then dev = root_dev else True))"

end
