(* ===== verification/Walk_Progress.thy ===== *)
theory Walk_Progress
  imports Walk_Correct
begin

text \<open>
  Progress of the parallel walk. Each task has a finite effort when the tree fits; working steps
  spend it and scheduling steps do not create any, so a run has boundedly many working steps. And
  from every reachable state the workers can still finish: the engine has no deadlock.
\<close>

section \<open>The effort left\<close>

definition listing :: "WalkCtx \<Rightarrow> 'fd platform \<Rightarrow> 'fd Task \<Rightarrow> (path \<times> string \<times> EntryType) list" where
  "listing ctx pf t =
     (case descend_open ctx pf t True of
        None \<Rightarrow> []
      | Some d \<Rightarrow> pf_for_each_entry pf (d_dir d) (t_path t))"

abbreviation child_sum :: "('a \<Rightarrow> nat) \<Rightarrow> 'b \<times> 'a option \<Rightarrow> nat" where
  "child_sum f ec \<equiv> (case ec of (e, c) \<Rightarrow> (case c of None \<Rightarrow> 0 | Some u \<Rightarrow> f u))"

primrec effort :: "WalkCtx \<Rightarrow> 'fd platform \<Rightarrow> nat \<Rightarrow> 'fd Task \<Rightarrow> nat" where
  "effort ctx pf 0 t = 0"
| "effort ctx pf (Suc k) t =
     4 + length (listing ctx pf t) + sum_list (map (child_sum (effort ctx pf k)) (task_children ctx pf t))"

lemma child_sum_cong:
  "list_all (child_ok P) xs \<Longrightarrow> (\<And>u. P u \<Longrightarrow> f u = g u) \<Longrightarrow>
   sum_list (map (child_sum f) xs) = sum_list (map (child_sum g) xs)"
  by (induction xs) (auto split: option.splits)

lemma effort_Suc: "fits ctx pf k t \<Longrightarrow> effort ctx pf (Suc k) t = effort ctx pf k t"
proof (induction k arbitrary: t)
  case (Suc k)
  have "list_all (child_ok (fits ctx pf k)) (task_children ctx pf t)" using Suc.prems by simp
  then have "sum_list (map (child_sum (effort ctx pf (Suc k))) (task_children ctx pf t))
      = sum_list (map (child_sum (effort ctx pf k)) (task_children ctx pf t))"
    by (rule child_sum_cong [of "fits ctx pf k"]) (rule Suc.IH)
  then show ?case by (simp only: effort.simps)
qed simp

definition children_effort :: "WalkCtx \<Rightarrow> 'fd platform \<Rightarrow> nat \<Rightarrow> ((Entry \<times> 'fd StatAt) \<times> 'fd Task option) list \<Rightarrow> nat" where
  "children_effort ctx pf k xs = sum_list (map (child_sum (effort ctx pf k)) xs)"

lemma effort_unfold:
  assumes "fits ctx pf k t"
  shows "effort ctx pf k t =
    4 + length (listing ctx pf t) + children_effort ctx pf k (task_children ctx pf t)"
proof -
  obtain j where k: "k = Suc j" using assms by (cases k) auto
  have ch: "list_all (child_ok (fits ctx pf j)) (task_children ctx pf t)" using assms k by simp
  have eq: "sum_list (map (child_sum (effort ctx pf k)) (task_children ctx pf t))
      = sum_list (map (child_sum (effort ctx pf j)) (task_children ctx pf t))"
    unfolding k using ch by (rule child_sum_cong [of "fits ctx pf j"]) (rule effort_Suc)
  have "effort ctx pf k t = 4 + length (listing ctx pf t)
      + sum_list (map (child_sum (effort ctx pf j)) (task_children ctx pf t))"
    unfolding k by (rule effort.simps)
  then show ?thesis by (simp only: children_effort_def eq)
qed

fun phase_effort :: "WalkCtx \<Rightarrow> 'fd platform \<Rightarrow> nat \<Rightarrow> 'fd phase \<Rightarrow> nat" where
  "phase_effort ctx pf k (Begin t) = effort ctx pf k t"
| "phase_effort ctx pf k (Descending t) =
     3 + length (listing ctx pf t) + children_effort ctx pf k (task_children ctx pf t)"
| "phase_effort ctx pf k (Reading d xs) = 2 + length xs + children_effort ctx pf k (visits ctx d xs)"
| "phase_effort ctx pf k (Queueing t d xs) =
     effort ctx pf k t + (2 + length xs + children_effort ctx pf k (visits ctx d xs))"
| "phase_effort ctx pf k Finished = 1"
| "phase_effort ctx pf k _ = 0"

interpretation spending: task_weight "effort ctx pf k" "phase_effort ctx pf k" for ctx pf k
  by unfold_locales simp_all

abbreviation effort_left :: "WalkCtx \<Rightarrow> 'fd platform \<Rightarrow> nat \<Rightarrow> nat \<Rightarrow> ('fd, 'v) walk_state \<Rightarrow> nat" where
  "effort_left ctx pf k n s \<equiv> outstanding (effort ctx pf k) (phase_effort ctx pf k) n s"

lemma children_effort_Cons:
  "children_effort ctx pf k (x # xs) = child_sum (effort ctx pf k) x + children_effort ctx pf k xs"
  by (simp add: children_effort_def)

lemma begin_task_spends:
  assumes "fits ctx pf k t"
  shows "phase_effort ctx pf k (ws_phase (begin_task ctx visitor w t s) w) < effort ctx pf k t"
  using effort_unfold [OF assms]
  by (simp add: begin_task_def begin_root_def visit_effect_def split: WalkState.split prod.split)

lemma descend_phase_spends:
  "phase_effort ctx pf k (descend_phase ctx pf t a)
   < 3 + length (listing ctx pf t) + children_effort ctx pf k (task_children ctx pf t)"
proof (cases "descend_open ctx pf t a")
  case (Some d)
  then show ?thesis
    using descend_open_token [OF Some] by (simp add: descend_phase_def listing_def task_children_def)
qed (simp add: descend_phase_def)

lemma read_one_spends:
  "phase_effort ctx pf k (ws_phase (read_one ctx visitor w d x xs s) w)
   < 2 + length (x # xs) + children_effort ctx pf k (visits ctx d (x # xs))"
proof -
  obtain r v' where r: "read_entry ctx visitor d x (ws_visitor s w) = (r, v')"
    by (cases "read_entry ctx visitor d x (ws_visitor s w)")
  show ?thesis
    using read_entry_cases [OF r] r
    by (cases "child_task ctx d x")
       (auto simp: read_one_def visit_effect_def visits_Cons children_effort_Cons split: if_splits)
qed

lemma working_spends:
  assumes "walk_step ctx pf visitor n w s s'" "working (ws_phase s w)"
    "unfit_phase ctx pf k (ws_phase s w) = 0"
  shows "phase_effort ctx pf k (ws_phase s' w) < phase_effort ctx pf k (ws_phase s w)"
  using assms
proof cases
  case (begin_process t)
  then show ?thesis using assms(3) begin_task_spends by (simp add: unfit_def split: if_splits)
next
  case (open_dir t a)
  then show ?thesis using descend_phase_spends [of ctx pf k t a] by simp
next
  case (read_next d x xs)
  then show ?thesis using read_one_spends [of ctx pf k visitor w d x xs s] by simp
qed (simp_all add: visits_def children_effort_def)

lemma effort_step:
  assumes st: "walk_step ctx pf visitor n w s s'" and fit: "all_fit ctx pf k n s"
  shows "effort_left ctx pf k n s' + (if working (ws_phase s w) then 1 else 0) \<le> effort_left ctx pf k n s"
proof (cases "working (ws_phase s w)")
  case True
  have "unfit_phase ctx pf k (ws_phase s w) = 0"
    by (rule all_fit_phase [OF fit step_worker [OF st]])
  from working_spends [OF st True this] show ?thesis
    using spending.working_changes_phase [OF st True, of ctx pf k] True by simp
next
  case False
  then show ?thesis using spending.scheduling_conserves [OF st False, of ctx pf k] by simp
qed

lemma all_fit_reach:
  "walk_reach ctx pf visitor n s0 s \<Longrightarrow> tree_inv ctx pf k n whole s0 \<Longrightarrow> all_fit ctx pf k n s"
  using tree_inv_reach by (simp add: tree_inv_def) blast

text \<open>A run with its number of working steps.\<close>

inductive walk_run ::
  "WalkCtx \<Rightarrow> 'fd platform \<Rightarrow> ('fd, 'v) visitor \<Rightarrow> nat \<Rightarrow> ('fd, 'v) walk_state \<Rightarrow> nat \<Rightarrow> ('fd, 'v) walk_state \<Rightarrow> bool"
  for ctx pf visitor n s where
  run_start: "walk_run ctx pf visitor n s 0 s"
| run_step: "\<lbrakk>walk_run ctx pf visitor n s j s'; walk_step ctx pf visitor n w s' s''\<rbrakk> \<Longrightarrow>
    walk_run ctx pf visitor n s (if working (ws_phase s' w) then j + 1 else j) s''"

lemma walk_run_reach: "walk_run ctx pf visitor n s j s' \<Longrightarrow> walk_reach ctx pf visitor n s s'"
  by (induction rule: walk_run.induct) (blast intro: reach_start reach_step)+

lemma walk_run_effort:
  assumes "walk_run ctx pf visitor n s0 j s" "tree_inv ctx pf k n whole s0"
  shows "j + effort_left ctx pf k n s \<le> effort_left ctx pf k n s0"
  using assms(1)
proof (induction rule: walk_run.induct)
  case (run_step j s' w s'')
  have "all_fit ctx pf k n s'"
    by (rule all_fit_reach [OF walk_run_reach [OF run_step.hyps(1)] assms(2)])
  from effort_step [OF run_step.hyps(2) this] show ?case
    using run_step.IH by (cases "working (ws_phase s' w)") simp_all
qed simp

text \<open>
  C21. Termination of the work: in any run, however scheduled, the number of working steps is at most
  the effort of the roots. A walk that fits cannot run forever on work; only idle polling repeats.
\<close>

theorem work_is_bounded:
  assumes "walk_run ctx pf visitor n (walk_init ctx pf roots make_visitor) j s"
    and "roots_fit ctx pf k roots"
  shows "j \<le> sum_list (map (effort ctx pf k) (root_tasks (ctx_args ctx) pf roots))"
proof -
  have "effort_left ctx pf k n (walk_init ctx pf roots make_visitor)
      = sum_list (map (effort ctx pf k) (root_tasks (ctx_args ctx) pf roots))"
    by (simp add: outstanding_def walk_init_def)
  then show ?thesis using walk_run_effort [OF assms(1) tree_inv_init [OF assms(2)]] by simp
qed

section \<open>No deadlock\<close>

lemma walk_reach_trans:
  "walk_reach ctx pf visitor n s' s'' \<Longrightarrow> walk_reach ctx pf visitor n s s' \<Longrightarrow> walk_reach ctx pf visitor n s s''"
  by (induction rule: walk_reach.induct) (blast intro: reach_step)+

lemma reach_one: "walk_step ctx pf visitor n w s s' \<Longrightarrow> walk_reach ctx pf visitor n s s'"
  by (blast intro: reach_start reach_step)

lemma reach_first:
  "walk_step ctx pf visitor n w s s' \<Longrightarrow> walk_reach ctx pf visitor n s' s'' \<Longrightarrow>
   walk_reach ctx pf visitor n s s''"
  by (blast intro: walk_reach_trans reach_one)

lemma working_can_step:
  assumes "w < n" "working (ws_phase s w)"
  shows "\<exists>s'. walk_step ctx pf visitor n w s s'"
proof (cases "ws_phase s w")
  case (Reading d xs)
  then show ?thesis using assms(1) by (cases xs) (blast intro: walk_step.intros)+
qed (use assms in \<open>auto intro: walk_step.intros\<close>)

text \<open>An idle worker may leave when it is told to quit or nothing is pending.\<close>

definition idle_phase :: "'fd phase \<Rightarrow> bool" where
  "idle_phase ph \<longleftrightarrow> ph = LoopTop \<or> ph = Finding \<or> ph = NoTask"

lemma idle_can_exit:
  assumes "w < n" "idle_phase (ws_phase s w)" "ws_quit s \<or> ws_pending s = 0"
  shows "walk_reach ctx pf visitor n s (set_phase w Exited s)"
proof -
  have top: "walk_reach ctx pf visitor n u (set_phase w Exited u)"
    if "ws_phase u w = NoTask" "ws_quit u \<or> ws_pending u = 0" for u
  proof (cases "ws_pending u = 0")
    case True
    then show ?thesis using that assms(1) by (blast intro: reach_one all_done)
  next
    case False
    have "walk_step ctx pf visitor n w u (set_phase w LoopTop u)"
      using False that assms(1) by (blast intro: snooze)
    moreover have "walk_step ctx pf visitor n w (set_phase w LoopTop u) (set_phase w Exited (set_phase w LoopTop u))"
      using False that assms(1) by (intro quit_seen) auto
    ultimately show ?thesis
      using reach_step [OF reach_one] by fastforce
  qed
  have find: "walk_reach ctx pf visitor n u (set_phase w Exited u)"
    if "ws_phase u w = Finding" "ws_quit u \<or> ws_pending u = 0" for u
  proof -
    have "walk_step ctx pf visitor n w u (set_phase w NoTask u)"
      using that assms(1) by (blast intro: miss)
    then show ?thesis
      using walk_reach_trans [OF top [of "set_phase w NoTask u"] reach_one] that by simp
  qed
  have loop: "walk_reach ctx pf visitor n u (set_phase w Exited u)"
    if "ws_phase u w = LoopTop" "ws_quit u \<or> ws_pending u = 0" for u
  proof -
    have "walk_step ctx pf visitor n w u (set_phase w Finding u)"
      using that assms(1) by (blast intro: look)
    then show ?thesis
      using walk_reach_trans [OF find [of "set_phase w Finding u"] reach_one] that by simp
  qed
  show ?thesis using assms top find loop by (auto simp: idle_phase_def)
qed

lemma all_can_exit:
  assumes "\<And>w. w < n \<Longrightarrow> idle_phase (ws_phase s w) \<or> ws_phase s w = Exited"
    and "ws_quit s \<or> ws_pending s = 0"
  shows "\<exists>s'. walk_reach ctx pf visitor n s s' \<and> walk_returned n s'"
proof -
  have "m \<le> n \<Longrightarrow> \<exists>s'. walk_reach ctx pf visitor n s s' \<and> (\<forall>w < m. ws_phase s' w = Exited)
      \<and> (\<forall>w < n. idle_phase (ws_phase s' w) \<or> ws_phase s' w = Exited)
      \<and> (ws_quit s' \<or> ws_pending s' = 0)" for m
  proof (induction m)
    case 0
    then show ?case using assms by (blast intro: reach_start)
  next
    case (Suc m)
    then obtain u where u: "walk_reach ctx pf visitor n s u" "\<forall>w < m. ws_phase u w = Exited"
      "\<forall>w < n. idle_phase (ws_phase u w) \<or> ws_phase u w = Exited" "ws_quit u \<or> ws_pending u = 0"
      by auto
    show ?case
    proof (cases "ws_phase u m = Exited")
      case True
      then show ?thesis using u by (auto simp: less_Suc_eq)
    next
      case False
      have m: "m < n" using Suc.prems by simp
      have "idle_phase (ws_phase u m)" using u(3) m False by blast
      then have "walk_reach ctx pf visitor n u (set_phase m Exited u)"
        by (rule idle_can_exit [OF m _ u(4)])
      then have "walk_reach ctx pf visitor n s (set_phase m Exited u)"
        by (rule walk_reach_trans [OF _ u(1)])
      then show ?thesis
        using u by (intro exI [of _ "set_phase m Exited u"]) (auto simp: less_Suc_eq)
    qed
  qed
  from this [of n] show ?thesis by (auto simp: walk_returned_def)
qed

text \<open>An idle worker finds a task when there is one.\<close>

lemma finding_takes_task:
  assumes "w < n" "ws_phase s w = Finding" "ws_injector s \<noteq> [] \<or> (\<exists>v < n. ws_local s v \<noteq> [])"
  shows "\<exists>s' t. walk_step ctx pf visitor n w s s' \<and> ws_phase s' w = Begin t"
proof (cases "ws_local s w")
  case (Cons t ts)
  then show ?thesis using pop_local [OF assms(1,2) Cons] by fastforce
next
  case Nil
  show ?thesis
  proof (cases "ws_injector s")
    case (Cons t rest)
    then show ?thesis
      using steal_injector [OF assms(1,2) Nil, of t "[]" rest "[]"] by fastforce
  next
    case inj: Nil
    then obtain v where v: "v < n" "ws_local s v \<noteq> []" using assms(3) by blast
    then obtain ts t where "ws_local s v = ts @ [t]" by (cases "ws_local s v" rule: rev_cases) auto
    then show ?thesis using steal_worker [OF assms(1,2) Nil v(1)] by fastforce
  qed
qed

lemma idle_takes_task:
  assumes "w < n" "idle_phase (ws_phase s w)" "ws_injector s \<noteq> [] \<or> (\<exists>v < n. ws_local s v \<noteq> [])"
    "ws_pending s \<noteq> 0"
  shows "\<exists>s' t. walk_reach ctx pf visitor n s s' \<and> ws_phase s' w = Begin t"
proof -
  have find: "\<exists>s' t. walk_reach ctx pf visitor n u s' \<and> ws_phase s' w = Begin t"
    if "ws_phase u w = Finding" "ws_injector u = ws_injector s" "ws_local u = ws_local s" for u
  proof -
    have "\<exists>s' t. walk_step ctx pf visitor n w u s' \<and> ws_phase s' w = Begin t"
      by (rule finding_takes_task) (use that assms(1,3) in simp_all)
    then show ?thesis using reach_one by blast
  qed
  have loop: "\<exists>s' t. walk_reach ctx pf visitor n u s' \<and> ws_phase s' w = Begin t"
    if "ws_phase u w = LoopTop" "ws_injector u = ws_injector s" "ws_local u = ws_local s" for u
  proof -
    have "\<exists>s' t. walk_reach ctx pf visitor n (set_phase w Finding u) s' \<and> ws_phase s' w = Begin t"
      by (rule find) (use that in simp_all)
    then show ?thesis using reach_first [OF look [OF assms(1) that(1)]] by blast
  qed
  have no: "\<exists>s' t. walk_reach ctx pf visitor n s s' \<and> ws_phase s' w = Begin t" if n: "ws_phase s w = NoTask"
  proof -
    have "\<exists>s' t. walk_reach ctx pf visitor n (set_phase w LoopTop s) s' \<and> ws_phase s' w = Begin t"
      by (rule loop) simp_all
    then show ?thesis using reach_first [OF snooze [OF assms(1) n assms(4)]] by blast
  qed
  show ?thesis using assms(2) find loop no by (auto simp: idle_phase_def)
qed

lemma phase_trichotomy: "working ph \<or> (\<exists>t d xs. ph = Queueing t d xs) \<or> idle_phase ph \<or> ph = Exited"
  by (cases ph) (simp_all add: idle_phase_def)

text \<open>Unless everybody can leave, a worker can be brought to work.\<close>

lemma can_work:
  assumes n: "0 < n" and inv: "ws_pending s = task_count n s" "exit_ok n s"
    and busy: "\<not> ((\<forall>w < n. idle_phase (ws_phase s w) \<or> ws_phase s w = Exited) \<and> (ws_quit s \<or> ws_pending s = 0))"
  shows "\<exists>s' w. walk_reach ctx pf visitor n s s' \<and> w < n \<and> working (ws_phase s' w)"
proof (cases "\<exists>w < n. \<not> idle_phase (ws_phase s w) \<and> ws_phase s w \<noteq> Exited")
  case True
  then obtain w where w: "w < n" "\<not> idle_phase (ws_phase s w)" "ws_phase s w \<noteq> Exited" by blast
  show ?thesis
  proof (cases "working (ws_phase s w)")
    case True
    then show ?thesis using w(1) reach_start by blast
  next
    case False
    then obtain t d xs where "ws_phase s w = Queueing t d xs"
      using phase_trichotomy [of "ws_phase s w"] w by blast
    then show ?thesis using reach_one [OF push_task [OF w(1)]] w(1) by fastforce
  qed
next
  case False
  then have idle: "\<forall>w < n. idle_phase (ws_phase s w) \<or> ws_phase s w = Exited" by blast
  then have nq: "\<not> ws_quit s" and pend: "ws_pending s \<noteq> 0" using busy by blast+
  then have "\<not> nothing_left n s" using inv(1) task_count_0 [of n s] by simp
  then have no_exit: "ws_phase s w \<noteq> Exited" if "w < n" for w
    using inv(2) nq that by (auto simp: exit_ok_def)
  have "held (ws_phase s w) = 0" if "w < n" for w
    using idle that by (auto simp: idle_phase_def)
  then have "ws_injector s \<noteq> [] \<or> (\<exists>v < n. ws_local s v \<noteq> [])"
    using \<open>\<not> nothing_left n s\<close> by (auto simp: nothing_left_def)
  moreover have "idle_phase (ws_phase s 0)" using idle no_exit n by blast
  ultimately show ?thesis
    using idle_takes_task [OF n _ _ pend] n working.simps(1) by metis
qed

lemma reach_keeps:
  assumes "walk_reach ctx pf visitor n s s'" "I s" "\<And>w u u'. I u \<Longrightarrow> walk_step ctx pf visitor n w u u' \<Longrightarrow> I u'"
  shows "I s'"
  using assms(1) by (induction rule: walk_reach.induct) (blast intro: assms(2,3))+

text \<open>A measure that no step raises and every working step lowers lets the walk return.\<close>

lemma can_finish_by:
  fixes m :: "('fd, 'v) walk_state \<Rightarrow> 'o :: wellorder"
  assumes n: "0 < n"
    and step: "\<And>w u u'. I u \<Longrightarrow> walk_step ctx pf visitor n w u u' \<Longrightarrow>
      I u' \<and> m u' \<le> m u \<and> (working (ws_phase u w) \<longrightarrow> m u' < m u)"
    and "ws_pending s = task_count n s" "exit_ok n s" "I s"
  shows "\<exists>s'. walk_reach ctx pf visitor n s s' \<and> walk_returned n s'"
  using assms(3-5)
proof (induction "m s" arbitrary: s rule: less_induct)
  case less
  show ?case
  proof (cases "(\<forall>w < n. idle_phase (ws_phase s w) \<or> ws_phase s w = Exited) \<and> (ws_quit s \<or> ws_pending s = 0)")
    case True
    then show ?thesis using all_can_exit by blast
  next
    case False
    obtain u w where u: "walk_reach ctx pf visitor n s u" "w < n" "working (ws_phase u w)"
      using can_work [OF n less.prems(1,2) False] by blast
    obtain v where v: "walk_step ctx pf visitor n w u v" using working_can_step [OF u(2,3)] by blast
    have sv: "walk_reach ctx pf visitor n s v" by (rule reach_step [OF u(1) v])
    have "I u \<and> m u \<le> m s"
      by (rule reach_keeps [OF u(1), where I = "\<lambda>x. I x \<and> m x \<le> m s"])
         (use less.prems(3) step in \<open>auto intro: order_trans\<close>)
    then have "I v" "m v < m s" using step [OF _ v] u(3) by (auto intro: less_le_trans)
    moreover have "ws_pending v = task_count n v \<and> exit_ok n v"
      by (rule reach_keeps [OF sv, where I = "\<lambda>x. ws_pending x = task_count n x \<and> exit_ok n x"])
         (use less.prems(1,2) pending_step exit_ok_step in blast)+
    ultimately obtain s' where "walk_reach ctx pf visitor n v s'" "walk_returned n s'"
      using less.hyps by blast
    then show ?thesis using walk_reach_trans [OF _ sv] by blast
  qed
qed

lemma can_finish:
  assumes "0 < n" "ws_pending s = task_count n s" "exit_ok n s" "tree_inv ctx pf k n whole s"
  shows "\<exists>s'. walk_reach ctx pf visitor n s s' \<and> walk_returned n s'"
proof (rule can_finish_by [where I = "tree_inv ctx pf k n whole" and m = "effort_left ctx pf k n", OF assms(1) _ assms(2-4)])
  fix w u u'
  assume inv: "tree_inv ctx pf k n whole u" and st: "walk_step ctx pf visitor n w u u'"
  have "all_fit ctx pf k n u" using inv by (simp add: tree_inv_def)
  from effort_step [OF st this]
  show "tree_inv ctx pf k n whole u' \<and> effort_left ctx pf k n u' \<le> effort_left ctx pf k n u
      \<and> (working (ws_phase u w) \<longrightarrow> effort_left ctx pf k n u' < effort_left ctx pf k n u)"
    using tree_inv_step [OF st inv] by (auto split: if_splits)
qed

text \<open>
  No deadlock and no lost wake-up: from every state the walk can get into, also after a visitor
  told it to quit, it can still be brought to return.
\<close>

theorem walk_can_always_return:
  assumes "walk_reach ctx pf visitor (n_workers (ctx_args ctx)) (walk_init ctx pf roots make_visitor) s"
    and "roots_fit ctx pf k roots"
  shows "\<exists>s'. walk_reach ctx pf visitor (n_workers (ctx_args ctx)) s s'
    \<and> walk_returned (n_workers (ctx_args ctx)) s'"
  by (rule can_finish [OF n_workers_pos pending_reach [OF assms(1) pending_init] exit_ok_reach [OF assms(1)]
        tree_inv_reach [OF assms(1) tree_inv_init [OF assms(2)]]])

lemma finished_walk:
  assumes "0 < n" "roots_fit ctx pf k roots" "\<And>v e st. fst (visitor v e st) = WalkContinue"
  obtains s where "walk_reach ctx pf visitor n (walk_init ctx pf roots make_visitor) s" "walk_returned n s"
    and "mset (ws_log s) = roots_tree ctx pf k roots"
proof -
  obtain s where s: "walk_reach ctx pf visitor n (walk_init ctx pf roots make_visitor) s" "walk_returned n s"
    using can_finish [OF assms(1) pending_init exit_ok_reach [OF reach_start] tree_inv_init [OF assms(2)]]
    by blast
  from returned_log [OF s assms(1-3)] that s show ?thesis by blast
qed

end
