(* ===== verification/Leaf.thy ===== *)
theory Leaf
  imports Walk_Progress Predicates
begin

text \<open>
  What the walker relies on in a platform leaf, as a locale: the path handed to the callback of
  \<open>for_each_entry\<close> is the directory's path joined with the entry's name. From it: the name that
  \<open>descend\<close> recovers from a task's path is the name that was listed, so a child is opened by the
  very name seen; and the depth of an entry is the number of names below its root. The theories
  \<open>Unix\<close> and \<open>Fallback\<close> interpret it on the two leaves of the source.
\<close>

locale walk_leaf =
  fixes pf :: "'fd platform"
  assumes entry_path: "(p, leaf, ty) \<in> set (pf_for_each_entry pf dir parent) \<Longrightarrow> p = path_join parent leaf"
begin

lemma opened_by_listed_name:
  assumes "(p, leaf, ty) \<in> set (pf_for_each_entry pf (d_dir d) parent)" "leaf_name leaf"
    and "child_task ctx d (p, leaf, ty) = Some u"
  shows "open_task pf u = pf_open_child pf (d_dir d) leaf (path_join parent leaf) (ty = Symlink)"
proof -
  have p: "p = path_join parent leaf" by (rule entry_path [OF assms(1)])
  then have "path_file_name p = Some leaf" using path_file_name_join [OF assms(2)] by simp
  then show ?thesis
    using assms(3) p by (auto simp: child_task_def open_task_def split: if_splits)
qed

lemma depth_is_distance:
  assumes "e \<in># walk_tree ctx pf k t" "t_path t = foldl path_join root ns" "t_depth t = of_nat (length ns)"
  shows "\<exists>ms. e_path (fst e) = foldl path_join root ms \<and> e_depth (fst e) = of_nat (length ms)"
proof (rule member_walk_tree [OF assms(1), where
      P = "\<lambda>t. \<exists>ms. t_path t = foldl path_join root ms \<and> t_depth t = of_nat (length ms)" and
      Q = "\<lambda>e. \<exists>ms. e_path (fst e) = foldl path_join root ms \<and> e_depth (fst e) = of_nat (length ms)"])
  fix t d x
  assume "\<exists>ms. t_path t = foldl path_join root ms \<and> t_depth t = of_nat (length ms)"
    and o: "descend_open ctx pf t True = Some d"
    and x: "x \<in> set (pf_for_each_entry pf (d_dir d) (t_path t))"
  then obtain ms where ms: "t_path t = foldl path_join root ms" "t_depth t = of_nat (length ms)"
    by blast
  obtain p leaf ty where xe: "x = (p, leaf, ty)" by (cases x)
  obtain ns where p: "p = foldl path_join root ns" and dep: "d_child_depth d = of_nat (length ns)"
    using entry_path [of p leaf ty "d_dir d" "t_path t"] x ms descend_open_fields(1) [OF o] unfolding xe
    by (intro that [of "ms @ [leaf]"]) simp_all
  have "t_path u = p \<and> t_depth u = d_child_depth d" if "child_task ctx d x = Some u" for u
    using that by (auto simp: child_task_def xe split: if_splits)
  then show "(\<exists>ms. e_path (fst (child_visit ctx d x)) = foldl path_join root ms
        \<and> e_depth (fst (child_visit ctx d x)) = of_nat (length ms))
      \<and> (\<forall>u. child_task ctx d x = Some u \<longrightarrow>
          (\<exists>ms. t_path u = foldl path_join root ms \<and> t_depth u = of_nat (length ms)))"
    using p dep by (auto simp: child_visit_def child_entry_def xe)
qed (use assms(2,3) in \<open>auto simp: root_visit_def root_entry_def\<close>)

lemma logged_depth_is_distance:
  assumes "walk_reach ctx pf visitor n (walk_init ctx pf roots mv) s" "roots_fit ctx pf k roots"
    "e \<in> set (ws_log s)"
  shows "\<exists>root ms. root \<in> set roots \<and> e_path (fst e) = foldl path_join root ms
    \<and> e_depth (fst e) = of_nat (length ms)"
proof -
  obtain t where t: "t \<in> set (root_tasks (ctx_args ctx) pf roots)" "e \<in># walk_tree ctx pf k t"
    by (rule walk_log_in_tree [OF assms])
  from depth_is_distance [OF t(2), of "t_path t" "[]"] show ?thesis
    using root_tasks_fields [OF t(1)] by auto
qed

end

end
