(* ===== verification/Fallback.thy ===== *)
theory Fallback
  imports Leaf
begin

text \<open>
  The leaf for other platforms, \<open>src/walk/fallback.rs\<close>: the anchor of a directory is its path and
  everything goes through \<open>std::fs\<close>, whose calls are the record \<open>std_fs\<close>. The hash of a path is
  \<open>DefaultHasher\<close>'s, a parameter.
\<close>

datatype StdFileType = StdDir | StdSymlink | StdOther

record std_meta =
  md_len :: u64
  md_modified :: "int + SystemTime"
  md_created :: "int + SystemTime"
  md_accessed :: "int + SystemTime"
  md_type :: StdFileType

record std_fs =
  fs_canonicalize :: "path \<Rightarrow> int + path"
  fs_hash :: "path \<Rightarrow> u64"
  fs_read_dir :: "path \<Rightarrow> int + (int + string \<times> (int + StdFileType)) list"
  fs_metadata :: "path \<Rightarrow> int + std_meta"
  fs_symlink_metadata :: "path \<Rightarrow> int + std_meta"
  fs_read_link :: "path \<Rightarrow> int + path"

definition fb_path_hash :: "std_fs \<Rightarrow> path \<Rightarrow> u64" where
  "fb_path_hash fs p = fs_hash fs (case fs_canonicalize fs p of Inr c \<Rightarrow> c | Inl _ \<Rightarrow> p)"

definition fb_path_id :: "std_fs \<Rightarrow> path \<Rightarrow> int + u64 \<times> u64" where
  "fb_path_id fs p = Inr (0, fb_path_hash fs p)"

definition fb_open_root :: "std_fs \<Rightarrow> path \<Rightarrow> bool \<Rightarrow> int + path" where
  "fb_open_root fs p follow = and_then (fs_read_dir fs p) (\<lambda>_. Inr p)"

definition fb_open_child :: "std_fs \<Rightarrow> path \<Rightarrow> string \<Rightarrow> path \<Rightarrow> bool \<Rightarrow> int + path" where
  "fb_open_child fs parent leaf full follow = fb_open_root fs full follow"

definition fb_dir_id :: "std_fs \<Rightarrow> path \<Rightarrow> int + u64 \<times> u64" where
  "fb_dir_id fs d = Inr (0, fb_path_hash fs d)"

definition fb_map_type :: "StdFileType \<Rightarrow> EntryType" where
  "fb_map_type ft = (if ft = StdDir then Dir else if ft = StdSymlink then Symlink else File)"

fun fb_entry_calls ::
  "std_fs \<Rightarrow> path \<Rightarrow> (int + string \<times> (int + StdFileType)) list \<Rightarrow> (path \<times> string \<times> EntryType) list" where
  "fb_entry_calls fs parent [] = []"
| "fb_entry_calls fs parent (Inl e # items) = []"
| "fb_entry_calls fs parent (Inr (name, file_type) # items) =
     (let p = path_join parent name in
      case (case file_type of
              Inr ft \<Rightarrow> Some (fb_map_type ft)
            | Inl _ \<Rightarrow>
                (case fs_symlink_metadata fs p of
                   Inr m \<Rightarrow> Some (fb_map_type (md_type m))
                 | Inl _ \<Rightarrow> None)) of
        None \<Rightarrow> fb_entry_calls fs parent items
      | Some ty \<Rightarrow> (p, name, ty) # fb_entry_calls fs parent items)"

definition fb_for_each_entry :: "std_fs \<Rightarrow> path \<Rightarrow> path \<Rightarrow> (path \<times> string \<times> EntryType) list" where
  "fb_for_each_entry fs d parent =
     (case fs_read_dir fs d of Inl _ \<Rightarrow> [] | Inr items \<Rightarrow> fb_entry_calls fs parent items)"

definition fb_secs :: "int + SystemTime \<Rightarrow> i64" where
  "fb_secs t = (case t of Inl _ \<Rightarrow> 0 | Inr st \<Rightarrow> if sint (st_secs st) < 0 then 0 else st_secs st)"

definition fb_meta_of :: "std_fs \<Rightarrow> path \<Rightarrow> bool \<Rightarrow> int + Meta" where
  "fb_meta_of fs p follow =
     and_then (if follow then fs_metadata fs p else fs_symlink_metadata fs p) (\<lambda>md. Inr
       \<lparr>m_size = md_len md, m_mtime = fb_secs (md_modified md), m_ctime = fb_secs (md_created md),
        m_atime = fb_secs (md_accessed md), m_mode = 0, m_uid = 0, m_gid = 0, m_nlink = 0, m_ino = 0\<rparr>)"

definition fb_stat_at :: "std_fs \<Rightarrow> path \<Rightarrow> string \<Rightarrow> bool \<Rightarrow> u32 \<Rightarrow> int + Meta" where
  "fb_stat_at fs dir name follow msk = fb_meta_of fs (path_join dir name) follow"

definition fb_stat_root :: "std_fs \<Rightarrow> path \<Rightarrow> bool \<Rightarrow> u32 \<Rightarrow> int + Meta" where
  "fb_stat_root fs p follow msk = fb_meta_of fs p follow"

definition fb_access_at :: "path \<Rightarrow> string \<Rightarrow> u8 \<Rightarrow> bool" where
  "fb_access_at dir name mode = True"

definition fb_access_root :: "path \<Rightarrow> u8 \<Rightarrow> bool" where
  "fb_access_root p mode = True"

definition fb_readlink_at :: "std_fs \<Rightarrow> path \<Rightarrow> string \<Rightarrow> osstring option" where
  "fb_readlink_at fs dir name =
     (case fs_read_link fs (path_join dir name) of Inl _ \<Rightarrow> None | Inr t \<Rightarrow> Some t)"

definition fb_readlink_root :: "std_fs \<Rightarrow> path \<Rightarrow> osstring option" where
  "fb_readlink_root fs p = (case fs_read_link fs p of Inl _ \<Rightarrow> None | Inr t \<Rightarrow> Some t)"

definition fallback_platform :: "std_fs \<Rightarrow> path platform" where
  "fallback_platform fs =
     \<lparr>pf_path_id = fb_path_id fs, pf_open_root = fb_open_root fs, pf_open_child = fb_open_child fs,
      pf_dir_id = fb_dir_id fs, pf_for_each_entry = fb_for_each_entry fs,
      pf_stat_at = fb_stat_at fs, pf_stat_root = fb_stat_root fs,
      pf_access_at = fb_access_at, pf_access_root = fb_access_root,
      pf_readlink_at = fb_readlink_at fs, pf_readlink_root = fb_readlink_root fs\<rparr>"

lemma fb_entry_calls_join:
  "(p, leaf, ty) \<in> set (fb_entry_calls fs parent items) \<Longrightarrow> p = path_join parent leaf"
  by (induction fs parent items rule: fb_entry_calls.induct)
     (auto simp: Let_def split: option.splits)

interpretation fallback: walk_leaf "fallback_platform fs" for fs
  by unfold_locales
     (auto simp: fallback_platform_def fb_for_each_entry_def dest: fb_entry_calls_join split: sum.splits)

section \<open>One file system\<close>

lemma fb_descend_open_device:
  assumes "t_root_dev t = 0"
  shows "descend_open (ctx\<lparr>ctx_args := (ctx_args ctx)\<lparr>a_one_filesystem := b\<rparr>\<rparr>) (fallback_platform fs) t a
    = descend_open ctx (fallback_platform fs) t a"
  using assms
  by (cases "open_task (fallback_platform fs) t"; cases "t_ancestors t"; cases "a_max_depth (ctx_args ctx)")
     (simp_all add: descend_open_def fallback_platform_def fb_dir_id_def)

lemma fb_child_task_ctx:
  "child_task (ctx\<lparr>ctx_args := (ctx_args ctx)\<lparr>a_one_filesystem := b\<rparr>\<rparr>) d x = child_task ctx d x"
  by (simp add: child_task_def descends_into_def cong: EntryType.case_cong)

lemma fb_child_visit_ctx:
  "child_visit (ctx\<lparr>ctx_args := (ctx_args ctx)\<lparr>a_one_filesystem := b\<rparr>\<rparr>) d x = child_visit ctx d x"
  by (simp add: child_visit_def)

lemma fb_own_visit_ctx:
  "own_visit (ctx\<lparr>ctx_args := (ctx_args ctx)\<lparr>a_one_filesystem := b\<rparr>\<rparr>) t = own_visit ctx t"
  by (simp add: own_visit_def root_visit_def)

lemma fb_walk_tree_device:
  assumes "t_root_dev t = 0"
  shows "walk_tree (ctx\<lparr>ctx_args := (ctx_args ctx)\<lparr>a_one_filesystem := b\<rparr>\<rparr>) (fallback_platform fs) k t
    = walk_tree ctx (fallback_platform fs) k t"
  using assms
proof (induction k arbitrary: t)
  case (Suc k)
  let ?c = "ctx\<lparr>ctx_args := (ctx_args ctx)\<lparr>a_one_filesystem := b\<rparr>\<rparr>" and ?pf = "fallback_platform fs"
  have ch: "task_children ?c ?pf t = task_children ctx ?pf t"
    unfolding task_children_def fb_descend_open_device [OF Suc.prems] visits_def fb_child_task_ctx fb_child_visit_ctx
    by (simp add: excluded_def cong: option.case_cong)
  have dev: "t_root_dev u = 0" if "(e, Some u) \<in> set (task_children ctx ?pf t)" for e u
    using that
  proof (rule task_children_opened)
    fix d x assume "descend_open ctx ?pf t True = Some d" "Some u = child_task ctx d x"
    then show ?thesis using child_task_fields(3) [of ctx d x u] descend_open_fields(2) [of ctx ?pf t d] Suc.prems
      by simp
  qed
  have "list_all (child_ok (\<lambda>u. t_root_dev u = 0)) (task_children ctx ?pf t)"
    using dev by (auto simp: list_all_iff split: option.split)
  from sum_subtree_cong [OF this, of "walk_tree ?c ?pf k" "walk_tree ctx ?pf k"] show ?case
    using Suc.IH by (simp add: ch fb_own_visit_ctx)
qed simp

text \<open>
  On this leaf \<open>--one-filesystem\<close> changes nothing: every directory is reported on device 0, so the
  whole walk is the same with and without it.
\<close>

theorem fallback_ignores_one_filesystem:
  "roots_tree (ctx\<lparr>ctx_args := (ctx_args ctx)\<lparr>a_one_filesystem := b\<rparr>\<rparr>) (fallback_platform fs) k roots
   = roots_tree ctx (fallback_platform fs) k roots"
proof -
  have "root_task ((ctx_args ctx)\<lparr>a_one_filesystem := b\<rparr>) pf = root_task (ctx_args ctx) pf" for pf :: "path platform"
    by (rule ext) (simp add: root_task_def)
  then have r: "root_tasks ((ctx_args ctx)\<lparr>a_one_filesystem := b\<rparr>) pf roots = root_tasks (ctx_args ctx) pf roots"
    for pf :: "path platform" by (simp add: root_tasks_def)
  have "t_root_dev t = 0" if "t \<in> set (root_tasks (ctx_args ctx) (fallback_platform fs) roots)" for t
    using that by (auto simp: root_tasks_def List.map_filter_def root_task_def fallback_platform_def fb_path_id_def)
  then show ?thesis
    unfolding roots_tree_def by (simp add: r fb_walk_tree_device cong: map_cong)
qed

end
