(* ===== verification/Ratelimit.thy ===== *)
theory Ratelimit
  imports Prelude
begin

text \<open>
  The throttle of \<open>src/ratelimit.rs\<close>. The \<open>governor\<close> limiter and its clock are parameters: \<open>check\<close>
  gives for the \<open>i\<close>-th call either a token or the time from which one is due, \<open>now\<close> the reading of
  the clock after it. Times and durations are nanoseconds. The flag is read once per iteration:
  \<open>quit i\<close> is what the \<open>i\<close>-th load sees. The model of the loop also returns the naps it takes.
\<close>

definition MAX_NAP :: nat where "MAX_NAP = 100000000"

definition wait_time_from :: "nat \<Rightarrow> nat \<Rightarrow> nat" where
  "wait_time_from due now = due - now"

text \<open>
  A \<open>Limiter\<close> is the governor limiter for \<open>Quota::per_second(rate)\<close> and the clock it was made with; \<open>direct\<close> stands for
  \<open>RateLimiter::direct_with_clock\<close>, \<open>clock i\<close> for the reading at the \<open>i\<close>-th call.
\<close>

record Limiter =
  lim_inner :: "nat \<Rightarrow> nat + unit"
  lim_clock :: "nat \<Rightarrow> nat"

definition with_clock :: "(u32 \<Rightarrow> (nat \<Rightarrow> nat) \<Rightarrow> nat \<Rightarrow> nat + unit) \<Rightarrow> u32 \<Rightarrow> (nat \<Rightarrow> nat) \<Rightarrow> Limiter" where
  "with_clock direct rate clock = \<lparr>lim_inner = direct rate clock, lim_clock = clock\<rparr>"

definition limiter_new :: "(u32 \<Rightarrow> (nat \<Rightarrow> nat) \<Rightarrow> nat \<Rightarrow> nat + unit) \<Rightarrow> (nat \<Rightarrow> nat) \<Rightarrow> u32 \<Rightarrow> Limiter" where
  "limiter_new direct default_clock rate = with_clock direct rate default_clock"

definition try_acquire :: "(nat \<Rightarrow> nat + unit) \<Rightarrow> (nat \<Rightarrow> nat) \<Rightarrow> nat \<Rightarrow> nat + unit" where
  "try_acquire check now i = map_err (\<lambda>due. wait_time_from due (now i)) (check i)"

partial_function (option) acquire ::
  "(nat \<Rightarrow> bool) \<Rightarrow> (nat \<Rightarrow> nat + unit) \<Rightarrow> (nat \<Rightarrow> nat) \<Rightarrow> nat \<Rightarrow> nat list \<Rightarrow> (bool \<times> nat list) option" where
  "acquire quit check now i naps =
     (if quit i then Some (False, naps)
      else
        (case try_acquire check now i of
           Inr _ \<Rightarrow> Some (True, naps)
         | Inl wait \<Rightarrow> acquire quit check now (i + 1) (naps @ [min wait MAX_NAP])))"

definition over :: "(nat \<Rightarrow> bool) \<Rightarrow> (nat \<Rightarrow> nat + unit) \<Rightarrow> nat \<Rightarrow> bool" where
  "over quit check i \<longleftrightarrow> quit i \<or> check i = Inr ()"

definition acquired_at :: "(nat \<Rightarrow> bool) \<Rightarrow> (nat \<Rightarrow> nat + unit) \<Rightarrow> nat \<Rightarrow> nat list \<Rightarrow> bool \<times> nat list \<Rightarrow> bool" where
  "acquired_at quit check i naps res \<longleftrightarrow>
     (\<exists>j \<ge> i. over quit check j \<and> (\<forall>k. i \<le> k \<and> k < j \<longrightarrow> \<not> over quit check k)
       \<and> fst res = (\<not> quit j)
       \<and> (\<exists>ns. snd res = naps @ ns \<and> length ns = j - i \<and> (\<forall>n \<in> set ns. n \<le> MAX_NAP)))"

lemma acquire_steps:
  "acquire quit check now i naps = Some res \<Longrightarrow> acquired_at quit check i naps res"
proof (rule acquire.raw_induct [rotated, where P = "\<lambda>quit check now i naps res. acquired_at quit check i naps res"],
    assumption, goal_cases)
  case (1 acq quit check now i naps res)
  note IH = 1(2) and body = 1(3)
  show ?case
  proof (cases "over quit check i")
    case True
    then have "res = (\<not> quit i, naps)"
      using body by (auto simp: over_def try_acquire_def split: if_splits)
    with True show ?thesis by (auto simp: acquired_at_def intro!: exI [of _ i])
  next
    case False
    then obtain due where due: "check i = Inl due" by (cases "check i") (auto simp: over_def)
    define nap where "nap = min (wait_time_from due (now i)) MAX_NAP"
    have "acq quit check now (Suc i) (naps @ [nap]) = Some res"
      using body False due by (simp add: over_def try_acquire_def nap_def)
    from IH [OF this] obtain j ns where j: "Suc i \<le> j" "over quit check j"
      "\<forall>k. Suc i \<le> k \<and> k < j \<longrightarrow> \<not> over quit check k" "fst res = (\<not> quit j)"
      "snd res = naps @ nap # ns" "length ns = j - Suc i" "\<forall>n \<in> set ns. n \<le> MAX_NAP"
      by (auto simp: acquired_at_def)
    have "\<not> over quit check k" if "i \<le> k" "k < j" for k
      using that j(3) False by (cases "k = i") auto
    moreover have "nap \<le> MAX_NAP" by (simp add: nap_def)
    ultimately show ?thesis
      using j unfolding acquired_at_def by (intro exI [of _ j] conjI exI [of _ "nap # ns"]) auto
  qed
qed

lemma acquire_returns:
  assumes "over quit check j" "i \<le> j"
  shows "\<exists>r. acquire quit check now i naps = Some r"
  using assms(2)
proof (induction "j - i" arbitrary: i naps)
  case 0
  then have "over quit check i" using assms(1) by simp
  then show ?case by (subst acquire.simps) (auto simp: over_def try_acquire_def)
next
  case (Suc d)
  then have "\<exists>r. acquire quit check now (i + 1) naps' = Some r" for naps' by auto
  then show ?case by (subst acquire.simps) (auto split: sum.split)
qed

text \<open>
  C36. \<open>acquire\<close> against its contract. It returns as soon as the flag is set or a token is there, and
  not before; \<open>true\<close> means a token was taken, and \<open>false\<close> that the flag was seen first; in every
  iteration before that it slept once, never longer than 100 ms, so a throttled worker sees the
  flag within one nap of its being set.
\<close>

theorem acquire_contract:
  assumes "over quit check j" "\<And>k. k < j \<Longrightarrow> \<not> over quit check k"
  shows "\<exists>naps. acquire quit check now 0 [] = Some (\<not> quit j, naps)
    \<and> length naps = j \<and> list_all (\<lambda>n. n \<le> 100000000) naps"
proof -
  obtain r naps where a: "acquire quit check now 0 [] = Some (r, naps)"
    using acquire_returns [OF assms(1), of 0] by fastforce
  from acquire_steps [OF a, unfolded acquired_at_def] obtain j' where j': "over quit check j'" "\<forall>k. k < j' \<longrightarrow> \<not> over quit check k"
    "r = (\<not> quit j')" "length naps = j'" "\<forall>n \<in> set naps. n \<le> MAX_NAP"
    by auto
  have "j' = j" using assms j'(1,2) by (meson linorder_neqE_nat)
  with a j' show ?thesis by (simp add: list_all_iff MAX_NAP_def)
qed

theorem acquire_contract_witness:
  "\<exists>naps. acquire (\<lambda>i. 5 \<le> i) (\<lambda>i. if i = 2 then Inr () else Inl 300000000) (\<lambda>i. 0) 0 [] = Some (True, naps)
    \<and> length naps = 2"
proof -
  have "over (\<lambda>i. 5 \<le> i) (\<lambda>i. if i = 2 then Inr () else Inl 300000000) 2" by (simp add: over_def)
  moreover have "\<not> over (\<lambda>i. 5 \<le> i) (\<lambda>i. if i = 2 then Inr () else Inl 300000000) k" if "k < 2" for k :: nat
    using that by (simp add: over_def)
  ultimately show ?thesis using acquire_contract [of "\<lambda>i. 5 \<le> i" _ 2 "\<lambda>i. 0"] by auto
qed

end
