(* ===== verification/Walk_Example.thy ===== *)
theory Walk_Example
  imports Walk_Progress
begin

text \<open>
  A small file system and command line on which the theorems about the walk are instantiated: two
  workers, a root \<open>r\<close> with a file and a directory, the directory with a file and, under
  \<open>--follow-symlinks\<close>, a link back to the root. The existence of a finished walk rests on
  \<open>can_finish\<close>, so no schedule is picked by hand.
\<close>

definition demo_args :: Args where
  "demo_args =
     \<lparr>a_follow_symlinks = False, a_one_filesystem = True, a_threads = 3, a_idle = False,
      a_max_depth = None, a_min_depth = None, a_max_scan_rate = None, a_max_results = None,
      a_name = None, a_regex = None, a_case_insensitive = False,
      a_file_type = [SelDirectory, SelFile, SelSymlink], a_meta = default_predicates,
      a_path_glob = None, a_lname = None, a_access = 0, a_exclude = None, a_null = False,
      a_path = [''r'']\<rparr>"

definition demo_ctx :: WalkCtx where
  "demo_ctx = \<lparr>ctx_args = demo_args, ctx_limited = False, ctx_exclude = None\<rparr>"

definition demo_pf :: "string platform" where
  "demo_pf =
     \<lparr>pf_path_id = (\<lambda>p. if p = ''r'' then Inr (1, 1) else Inl 2),
      pf_open_root = (\<lambda>p _. Inr p),
      pf_open_child = (\<lambda>_ _ p _. Inr (if p = ''r/d/l'' then ''r'' else p)),
      pf_dir_id = (\<lambda>fd. if fd = ''r'' then Inr (1, 1) else if fd = ''r/d'' then Inr (1, 2) else Inl 20),
      pf_for_each_entry = (\<lambda>fd p.
        if fd = ''r'' then [(''r/f'', ''f'', File), (''r/d'', ''d'', Dir)]
        else if fd = ''r/d'' then [(''r/d/g'', ''g'', File), (''r/d/l'', ''l'', Symlink)]
        else []),
      pf_stat_at = (\<lambda>_ _ _ _. Inl 2), pf_stat_root = (\<lambda>_ _ _. Inl 2),
      pf_access_at = (\<lambda>_ _ _. True), pf_access_root = (\<lambda>_ _. True),
      pf_readlink_at = (\<lambda>_ _. None), pf_readlink_root = (\<lambda>_. None)\<rparr>"

definition keep_going :: "unit \<Rightarrow> Entry \<Rightarrow> string StatAt \<Rightarrow> WalkState \<times> unit" where
  "keep_going v e st = (WalkContinue, ())"

lemmas demo_defs = demo_args_def demo_ctx_def demo_pf_def

lemma demo_roots: "root_tasks (ctx_args demo_ctx) demo_pf [''r''] =
    [\<lparr>t_path = ''r'', t_parent = None, t_follow = True, t_depth = 0, t_root_dev = 1, t_ancestors = None\<rparr>]"
  by (simp add: root_tasks_def root_task_def demo_defs List.map_filter_def)

lemmas demo_eval = demo_defs task_children_def descend_open_def open_task_def visits_def
  excluded_def child_task_def child_entry_def descends_into_def own_visit_def root_entry_def
  root_visit_def child_visit_def

lemma demo_fits: "roots_fit demo_ctx demo_pf 3 [''r'']"
  unfolding roots_fit_def demo_roots by (simp add: demo_eval eval_nat_numeral)

lemma demo_finishes: "\<exists>s. walk_parallel demo_ctx demo_pf keep_going [''r''] (\<lambda>_. ()) s"
proof -
  let ?s0 = "walk_init demo_ctx demo_pf [''r''] (\<lambda>_. ()) :: (string, unit) walk_state"
  have "\<exists>s. walk_reach demo_ctx demo_pf keep_going (n_workers (ctx_args demo_ctx)) ?s0 s
      \<and> walk_returned (n_workers (ctx_args demo_ctx)) s"
    by (rule can_finish [OF n_workers_pos pending_init exit_ok_reach [OF reach_start] tree_inv_init [OF demo_fits]])
  then show ?thesis by (simp add: walk_parallel_def)
qed

abbreviation demo_root :: "path \<Rightarrow> Entry \<times> string StatAt" where
  "demo_root p \<equiv> (\<lparr>e_path = p, e_file_type = Dir, e_depth = 0\<rparr>, stat_root p False)"

abbreviation demo_child :: "path \<Rightarrow> string \<Rightarrow> EntryType \<Rightarrow> usize \<Rightarrow> Entry \<times> string StatAt" where
  "demo_child dir n ty d \<equiv>
     (\<lparr>e_path = dir @ ''/'' @ n, e_file_type = ty, e_depth = d\<rparr>, stat_child dir n False)"

lemma demo_tree: "roots_tree demo_ctx demo_pf 3 [''r''] =
    {#demo_root ''r'', demo_child ''r'' ''f'' File 1, demo_child ''r'' ''d'' Dir 1,
      demo_child ''r/d'' ''g'' File 2, demo_child ''r/d'' ''l'' Symlink 2#}"
  unfolding roots_tree_def demo_roots by (simp add: demo_eval eval_nat_numeral)

theorem every_entry_once_witness:
  "\<exists>s. walk_parallel demo_ctx demo_pf keep_going [''r''] (\<lambda>_. ()) s
     \<and> mset (ws_log s) = {#demo_root ''r'', demo_child ''r'' ''f'' File 1,
         demo_child ''r'' ''d'' Dir 1, demo_child ''r/d'' ''g'' File 2, demo_child ''r/d'' ''l'' Symlink 2#}"
proof -
  obtain s where s: "walk_parallel demo_ctx demo_pf keep_going [''r''] (\<lambda>_. ()) s"
    using demo_finishes by blast
  have "mset (ws_log s) = roots_tree demo_ctx demo_pf 3 [''r'']"
    by (rule every_entry_once [OF s demo_fits]) (simp add: keep_going_def)
  with s show ?thesis unfolding demo_tree by blast
qed

theorem never_more_than_the_tree_witness:
  "\<exists>s. walk_parallel demo_ctx demo_pf keep_going [''r''] (\<lambda>_. ()) s
     \<and> mset (ws_log s) \<subseteq># roots_tree demo_ctx demo_pf 3 [''r'']"
proof -
  obtain s where s: "walk_parallel demo_ctx demo_pf keep_going [''r''] (\<lambda>_. ()) s"
    using demo_finishes by blast
  then show ?thesis using never_more_than_the_tree demo_fits unfolding walk_parallel_def by blast
qed

theorem walk_can_always_return_witness:
  "\<exists>s'. walk_reach demo_ctx demo_pf keep_going (n_workers (ctx_args demo_ctx))
       (walk_init demo_ctx demo_pf [''r''] (\<lambda>_. ())) s'
     \<and> walk_returned (n_workers (ctx_args demo_ctx)) s'"
  by (rule walk_can_always_return [OF reach_start demo_fits])

text \<open>A whole walk of the example, from the start until both workers have left.\<close>

theorem work_is_bounded_witness:
  "\<exists>j s. walk_run demo_ctx demo_pf keep_going 2 (walk_init demo_ctx demo_pf [''r''] (\<lambda>_. ())) j s \<and> walk_returned 2 s
     \<and> j \<le> sum_list (map (effort demo_ctx demo_pf 3) (root_tasks (ctx_args demo_ctx) demo_pf [''r'']))"
proof -
  have n: "n_workers (ctx_args demo_ctx) = 2" by (simp add: n_workers_def demo_ctx_def demo_args_def)
  obtain s where s: "walk_parallel demo_ctx demo_pf keep_going [''r''] (\<lambda>_. ()) s"
    using demo_finishes by blast
  have run: "\<exists>j. walk_run demo_ctx demo_pf keep_going 2 s0 j s'" if "walk_reach demo_ctx demo_pf keep_going 2 s0 s'" for s0 s'
    using that by (induction rule: walk_reach.induct) (blast intro: run_start run_step)+
  obtain j where "walk_run demo_ctx demo_pf keep_going 2 (walk_init demo_ctx demo_pf [''r''] (\<lambda>_. ())) j s" "walk_returned 2 s"
    using s run unfolding walk_parallel_def n by blast
  with work_is_bounded [OF this(1) demo_fits] show ?thesis by blast
qed

text \<open>With links followed, the cycle \<open>r/d/l\<close> back to \<open>r\<close> is cut by the ancestor test.\<close>

definition follow_ctx :: WalkCtx where
  "follow_ctx = demo_ctx\<lparr>ctx_args := demo_args\<lparr>a_follow_symlinks := True\<rparr>\<rparr>"

theorem walk_height_bounded_witness: "roots_fit follow_ctx demo_pf 3 [''r'']"
  by (rule walk_height_bounded [where S = "{(1, 1), (1, 2)}" and mx = 0])
     (auto simp: follow_ctx_def demo_defs split: if_splits)

definition shallow_ctx :: WalkCtx where
  "shallow_ctx = demo_ctx\<lparr>ctx_args := demo_args\<lparr>a_max_depth := Some 1\<rparr>\<rparr>"

lemma shallow_roots: "root_tasks (ctx_args shallow_ctx) demo_pf [''r''] =
    [\<lparr>t_path = ''r'', t_parent = None, t_follow = True, t_depth = 0, t_root_dev = 1, t_ancestors = None\<rparr>]"
  by (simp add: shallow_ctx_def root_tasks_def root_task_def demo_defs List.map_filter_def)

lemma shallow_fits: "roots_fit shallow_ctx demo_pf 2 [''r'']"
  using roots_fit_max_depth [of shallow_ctx 1 demo_pf "[''r'']"] by (simp add: shallow_ctx_def eval_nat_numeral)

end
