(* ===== verification/Descriptors.thy ===== *)
theory Descriptors
  imports Walk_Example
begin

text \<open>
  How many directories the walk keeps open. A queued task pins the descriptor of its parent directory;
  \<open>raise_nofile_limit\<close> in lib.rs counts on a frontier of about workers times depth. The invariant behind
  it: every deque is sorted by depth, newest first, and its tasks of one depth were all pushed by the
  read of one directory, since a worker always takes its newest task, and a thief, whose own deque is
  empty, takes one task from the other end.
\<close>

section \<open>Room below the height of the tree\<close>

text \<open>The depth of a task and the height of what is below it are at most \<open>k\<close> together.\<close>

definition room :: "WalkCtx \<Rightarrow> 'fd platform \<Rightarrow> nat \<Rightarrow> 'fd Task \<Rightarrow> bool" where
  "room ctx pf k t \<longleftrightarrow> (\<exists>j. fits ctx pf j t \<and> unat (t_depth t) + j \<le> k)"

lemma room_depth: "room ctx pf k t \<Longrightarrow> unat (t_depth t) < k"
  by (auto simp: room_def) (metis fits.simps(1) gr0I less_add_same_cancel1 less_le_trans)

definition child_tasks :: "WalkCtx \<Rightarrow> 'fd descent \<Rightarrow> (path \<times> string \<times> EntryType) list \<Rightarrow> 'fd Task set" where
  "child_tasks ctx d xs = {u. \<exists>x \<in> set xs. \<not> excluded ctx (fst (snd x)) \<and> child_task ctx d x = Some u}"

lemma child_tasks_Cons:
  "child_tasks ctx d (x # xs) =
     (if excluded ctx (fst (snd x)) then {} else set_option (child_task ctx d x)) \<union> child_tasks ctx d xs"
  by (auto simp: child_tasks_def)

lemma child_in_children:
  assumes "descend_open ctx pf t True = Some d"
    and "u \<in> child_tasks ctx d (pf_for_each_entry pf (d_dir d) (t_path t))"
  obtains e where "(e, Some u) \<in> set (task_children ctx pf t)"
proof -
  obtain x where x: "x \<in> set (pf_for_each_entry pf (d_dir d) (t_path t))" "\<not> excluded ctx (fst (snd x))"
    "child_task ctx d x = Some u" using assms(2) by (auto simp: child_tasks_def)
  obtain p leaf ty where "x = (p, leaf, ty)" by (cases x)
  with x have "(child_visit ctx d x, Some u) \<in> set (visits ctx d (pf_for_each_entry pf (d_dir d) (t_path t)))"
    by (auto simp: visits_def intro!: image_eqI [where x = "(p, leaf, ty)"])
  then show ?thesis by (intro that [of "child_visit ctx d x"]) (simp add: task_children_def assms(1))
qed

lemma room_descend:
  assumes "room ctx pf k t" "k < 2 ^ 64" "descend_open ctx pf t a = Some d"
  shows "unat (d_child_depth d) = unat (t_depth t) + 1"
    and "\<And>u. u \<in> child_tasks ctx d (pf_for_each_entry pf (d_dir d) (t_path t)) \<Longrightarrow> room ctx pf k u"
proof -
  note o = descend_open_token [OF assms(3)]
  have "unat (t_depth t) + 1 < 2 ^ 64" using room_depth [OF assms(1)] assms(2) by simp
  then show d: "unat (d_child_depth d) = unat (t_depth t) + 1"
    using descend_open_fields(1) [OF o] by (simp add: unat_word_ariths)
  fix u assume u: "u \<in> child_tasks ctx d (pf_for_each_entry pf (d_dir d) (t_path t))"
  obtain j where j: "fits ctx pf j t" "unat (t_depth t) + j \<le> k" using assms(1) by (auto simp: room_def)
  then obtain i where i: "j = Suc i" "list_all (child_ok (fits ctx pf i)) (task_children ctx pf t)"
    by (cases j) auto
  obtain e where "(e, Some u) \<in> set (task_children ctx pf t)" by (rule child_in_children [OF o u])
  then have "fits ctx pf i u" using i(2) by (auto simp: list_all_iff)
  moreover have "t_depth u = d_child_depth d" using u child_task_fields(1) by (auto simp: child_tasks_def)
  ultimately show "room ctx pf k u" using d j(2) i(1) by (auto simp: room_def)
qed

section \<open>The shape of a deque\<close>

definition same_level :: "'fd Task \<Rightarrow> 'fd Task \<Rightarrow> bool" where
  "same_level t u \<longleftrightarrow> t_depth u < t_depth t \<or> (t_depth u = t_depth t \<and> t_parent u = t_parent t)"

definition task_ok :: "WalkCtx \<Rightarrow> 'fd platform \<Rightarrow> nat \<Rightarrow> 'fd Task \<Rightarrow> bool" where
  "task_ok ctx pf k t \<longleftrightarrow> room ctx pf k t \<and> (t_parent t \<noteq> None \<longrightarrow> 0 < t_depth t)"

definition reading_ok ::
  "WalkCtx \<Rightarrow> 'fd platform \<Rightarrow> nat \<Rightarrow> 'fd descent \<Rightarrow> (path \<times> string \<times> EntryType) list \<Rightarrow> 'fd Task list \<Rightarrow> bool" where
  "reading_ok ctx pf k d ys ts \<longleftrightarrow>
     0 < d_child_depth d
     \<and> (\<forall>u \<in> child_tasks ctx d ys. room ctx pf k u)
     \<and> (\<forall>u \<in> set ts. t_depth u < d_child_depth d \<or> (t_depth u = d_child_depth d \<and> t_parent u = Some (d_dir d)))"

fun hand_ok :: "WalkCtx \<Rightarrow> 'fd platform \<Rightarrow> nat \<Rightarrow> 'fd phase \<Rightarrow> 'fd Task list \<Rightarrow> bool" where
  "hand_ok ctx pf k (Begin t) ts = (task_ok ctx pf k t \<and> (\<forall>u \<in> set ts. t_depth u \<le> t_depth t))"
| "hand_ok ctx pf k (Descending t) ts = (task_ok ctx pf k t \<and> (\<forall>u \<in> set ts. t_depth u \<le> t_depth t))"
| "hand_ok ctx pf k (Reading d ys) ts = reading_ok ctx pf k d ys ts"
| "hand_ok ctx pf k (Queueing t d ys) ts =
     (reading_ok ctx pf k d ys ts \<and> room ctx pf k t \<and> t_depth t = d_child_depth d \<and> t_parent t = Some (d_dir d))"
| "hand_ok ctx pf k _ ts = True"

definition deque_ok :: "WalkCtx \<Rightarrow> 'fd platform \<Rightarrow> nat \<Rightarrow> 'fd phase \<Rightarrow> 'fd Task list \<Rightarrow> bool" where
  "deque_ok ctx pf k ph ts \<longleftrightarrow>
     (\<forall>t \<in> set ts. task_ok ctx pf k t) \<and> sorted_wrt same_level ts \<and> hand_ok ctx pf k ph ts"

definition root_like :: "WalkCtx \<Rightarrow> 'fd platform \<Rightarrow> nat \<Rightarrow> 'fd Task \<Rightarrow> bool" where
  "root_like ctx pf k t \<longleftrightarrow> room ctx pf k t \<and> t_depth t = 0 \<and> t_parent t = None"

definition deques_ok :: "WalkCtx \<Rightarrow> 'fd platform \<Rightarrow> nat \<Rightarrow> ('fd, 'v) walk_state \<Rightarrow> bool" where
  "deques_ok ctx pf k s \<longleftrightarrow>
     (\<forall>t \<in> set (ws_injector s). root_like ctx pf k t)
     \<and> (\<forall>w. deque_ok ctx pf k (ws_phase s w) (ws_local s w))"

lemmas deque_defs = deque_ok_def reading_ok_def task_ok_def root_like_def

lemma deque_okI:
  assumes "deques_ok ctx pf k s" "\<And>t. t \<in> set (ws_injector s') \<Longrightarrow> t \<in> set (ws_injector s)"
    and "ws_phase s' = (ws_phase s)(w := ph)" "ws_local s' = (ws_local s)(w := ts)" "deque_ok ctx pf k ph ts"
  shows "deques_ok ctx pf k s'"
  using assms by (simp add: deques_ok_def)

text \<open>Pushing the task in hand, and taking the newest one.\<close>

lemma push_ok:
  assumes "deque_ok ctx pf k (Queueing t d ys) ts"
  shows "deque_ok ctx pf k (Reading d ys) (t # ts)"
  using assms by (auto simp: deque_defs same_level_def)

lemma pop_ok:
  assumes "deque_ok ctx pf k Finding (t # ts)"
  shows "deque_ok ctx pf k (Begin t) ts"
  using assms by (auto simp: deque_ok_def same_level_def order_le_less)

lemma roots_sorted:
  assumes "\<forall>t \<in> set ts. root_like ctx pf k t"
  shows "sorted_wrt same_level ts"
  using assms by (induction ts) (auto simp: root_like_def same_level_def)

lemma steal_roots_ok:
  assumes "\<forall>t \<in> set (t # ts). root_like ctx pf k t"
  shows "deque_ok ctx pf k (Begin t) ts"
  using assms roots_sorted [of ts] by (auto simp: deque_defs)

lemma read_one_hand:
  assumes "reading_ok ctx pf k d (x # xs) ts"
  shows "hand_ok ctx pf k (ws_phase (read_one ctx visitor w d x xs s) w) ts"
proof -
  obtain r v' where r: "read_entry ctx visitor d x (ws_visitor s w) = (r, v')"
    by (cases "read_entry ctx visitor d x (ws_visitor s w)")
  have tail: "reading_ok ctx pf k d xs ts" using assms by (simp add: reading_ok_def child_tasks_Cons)
  show ?thesis
  proof (cases "excluded ctx (fst (snd x))")
    case True
    then show ?thesis using read_entry_cases [OF r] r tail by (simp add: read_one_def)
  next
    case False
    have "room ctx pf k u" if "child_task ctx d x = Some u" for u
      using assms that False by (simp add: reading_ok_def child_tasks_Cons)
    then show ?thesis
      using read_entry_cases [OF r] r tail False child_task_fields(1,5) [of ctx d x]
      by (auto simp: read_one_def visit_effect_def split: read_result.split option.split)
  qed
qed

lemma descend_hand:
  assumes "hand_ok ctx pf k (Descending t) ts" "k < 2 ^ 64"
  shows "hand_ok ctx pf k (descend_phase ctx pf t a) ts"
proof (cases "descend_open ctx pf t a")
  case (Some d)
  have room: "room ctx pf k t" using assms(1) by (simp add: task_ok_def)
  note d = room_descend [OF room assms(2) Some]
  have "t_depth t < d_child_depth d" using d(1) by (simp add: word_less_nat_alt)
  then show ?thesis
    using assms(1) d(2) Some
    by (auto simp: descend_phase_def reading_ok_def intro: le_less_trans)
qed (simp add: descend_phase_def)

lemma begin_hand:
  assumes "hand_ok ctx pf k (Begin t) ts"
  shows "hand_ok ctx pf k (ws_phase (begin_task ctx visitor w t s) w) ts"
  using assms
  by (simp add: begin_task_def begin_root_def visit_effect_def split: WalkState.split prod.split)

lemma hand_subset: "hand_ok ctx pf k ph ts \<Longrightarrow> set us \<subseteq> set ts \<Longrightarrow> hand_ok ctx pf k ph us"
  by (cases ph) (auto simp: reading_ok_def)

lemma deques_ok_step:
  assumes st: "walk_step ctx pf visitor n w s s'" and inv: "deques_ok ctx pf k s" and k: "k < 2 ^ 64"
  shows "deques_ok ctx pf k s'"
proof -
  have here: "deque_ok ctx pf k (ws_phase s w) (ws_local s w)" using inv by (simp add: deques_ok_def)
  have same: "deques_ok ctx pf k s'"
    if "ws_injector s' = ws_injector s" "ws_local s' = ws_local s" "ws_phase s' = (ws_phase s)(w := ph)"
      "hand_ok ctx pf k ph (ws_local s w)" for ph
    by (rule deque_okI [OF inv, of _ w ph "ws_local s w"]) (use that here in \<open>auto simp: deque_ok_def\<close>)
  show ?thesis
    using st
  proof cases
    case (pop_local t ts)
    then show ?thesis using here pop_ok [of ctx pf k t ts]
      by (intro deque_okI [OF inv, of _ w "Begin t" ts]) auto
  next
    case (steal_injector t batch rest kept)
    have "set kept = set batch" using steal_injector(6) by (rule mset_eq_setD)
    then have "\<forall>u \<in> set (t # kept). root_like ctx pf k u"
      using inv steal_injector(5) by (auto simp: deques_ok_def)
    then show ?thesis using steal_injector steal_roots_ok [of t kept]
      by (intro deque_okI [OF inv, of _ w "Begin t" kept]) auto
  next
    case (steal_worker w' ts t)
    have v: "deque_ok ctx pf k (ws_phase s w') (ts @ [t])" using inv steal_worker(6) by (metis deques_ok_def)
    have ne: "w \<noteq> w'" using steal_worker by auto
    have thief: "deque_ok ctx pf k (Begin t) []" using v by (simp add: deque_ok_def)
    have victim: "deque_ok ctx pf k (ws_phase s w') ts"
      using v hand_subset [of ctx pf k "ws_phase s w'" "ts @ [t]" ts] by (auto simp: deque_ok_def sorted_wrt_append)
    show ?thesis
      using inv steal_worker(1,4) ne thief victim by (simp add: deques_ok_def)
  next
    case (begin_process t)
    have "hand_ok ctx pf k (Begin t) (ws_local s w)" using here begin_process(3) by (simp add: deque_ok_def)
    note h = begin_hand [OF this, of visitor w s, folded begin_process(1)]
    show ?thesis
      by (rule same [OF _ _ _ h]) (rule begin_task_frame [OF begin_process(1)])+
  next
    case (open_dir t acquired)
    have "hand_ok ctx pf k (Descending t) (ws_local s w)" using here open_dir(3) by (simp add: deque_ok_def)
    from descend_hand [OF this k] show ?thesis by (rule same [rotated 3]) (simp_all add: open_dir(1))
  next
    case (read_next d x xs)
    have "reading_ok ctx pf k d (x # xs) (ws_local s w)" using here read_next(3) by (simp add: deque_ok_def)
    note h = read_one_hand [OF this, of visitor w s]
    show ?thesis
      by (rule same [where ph = "ws_phase s' w"]) (use read_next h read_one_frame [OF read_next(1)] in auto)
  next
    case (push_task t d xs)
    then show ?thesis using here push_ok [of ctx pf k t d xs "ws_local s w"]
      by (intro deque_okI [OF inv, of _ w "Reading d xs" "t # ws_local s w"]) auto
  qed (use same in auto)
qed

lemma deques_ok_init:
  assumes "roots_fit ctx pf k roots"
  shows "deques_ok ctx pf k (walk_init ctx pf roots mv)"
  using assms root_tasks_fields [of _ "ctx_args ctx" pf roots]
  by (auto simp: deques_ok_def walk_init_def deque_ok_def root_like_def room_def roots_fit_def list_all_iff)

lemma deques_ok_reach:
  assumes "walk_reach ctx pf visitor n s0 s" "deques_ok ctx pf k s0" "k < 2 ^ 64"
  shows "deques_ok ctx pf k s"
  using assms(1,2) by (induction rule: walk_reach.induct) (blast intro: deques_ok_step [OF _ _ assms(3)])+

section \<open>The frontier\<close>

text \<open>The directories pinned by the tasks of one deque.\<close>

definition pinned :: "'fd Task list \<Rightarrow> 'fd set" where
  "pinned ts = {fd. \<exists>t \<in> set ts. t_parent t = Some fd}"

lemma same_level_parent:
  "sorted_wrt same_level ts \<Longrightarrow> t \<in> set ts \<Longrightarrow> u \<in> set ts \<Longrightarrow> t_depth t = t_depth u \<Longrightarrow> t_parent t = t_parent u"
  by (induction ts) (auto simp: same_level_def)

lemma card_image_factor:
  assumes "finite A" "\<And>x y. x \<in> A \<Longrightarrow> y \<in> A \<Longrightarrow> f x = f y \<Longrightarrow> g x = g y"
  shows "card (g ` A) \<le> card (f ` A)"
proof -
  have "g (inv_into A f (f x)) = g x" if "x \<in> A" for x
    by (rule assms(2)) (use that in \<open>simp_all add: f_inv_into_f inv_into_into\<close>)
  then have "g ` A = (\<lambda>i. g (inv_into A f i)) ` f ` A" by (simp add: image_image cong: image_cong)
  then show ?thesis using assms(1) by (simp add: card_image_le)
qed

lemma pinned_card:
  assumes "deque_ok ctx pf k ph ts"
  shows "card (pinned ts) \<le> k - 1"
proof -
  let ?ts = "{t \<in> set ts. t_parent t \<noteq> None}"
  have "pinned ts = (\<lambda>t. the (t_parent t)) ` ?ts" by (force simp: pinned_def)
  also have "card \<dots> \<le> card ((\<lambda>t. unat (t_depth t)) ` ?ts)"
  proof (rule card_image_factor)
    fix t u assume "t \<in> ?ts" "u \<in> ?ts" "unat (t_depth t) = unat (t_depth u)"
    then have "t_parent t = t_parent u"
      using same_level_parent [of ts t u] assms by (simp add: deque_ok_def word_unat_eq_iff)
    then show "the (t_parent t) = the (t_parent u)" by simp
  qed simp
  also have "\<dots> \<le> card {1..<k}"
  proof (rule card_mono)
    have "1 \<le> unat (t_depth t) \<and> unat (t_depth t) < k" if "t \<in> ?ts" for t
    proof -
      have "task_ok ctx pf k t" using that assms by (simp add: deque_ok_def)
      then have "room ctx pf k t" "0 < t_depth t" using that by (simp_all add: task_ok_def)
      then show ?thesis using room_depth [of ctx pf k t] by (simp add: word_less_nat_alt)
    qed
    then show "(\<lambda>t. unat (t_depth t)) ` ?ts \<subseteq> {1..<k}" by auto
  qed simp
  finally show ?thesis by simp
qed

text \<open>
  C13. The frontier of pinned directories is at most workers times depth: on a tree at most \<open>k\<close> high, the
  tasks queued with one worker pin at most \<open>k - 1\<close> directories, however many tasks there are and however
  they were stolen, and the tasks in the injector none.
\<close>

theorem pinned_directories_bounded:
  assumes "walk_reach ctx pf visitor n (walk_init ctx pf roots make_visitor) s"
    and "roots_fit ctx pf k roots" "k < 2 ^ 64"
  shows "pinned (ws_injector s) = {} \<and> card (pinned (ws_local s w)) \<le> k - 1
    \<and> card (\<Union>w<n. pinned (ws_local s w)) \<le> n * (k - 1)"
proof -
  have inv: "deques_ok ctx pf k s" by (rule deques_ok_reach [OF assms(1) deques_ok_init [OF assms(2)] assms(3)])
  have each: "card (pinned (ws_local s w)) \<le> k - 1" for w
    by (rule pinned_card) (use inv in \<open>auto simp: deques_ok_def\<close>)
  have "card (\<Union>w<n. pinned (ws_local s w)) \<le> (\<Sum>w<n. card (pinned (ws_local s w)))"
    by (rule card_UN_le) simp
  also have "\<dots> \<le> (\<Sum>w<n. k - 1)" by (rule sum_mono) (rule each)
  finally show ?thesis
    using each inv by (auto simp: pinned_def deques_ok_def root_like_def)
qed

text \<open>On the example: after the root was read, its directory \<open>d\<close> is queued and pins the root.\<close>

lemma demo_pins:
  "\<exists>s. walk_reach demo_ctx demo_pf keep_going 2 (walk_init demo_ctx demo_pf [''r''] (\<lambda>_. ())) s
     \<and> pinned (ws_local s 0) = {''r''}"
proof -
  let ?t = "\<lparr>t_path = ''r'', t_parent = None, t_follow = True, t_depth = 0, t_root_dev = 1, t_ancestors = None\<rparr> :: string Task"
  let ?d = "\<lparr>d_dir = ''r'', d_child_ancestors = None, d_child_depth = 1, d_enqueue_children = True, d_root_dev = 1\<rparr> :: string descent"
  let ?f = "(''r/f'', ''f'', File)" and ?e = "(''r/d'', ''d'', Dir)"
  let ?c = "\<lparr>t_path = ''r/d'', t_parent = Some ''r'', t_follow = False, t_depth = 1, t_root_dev = 1, t_ancestors = None\<rparr> :: string Task"
  define s0 :: "(string, unit) walk_state" where "s0 = walk_init demo_ctx demo_pf [''r''] (\<lambda>_. ())"
  let ?reach = "walk_reach demo_ctx demo_pf keep_going 2 s0"
  have p0: "ws_phase s0 0 = LoopTop" "ws_local s0 0 = []" "ws_injector s0 = [?t]"
    unfolding s0_def walk_init_def demo_roots by simp_all
  define s1 where "s1 = set_phase 0 Finding s0"
  have p1: "ws_phase s1 0 = Finding" "ws_local s1 0 = []" "ws_injector s1 = ?t # [] @ []"
    unfolding s1_def using p0 by simp_all
  have r1: "?reach s1" unfolding s1_def by (rule reach_step [OF reach_start walk_step.look]) (simp_all add: p0)
  define s2 where "s2 = set_phase 0 (Begin ?t) (s1\<lparr>ws_injector := [], ws_local := (ws_local s1)(0 := [])\<rparr>)"
  have p2: "ws_phase s2 0 = Begin ?t" "ws_local s2 0 = []" unfolding s2_def by simp_all
  have r2: "?reach s2" unfolding s2_def
    by (rule reach_step [OF r1 walk_step.steal_injector [OF _ p1]]) simp_all
  define s3 where "s3 = begin_task demo_ctx keep_going 0 ?t s2"
  have p3: "ws_phase s3 0 = Descending ?t" "ws_local s3 0 = []"
    unfolding s3_def begin_task_def begin_root_def call_visitor_def keep_going_def visit_effect_def
    using p2 by simp_all
  have r3: "?reach s3" unfolding s3_def by (rule reach_step [OF r2 walk_step.begin_process [OF _ p2(1)]]) simp
  define s4 where "s4 = set_phase 0 (descend_phase demo_ctx demo_pf ?t True) s3"
  have "descend_phase demo_ctx demo_pf ?t True = Reading ?d [?f, ?e]" by (simp add: descend_phase_def demo_eval)
  then have p4: "ws_phase s4 0 = Reading ?d [?f, ?e]" "ws_local s4 0 = []" unfolding s4_def using p3 by simp_all
  have r4: "?reach s4" unfolding s4_def by (rule reach_step [OF r3 walk_step.open_dir [OF _ p3(1)]]) simp_all
  have read: "read_entry demo_ctx keep_going ?d ?f v = (Visited None, ())"
    "read_entry demo_ctx keep_going ?d ?e v = (Visited (Some ?c), ())" for v
    by (simp_all add: read_entry_def call_visitor_def keep_going_def excluded_def child_task_def
        descends_into_def demo_ctx_def del: One_nat_def)
  define s5 where "s5 = read_one demo_ctx keep_going 0 ?d ?f [?e] s4"
  have p5: "ws_phase s5 0 = Reading ?d [?e]" "ws_local s5 0 = []"
    unfolding s5_def read_one_def read visit_effect_def using p4 by simp_all
  have r5: "?reach s5" unfolding s5_def by (rule reach_step [OF r4 walk_step.read_next [OF _ p4(1)]]) simp
  define s6 where "s6 = read_one demo_ctx keep_going 0 ?d ?e [] s5"
  have p6: "ws_phase s6 0 = Queueing ?c ?d []" "ws_local s6 0 = []"
    unfolding s6_def read_one_def read visit_effect_def using p5 by simp_all
  have r6: "?reach s6" unfolding s6_def by (rule reach_step [OF r5 walk_step.read_next [OF _ p5(1)]]) simp
  define s7 where "s7 = set_phase 0 (Reading ?d []) (s6\<lparr>ws_local := (ws_local s6)(0 := ?c # ws_local s6 0)\<rparr>)"
  have r7: "?reach s7" unfolding s7_def by (rule reach_step [OF r6 walk_step.push_task [OF _ p6(1)]]) simp
  have "pinned (ws_local s7 0) = {''r''}" unfolding s7_def using p6 by (simp add: pinned_def)
  with r7 show ?thesis unfolding s0_def by blast
qed

theorem pinned_directories_bounded_witness:
  "\<exists>s. walk_reach demo_ctx demo_pf keep_going 2 (walk_init demo_ctx demo_pf [''r''] (\<lambda>_. ())) s
     \<and> card (pinned (ws_local s 0)) = 1 \<and> card (pinned (ws_local s 0)) \<le> 2"
proof -
  obtain s where s: "walk_reach demo_ctx demo_pf keep_going 2 (walk_init demo_ctx demo_pf [''r''] (\<lambda>_. ())) s"
    "pinned (ws_local s 0) = {''r''}" using demo_pins by blast
  have "(3 :: nat) < 2 ^ 64" by simp
  from pinned_directories_bounded [OF s(1) demo_fits this, where w = 0]
  have "card (pinned (ws_local s 0)) \<le> 3 - 1" by (elim conjE)
  then have "card (pinned (ws_local s 0)) \<le> 2" by simp
  moreover have "card (pinned (ws_local s 0)) = 1" unfolding s(2) by simp
  ultimately show ?thesis using s(1) by blast
qed

end
