(* ===== verification/Depth_Cut.thy ===== *)
theory Depth_Cut
  imports Walk_Example
begin

text \<open>
  \<open>--max-depth\<close> as a filter: cutting the walk at a depth visits what the uncut walk visits down to that
  depth, although the cut walk neither opens nor queues the directories below.
\<close>

abbreviation uncut :: "WalkCtx \<Rightarrow> WalkCtx" where
  "uncut ctx \<equiv> ctx\<lparr>ctx_args := (ctx_args ctx)\<lparr>a_max_depth := None\<rparr>\<rparr>"

definition within :: "usize \<Rightarrow> (Entry \<times> 'fd StatAt) multiset \<Rightarrow> (Entry \<times> 'fd StatAt) multiset" where
  "within d M = filter_mset (\<lambda>ev. e_depth (fst ev) \<le> d) M"

lemma within_simps [simp]:
  "within d {#} = {#}" "within d (M + N) = within d M + within d N"
  "within d (add_mset ev M) = (if e_depth (fst ev) \<le> d then add_mset ev (within d M) else within d M)"
  by (simp_all add: within_def)

lemma within_sum: "within d (sum_list (map f xs)) = (\<Sum>x\<leftarrow>xs. within d (f x))"
  by (induction xs) simp_all

section \<open>One directory\<close>

lemma cut_open:
  assumes "a_max_depth (ctx_args ctx) = Some mx"
  shows "descend_open ctx pf t True =
    (if mx \<le> t_depth t then None
     else map_option (\<lambda>d. d\<lparr>d_enqueue_children := (t_depth t + 1 < mx)\<rparr>) (descend_open (uncut ctx) pf t True))"
  using assms by (auto simp: descend_open_def split: sum.split)

lemma uncut_open:
  "descend_open (uncut ctx) pf t True = Some d \<Longrightarrow> d_child_depth d = t_depth t + 1 \<and> d_enqueue_children d"
  by (auto simp: descend_open_def split: sum.splits if_splits option.splits)

lemma uncut_visits:
  "visits (uncut ctx) d xs = visits ctx d xs"
proof -
  have "descends_into ty (ctx_args (uncut ctx)) = descends_into ty (ctx_args ctx)" for ty
    by (cases ty) (simp_all add: descends_into_def)
  then have "excluded (uncut ctx) = excluded ctx" "child_visit (uncut ctx) d = child_visit ctx d"
    "child_task (uncut ctx) d = child_task ctx d"
    by (simp_all add: fun_eq_iff excluded_def child_visit_def child_task_def)
  then show ?thesis by (simp only: visits_def)
qed

lemma visits_depth:
  "ec \<in> set (visits ctx d xs) \<Longrightarrow>
   e_depth (fst (fst ec)) = d_child_depth d \<and> pred_option (\<lambda>u. t_depth u = d_child_depth d \<and> t_parent u \<noteq> None) (snd ec)"
  by (auto simp: visits_def child_visit_def child_entry_def child_task_def split: if_splits)

text \<open>Whether children are queued changes the tasks of the visits, not the entries.\<close>

lemma visits_queue:
  "visits ctx (d\<lparr>d_enqueue_children := b\<rparr>) xs =
     map (\<lambda>(ev, c). (ev, if b then c else None)) (visits ctx (d\<lparr>d_enqueue_children := True\<rparr>) xs)"
  by (auto simp: visits_def child_visit_def child_entry_def child_task_def)

section \<open>The whole tree\<close>

lemma depth_no_wrap: "unat (t_depth t) + Suc k < 2 ^ 64 \<Longrightarrow> unat (t_depth t + (1 :: usize)) = Suc (unat (t_depth t))"
  by (subst unat_word_ariths) simp

definition cut_tree :: "usize \<Rightarrow> WalkCtx \<Rightarrow> 'fd platform \<Rightarrow> nat \<Rightarrow> 'fd Task \<Rightarrow> (Entry \<times> 'fd StatAt) multiset" where
  "cut_tree mx ctx pf k t = (if t_depth t \<le> mx then walk_tree ctx pf k t else {#})"

lemma cut_tree_queued:
  assumes "a_max_depth (ctx_args ctx) = Some mx" "mx \<le> t_depth t" "t_parent t \<noteq> None"
  shows "cut_tree mx ctx pf k t = {#}"
proof (cases k)
  case (Suc j)
  have "task_children ctx pf t = []" by (simp add: task_children_def cut_open [OF assms(1)] assms(2))
  then show ?thesis using assms(3) by (auto simp: cut_tree_def own_visit_def Suc)
qed (simp add: cut_tree_def)

lemma within_walk_tree:
  assumes "a_max_depth (ctx_args ctx) = Some mx"
  shows "unat (t_depth t) + k < 2 ^ 64 \<Longrightarrow> within mx (walk_tree (uncut ctx) pf k t) = cut_tree mx ctx pf k t"
proof (induction k arbitrary: t)
  case (Suc k)
  have own: "within mx (own_visit (uncut ctx) t) = (if t_depth t \<le> mx then own_visit ctx t else {#})"
    by (simp add: own_visit_def root_visit_def root_entry_def)
  note up = depth_no_wrap [of t k, OF Suc.prems]
  show ?case
  proof (cases "descend_open (uncut ctx) pf t True")
    case None
    then have "task_children (uncut ctx) pf t = []" "task_children ctx pf t = []"
      by (simp_all add: task_children_def cut_open [OF assms])
    then show ?thesis using own by (simp add: cut_tree_def)
  next
    case (Some d)
    note d = uncut_open [OF Some]
    define xs where "xs = pf_for_each_entry pf (d_dir d) (t_path t)"
    define vs where "vs = visits ctx d xs"
    have full: "task_children (uncut ctx) pf t = vs"
      by (simp add: task_children_def Some vs_def xs_def uncut_visits)
    have deep: "e_depth (fst (fst ec)) = t_depth t + 1"
      "pred_option (\<lambda>u. t_depth u = t_depth t + 1 \<and> t_parent u \<noteq> None) (snd ec)" if "ec \<in> set vs" for ec
      using visits_depth [of ec ctx d xs] that d by (simp_all add: vs_def)
    have IH: "within mx (walk_tree (uncut ctx) pf k u) = cut_tree mx ctx pf k u" if "t_depth u = t_depth t + 1" for u
      using Suc.IH [of u] Suc.prems that up by simp
    show ?thesis
    proof (cases "mx \<le> t_depth t")
      case True
      then have lt: "mx < t_depth t + 1" using up by (simp add: word_less_nat_alt word_le_nat_alt)
      have "within mx (subtree (walk_tree (uncut ctx) pf k) ec) = {#}" if "ec \<in> set vs" for ec
        using deep [OF that] IH lt by (cases ec) (auto simp: cut_tree_def split: option.splits)
      then have none: "within mx (sum_list (map (subtree (walk_tree (uncut ctx) pf k)) vs)) = {#}"
        unfolding within_sum by (induction vs) simp_all
      have "task_children ctx pf t = []" using True by (simp add: task_children_def cut_open [OF assms])
      then show ?thesis using none own by (simp add: cut_tree_def full)
    next
      case False
      then have le: "t_depth t + 1 \<le> mx" using up by (simp add: word_less_nat_alt word_le_nat_alt not_le)
      define b where "b = (t_depth t + 1 < mx)"
      have self: "d\<lparr>d_enqueue_children := True\<rparr> = d" using d by (cases d) simp
      have cut: "task_children ctx pf t = map (\<lambda>(ev, c). (ev, if b then c else None)) vs"
        using False visits_queue [where d = d and b = b and ctx = ctx and xs = xs] self
        by (simp add: task_children_def cut_open [OF assms] Some vs_def xs_def b_def)
      have "within mx (subtree (walk_tree (uncut ctx) pf k) ec)
          = subtree (walk_tree ctx pf k) (fst ec, if b then snd ec else None)" if "ec \<in> set vs" for ec
      proof (cases "snd ec")
        case None
        then show ?thesis using deep(1) [OF that] le by (cases ec) simp
      next
        case (Some u)
        then have u: "t_depth u = t_depth t + 1" "t_parent u \<noteq> None" using deep(2) [OF that] by simp_all
        have "cut_tree mx ctx pf k u = (if b then walk_tree ctx pf k u else {#})"
          using cut_tree_queued [OF assms, of u pf k] u le by (auto simp: b_def cut_tree_def not_less)
        then show ?thesis using deep(1) [OF that] le Some IH [OF u(1)] by (cases ec) simp
      qed
      then have "within mx (sum_list (map (subtree (walk_tree (uncut ctx) pf k)) vs))
          = sum_list (map (subtree (walk_tree ctx pf k)) (task_children ctx pf t))"
        unfolding within_sum cut by (induction vs) (auto simp: case_prod_beta)
      moreover have "t_depth t \<le> mx" using False by simp
      ultimately show ?thesis by (simp only: walk_tree.simps full within_simps own cut_tree_def if_True)
    qed
  qed
qed (simp add: cut_tree_def)

lemma root_tasks_uncut: "root_tasks (ctx_args (uncut ctx)) pf roots = root_tasks (ctx_args ctx) pf roots"
proof -
  have "root_task (ctx_args (uncut ctx)) pf = root_task (ctx_args ctx) pf"
    by (simp add: root_task_def fun_eq_iff)
  then show ?thesis by (simp only: root_tasks_def)
qed

lemma roots_tree_cut:
  assumes "a_max_depth (ctx_args ctx) = Some mx" "k < 2 ^ 64"
  shows "roots_tree ctx pf k roots = within mx (roots_tree (uncut ctx) pf k roots)"
proof -
  have "within mx (walk_tree (uncut ctx) pf k t) = walk_tree ctx pf k t"
    if "t \<in> set (root_tasks (ctx_args ctx) pf roots)" for t
  proof -
    have "t_depth t = 0" using that by (auto simp: root_tasks_def root_task_def map_filter_def split: sum.splits)
    then show ?thesis using within_walk_tree [OF assms(1), of t k pf] assms(2) by (simp add: cut_tree_def)
  qed
  then have "within mx (sum_list (map (walk_tree (uncut ctx) pf k) (root_tasks (ctx_args ctx) pf roots)))
      = sum_list (map (walk_tree ctx pf k) (root_tasks (ctx_args ctx) pf roots))"
    unfolding within_sum by (intro arg_cong [where f = sum_list] map_cong refl) simp
  then show ?thesis unfolding roots_tree_def root_tasks_uncut by simp
qed

lemma fits_cut:
  assumes "a_max_depth (ctx_args ctx) = Some mx"
  shows "fits (uncut ctx) pf k t \<Longrightarrow> fits ctx pf k t"
proof (induction k arbitrary: t)
  case (Suc k)
  show ?case
  proof (cases "descend_open (uncut ctx) pf t True")
    case None
    then show ?thesis by (simp add: task_children_def cut_open [OF assms])
  next
    case (Some d)
    define xs where "xs = pf_for_each_entry pf (d_dir d) (t_path t)"
    define b where "b = (t_depth t + 1 < mx)"
    have self: "d\<lparr>d_enqueue_children := True\<rparr> = d" using uncut_open [OF Some] by (cases d) simp
    have "list_all (child_ok (fits (uncut ctx) pf k)) (visits ctx d xs)"
      using Suc.prems by (simp add: task_children_def Some xs_def uncut_visits)
    then have all: "list_all (child_ok (fits ctx pf k)) (visits ctx d xs)"
      by (rule list_all_child_mono) (rule Suc.IH)
    then have "list_all (child_ok (fits ctx pf k)) (map (\<lambda>(ev, c). (ev, if b then c else None)) (visits ctx d xs))"
      by (auto simp: list_all_iff)
    then show ?thesis
      using visits_queue [where d = d and b = b and ctx = ctx and xs = xs] self
      by (simp add: task_children_def cut_open [OF assms] Some xs_def b_def)
  qed
qed simp

text \<open>
  C18. \<open>--max-depth d\<close> is a filter: the parallel walk that is cut at depth \<open>d\<close>, which opens no directory at that
  depth, visits exactly the entries the uncut walk visits at depth at most \<open>d\<close>, each as often. (The tree
  has to be less than \<open>2 ^ 64\<close> high, where the depth counter wraps.)
\<close>

theorem max_depth_is_a_filter:
  assumes "walk_parallel ctx pf visitor roots make_visitor s" "a_max_depth (ctx_args ctx) = Some d"
    and "walk_parallel (ctx\<lparr>ctx_args := (ctx_args ctx)\<lparr>a_max_depth := None\<rparr>\<rparr>) pf visitor' roots make_visitor' s'"
    and "roots_fit (ctx\<lparr>ctx_args := (ctx_args ctx)\<lparr>a_max_depth := None\<rparr>\<rparr>) pf k roots" "k < 2 ^ 64"
    and "\<And>v e st. fst (visitor v e st) = WalkContinue" "\<And>v e st. fst (visitor' v e st) = WalkContinue"
  shows "mset (ws_log s) = filter_mset (\<lambda>ev. e_depth (fst ev) \<le> d) (mset (ws_log s'))"
proof -
  have "roots_fit ctx pf k roots"
    using assms(4) fits_cut [OF assms(2)] unfolding roots_fit_def root_tasks_uncut by (auto simp: list_all_iff)
  then have "mset (ws_log s) = roots_tree ctx pf k roots"
    using assms(1,6) n_workers_pos unfolding walk_parallel_def by (intro returned_log [where visitor = visitor]) auto
  moreover have "mset (ws_log s') = roots_tree (uncut ctx) pf k roots"
    using assms(3,4,7) n_workers_pos unfolding walk_parallel_def by (intro returned_log [where visitor = visitor']) auto
  ultimately show ?thesis using roots_tree_cut [OF assms(2,5)] by (simp add: within_def)
qed

text \<open>The file system of \<open>Walk_Example\<close>, cut at depth 1: the two entries of the subdirectory are gone.\<close>

theorem max_depth_is_a_filter_witness:
  "\<exists>s s'. walk_parallel shallow_ctx demo_pf keep_going [''r''] (\<lambda>_. ()) s
     \<and> walk_parallel demo_ctx demo_pf keep_going [''r''] (\<lambda>_. ()) s'
     \<and> size (mset (ws_log s')) = 5
     \<and> mset (ws_log s) = {#demo_root ''r'', demo_child ''r'' ''f'' File 1, demo_child ''r'' ''d'' Dir 1#}"
proof -
  have m: "a_max_depth (ctx_args shallow_ctx) = Some 1" by (simp add: shallow_ctx_def)
  have u: "shallow_ctx\<lparr>ctx_args := (ctx_args shallow_ctx)\<lparr>a_max_depth := None\<rparr>\<rparr> = demo_ctx"
    by (simp add: shallow_ctx_def demo_ctx_def demo_args_def)
  have go: "fst (keep_going v e st) = WalkContinue" for v e st by (simp add: keep_going_def)
  obtain s' where s': "walk_parallel demo_ctx demo_pf keep_going [''r''] (\<lambda>_. ()) s'" using demo_finishes by blast
  have log: "mset (ws_log s') = roots_tree demo_ctx demo_pf 3 [''r'']"
    using s' go n_workers_pos unfolding walk_parallel_def
    by (intro returned_log [OF _ _ _ demo_fits, where visitor = keep_going]) auto
  obtain s where s: "walk_parallel shallow_ctx demo_pf keep_going [''r''] (\<lambda>_. ()) s"
    using can_finish [OF n_workers_pos pending_init exit_ok_reach [OF reach_start] tree_inv_init [OF shallow_fits]]
    unfolding walk_parallel_def by blast
  have k: "(3 :: nat) < 2 ^ 64" by simp
  have deep: "\<not> (2 :: usize) \<le> 1" by (simp add: word_le_nat_alt)
  have "mset (ws_log s) = {#demo_root ''r'', demo_child ''r'' ''f'' File 1, demo_child ''r'' ''d'' Dir 1#}"
    using max_depth_is_a_filter [OF s m, unfolded u, OF s' demo_fits k go go] unfolding log demo_tree by (simp add: deep)
  moreover have "size (mset (ws_log s')) = 5" unfolding log demo_tree by simp
  ultimately show ?thesis using s s' by blast
qed

end
