(* ===== verification/Unix.thy ===== *)
theory Unix
  imports Leaf
begin

text \<open>
  The Unix leaf, \<open>src/walk/unix.rs\<close> (Linux build). The \<open>rustix\<close> calls are the record \<open>syscalls\<close>:
  each is a function of its arguments to an errno or a result. Bit sets of \<open>rustix\<close> flags are
  sets of flags. A directory stream is the list of what its iterator yields.
\<close>

section \<open>The system calls\<close>

datatype oflag = RDONLY | DIRECTORY | CLOEXEC | NOFOLLOW
datatype at_flag = SYMLINK_NOFOLLOW
datatype access_flag = READ_OK | WRITE_OK | EXEC_OK
datatype RFileType = RegularFile | Directory | RSymlink | RBlockDevice | CharacterDevice | RFifo | RSocket | Unknown
datatype 'fd dirfd = CWD | Fd 'fd

record raw_stat =
  rs_dev :: u64
  rs_ino :: u64
  rs_mode :: u32

record raw_statx =
  sx_size :: u64
  sx_mtime :: i64
  sx_ctime :: i64
  sx_atime :: i64
  sx_mode :: u16
  sx_uid :: u32
  sx_gid :: u32
  sx_nlink :: u32
  sx_ino :: u64

record 'fd syscalls =
  sys_openat :: "'fd dirfd \<Rightarrow> path \<Rightarrow> oflag set \<Rightarrow> int + 'fd"
  sys_statat :: "'fd dirfd \<Rightarrow> path \<Rightarrow> at_flag set \<Rightarrow> int + raw_stat"
  sys_fstat :: "'fd \<Rightarrow> int + raw_stat"
  sys_read_dir :: "'fd \<Rightarrow> int + (int + string \<times> RFileType) list"
  sys_statx :: "'fd dirfd \<Rightarrow> path \<Rightarrow> at_flag set \<Rightarrow> stat_field set \<Rightarrow> int + raw_statx"
  sys_accessat :: "'fd dirfd \<Rightarrow> path \<Rightarrow> access_flag set \<Rightarrow> at_flag set \<Rightarrow> int + unit"
  sys_readlinkat :: "'fd dirfd \<Rightarrow> path \<Rightarrow> int + osstring"
  sys_from_raw_mode :: "u32 \<Rightarrow> RFileType"

definition EMFILE :: int where "EMFILE = 24"
definition ENFILE :: int where "ENFILE = 23"
definition EINVAL :: int where "EINVAL = 22"

section \<open>Opening\<close>

definition dir_flags :: "bool \<Rightarrow> oflag set" where
  "dir_flags follow =
     (let flags = {RDONLY, DIRECTORY, CLOEXEC} in if \<not> follow then flags \<union> {NOFOLLOW} else flags)"

definition path_id :: "'fd syscalls \<Rightarrow> path \<Rightarrow> int + u64 \<times> u64" where
  "path_id sys p = and_then (sys_statat sys CWD p {}) (\<lambda>st. Inr (rs_dev st, rs_ino st))"

definition open_root :: "'fd syscalls \<Rightarrow> path \<Rightarrow> bool \<Rightarrow> int + 'fd" where
  "open_root sys p follow = sys_openat sys CWD p (dir_flags follow)"

text \<open>The last argument and result of \<open>open_abs\<close> and \<open>open_child\<close> is \<open>ABS_FALLBACK_COUNT\<close>.\<close>

definition open_abs :: "'fd syscalls \<Rightarrow> path \<Rightarrow> oflag set \<Rightarrow> usize \<Rightarrow> (int + 'fd) \<times> usize" where
  "open_abs sys full flags counter = (sys_openat sys CWD full flags, counter + 1)"

definition open_child ::
  "'fd syscalls \<Rightarrow> 'fd \<Rightarrow> string \<Rightarrow> path \<Rightarrow> bool \<Rightarrow> usize \<Rightarrow> (int + 'fd) \<times> usize" where
  "open_child sys parent leaf full follow counter =
     (let flags = dir_flags follow in
      case sys_openat sys (Fd parent) leaf flags of
        Inr fd \<Rightarrow> (Inr fd, counter)
      | Inl e \<Rightarrow> if e = EMFILE \<or> e = ENFILE then open_abs sys full flags counter else (Inl e, counter))"

definition dir_id :: "'fd syscalls \<Rightarrow> 'fd \<Rightarrow> int + u64 \<times> u64" where
  "dir_id sys fd = and_then (sys_fstat sys fd) (\<lambda>st. Inr (rs_dev st, rs_ino st))"

section \<open>Listing\<close>

fun map_type :: "RFileType \<Rightarrow> EntryType option" where
  "map_type RegularFile = Some File"
| "map_type Directory = Some Dir"
| "map_type RSymlink = Some Symlink"
| "map_type RBlockDevice = Some BlockDevice"
| "map_type CharacterDevice = Some CharDevice"
| "map_type RFifo = Some Fifo"
| "map_type RSocket = Some Socket"
| "map_type Unknown = None"

definition statat_type :: "'fd syscalls \<Rightarrow> 'fd \<Rightarrow> string \<Rightarrow> int + EntryType" where
  "statat_type sys dir name =
     and_then (sys_statat sys (Fd dir) name {SYMLINK_NOFOLLOW}) (\<lambda>st.
       case map_type (sys_from_raw_mode sys (rs_mode st)) of Some t \<Rightarrow> Inr t | None \<Rightarrow> Inl EINVAL)"

text \<open>
  The calls \<open>for_each_entry\<close> makes of its callback, in order, if the callback never stops it:
  the loop ends at the first item that is an error.
\<close>

fun entry_calls ::
  "'fd syscalls \<Rightarrow> 'fd \<Rightarrow> path \<Rightarrow> (int + string \<times> RFileType) list \<Rightarrow> (path \<times> string \<times> EntryType) list" where
  "entry_calls sys fd parent [] = []"
| "entry_calls sys fd parent (Inl e # items) = []"
| "entry_calls sys fd parent (Inr (name, ft) # items) =
     (if name = ''.'' \<or> name = ''..'' then entry_calls sys fd parent items
      else
        (case (case map_type ft of Some t \<Rightarrow> Inr t | None \<Rightarrow> statat_type sys fd name) of
           Inl _ \<Rightarrow> entry_calls sys fd parent items
         | Inr ty \<Rightarrow> (path_join parent name, name, ty) # entry_calls sys fd parent items))"

definition for_each_entry :: "'fd syscalls \<Rightarrow> 'fd \<Rightarrow> path \<Rightarrow> (path \<times> string \<times> EntryType) list" where
  "for_each_entry sys fd parent =
     (case sys_read_dir sys fd of Inl _ \<Rightarrow> [] | Inr items \<Rightarrow> entry_calls sys fd parent items)"

section \<open>Metadata, access, links\<close>

definition stat_flags :: "bool \<Rightarrow> at_flag set" where
  "stat_flags follow = (if follow then {} else {SYMLINK_NOFOLLOW})"

text \<open>The \<open>statx\<close> field flags have the names of the fields.\<close>

definition statx_pairs :: "(u32 \<times> stat_field) list" where
  "statx_pairs =
     [(mask_SIZE, FSize), (mask_MTIME, FMtime), (mask_CTIME, FCtime), (mask_ATIME, FAtime),
      (mask_MODE, FMode), (mask_UID, FUid), (mask_GID, FGid), (mask_NLINK, FNlink), (mask_INO, FIno)]"

definition to_statx_flags :: "u32 \<Rightarrow> stat_field set" where
  "to_statx_flags msk =
     fold (\<lambda>(b, flag) acc. if msk AND b \<noteq> 0 then acc \<union> {flag} else acc) statx_pairs {}"

definition meta_of_statx :: "raw_statx \<Rightarrow> Meta" where
  "meta_of_statx sx =
     \<lparr>m_size = sx_size sx, m_mtime = sx_mtime sx, m_ctime = sx_ctime sx, m_atime = sx_atime sx,
      m_mode = ucast (sx_mode sx), m_uid = sx_uid sx, m_gid = sx_gid sx,
      m_nlink = ucast (sx_nlink sx), m_ino = sx_ino sx\<rparr>"

definition do_stat :: "'fd syscalls \<Rightarrow> 'fd dirfd \<Rightarrow> path \<Rightarrow> bool \<Rightarrow> u32 \<Rightarrow> int + Meta" where
  "do_stat sys dirfd p follow msk =
     and_then (sys_statx sys dirfd p (stat_flags follow) (to_statx_flags msk)) (\<lambda>sx. Inr (meta_of_statx sx))"

text \<open>
  The arm for other Unix systems: one \<open>stat\<close> call returns every field, whatever the mask; \<open>off_t\<close> is signed. The widths
  are those of macOS, and \<open>statat\<close> is an argument, since the other leaf operations are those of Linux.
\<close>

record posix_stat =
  st_size :: i64
  st_mtime :: i64
  st_ctime :: i64
  st_atime :: i64
  st_mode :: u16
  st_uid :: u32
  st_gid :: u32
  st_nlink :: u16
  st_ino :: u64

definition do_stat_posix ::
  "('fd dirfd \<Rightarrow> path \<Rightarrow> at_flag set \<Rightarrow> int + posix_stat) \<Rightarrow> 'fd dirfd \<Rightarrow> path \<Rightarrow> bool \<Rightarrow> u32 \<Rightarrow> int + Meta" where
  "do_stat_posix statat dirfd p follow msk =
     and_then (statat dirfd p (stat_flags follow)) (\<lambda>st. Inr
       \<lparr>m_size = (if 0 \<le> sint (st_size st) then ucast (st_size st) else 0),
        m_mtime = st_mtime st, m_ctime = st_ctime st, m_atime = st_atime st,
        m_mode = ucast (st_mode st), m_uid = st_uid st, m_gid = st_gid st,
        m_nlink = ucast (st_nlink st), m_ino = st_ino st\<rparr>)"

definition stat_at :: "'fd syscalls \<Rightarrow> 'fd \<Rightarrow> string \<Rightarrow> bool \<Rightarrow> u32 \<Rightarrow> int + Meta" where
  "stat_at sys dir name follow msk = do_stat sys (Fd dir) name follow msk"

definition stat_path :: "'fd syscalls \<Rightarrow> path \<Rightarrow> bool \<Rightarrow> u32 \<Rightarrow> int + Meta" where
  "stat_path sys p follow msk = do_stat sys CWD p follow msk"

definition do_access :: "'fd syscalls \<Rightarrow> 'fd dirfd \<Rightarrow> path \<Rightarrow> u8 \<Rightarrow> bool" where
  "do_access sys dirfd p mode =
     (let acc = {};
          acc = (if mode AND access_READ \<noteq> 0 then acc \<union> {READ_OK} else acc);
          acc = (if mode AND access_WRITE \<noteq> 0 then acc \<union> {WRITE_OK} else acc);
          acc = (if mode AND access_EXEC \<noteq> 0 then acc \<union> {EXEC_OK} else acc)
      in is_ok (sys_accessat sys dirfd p acc {}))"

definition access_at :: "'fd syscalls \<Rightarrow> 'fd \<Rightarrow> string \<Rightarrow> u8 \<Rightarrow> bool" where
  "access_at sys dir name mode = do_access sys (Fd dir) name mode"

definition access_root :: "'fd syscalls \<Rightarrow> path \<Rightarrow> u8 \<Rightarrow> bool" where
  "access_root sys p mode = do_access sys CWD p mode"

definition do_readlink :: "'fd syscalls \<Rightarrow> 'fd dirfd \<Rightarrow> path \<Rightarrow> osstring option" where
  "do_readlink sys dirfd p = (case sys_readlinkat sys dirfd p of Inl _ \<Rightarrow> None | Inr target \<Rightarrow> Some target)"

definition readlink_at :: "'fd syscalls \<Rightarrow> 'fd \<Rightarrow> string \<Rightarrow> osstring option" where
  "readlink_at sys dir name = do_readlink sys (Fd dir) name"

definition readlink_root :: "'fd syscalls \<Rightarrow> path \<Rightarrow> osstring option" where
  "readlink_root sys p = do_readlink sys CWD p"

text \<open>The leaf as the walker sees it; the fallback counter is not read by the walk.\<close>

definition unix_platform :: "'fd syscalls \<Rightarrow> 'fd platform" where
  "unix_platform sys =
     \<lparr>pf_path_id = path_id sys, pf_open_root = open_root sys,
      pf_open_child = (\<lambda>parent leaf full follow. fst (open_child sys parent leaf full follow 0)),
      pf_dir_id = dir_id sys, pf_for_each_entry = for_each_entry sys,
      pf_stat_at = stat_at sys, pf_stat_root = stat_path sys,
      pf_access_at = access_at sys, pf_access_root = access_root sys,
      pf_readlink_at = readlink_at sys, pf_readlink_root = readlink_root sys\<rparr>"

lemma entry_calls_join:
  "(p, leaf, ty) \<in> set (entry_calls sys fd parent items) \<Longrightarrow>
   p = path_join parent leaf \<and> leaf \<noteq> ''.'' \<and> leaf \<noteq> ''..''"
  by (induction sys fd parent items rule: entry_calls.induct)
     (auto split: if_splits sum.splits option.splits)

interpretation unix: walk_leaf "unix_platform sys" for sys
  by unfold_locales
     (auto simp: unix_platform_def for_each_entry_def dest: entry_calls_join split: sum.splits)

section \<open>What the leaf guarantees\<close>

text \<open>The type an item of the stream resolves to, if it is listed at all.\<close>

definition resolve_item ::
  "'fd syscalls \<Rightarrow> 'fd \<Rightarrow> path \<Rightarrow> string \<times> RFileType \<Rightarrow> (path \<times> string \<times> EntryType) option" where
  "resolve_item sys fd parent item =
     (case item of (name, ft) \<Rightarrow>
        if name = ''.'' \<or> name = ''..'' then None
        else map_option (\<lambda>ty. (path_join parent name, name, ty))
          (case map_type ft of
             Some t \<Rightarrow> Some t
           | None \<Rightarrow> (case statat_type sys fd name of Inl _ \<Rightarrow> None | Inr t \<Rightarrow> Some t)))"

lemma entry_calls_spec:
  "entry_calls sys fd parent items =
   List.map_filter (resolve_item sys fd parent) (map projr (takeWhile (\<lambda>i. \<exists>x. i = Inr x) items))"
  by (induction sys fd parent items rule: entry_calls.induct)
     (auto simp: List.map_filter_def resolve_item_def split: option.splits sum.splits)

text \<open>
  What a directory yields: the items of its stream up to the first read error, in their order,
  without \<open>.\<close> and \<open>..\<close> and without those whose type neither the stream nor a \<open>statat\<close> tells.
\<close>

theorem listing_is_stream_prefix:
  assumes "sys_read_dir sys fd = Inr items"
  shows "pf_for_each_entry (unix_platform sys) fd parent =
    List.map_filter (resolve_item sys fd parent) (map projr (takeWhile (\<lambda>i. \<exists>x. i = Inr x) items))"
  using assms by (simp add: unix_platform_def for_each_entry_def entry_calls_spec)

definition demo_sys :: "nat syscalls" where
  "demo_sys =
     \<lparr>sys_openat = (\<lambda>d p fl. if d = CWD then Inr 0 else if p = ''sub'' then Inr 1 else Inl EMFILE),
      sys_statat = (\<lambda>d p fl. Inr \<lparr>rs_dev = 1, rs_ino = 7, rs_mode = 0x8000\<rparr>),
      sys_fstat = (\<lambda>fd. Inr \<lparr>rs_dev = 1, rs_ino = of_nat fd, rs_mode = 0x4000\<rparr>),
      sys_read_dir = (\<lambda>fd. Inr [Inr (''.'', Directory), Inr (''sub'', Directory), Inr (''f'', Unknown), Inl 5, Inr (''g'', RegularFile)]),
      sys_statx = (\<lambda>d p fl want. Inr \<lparr>sx_size = (if FSize \<in> want then 42 else 0), sx_mtime = 0, sx_ctime = 0,
        sx_atime = 0, sx_mode = 0, sx_uid = 0, sx_gid = 0, sx_nlink = 0, sx_ino = 0\<rparr>),
      sys_accessat = (\<lambda>d p acc fl. Inr ()), sys_readlinkat = (\<lambda>d p. Inl 22),
      sys_from_raw_mode = (\<lambda>m. if m = 0x8000 then RegularFile else Unknown)\<rparr>"

theorem listing_is_stream_prefix_witness:
  "pf_for_each_entry (unix_platform demo_sys) 0 ''r'' = [(''r/sub'', ''sub'', Dir), (''r/f'', ''f'', File)]"
  by (subst listing_is_stream_prefix)
     (auto simp: demo_sys_def resolve_item_def List.map_filter_def path_join_def statat_type_def)

lemma dir_flags_union:
  "dir_flags follow = {RDONLY, DIRECTORY, CLOEXEC} \<union> (if follow then {} else {NOFOLLOW})"
  by (auto simp: dir_flags_def Let_def)

text \<open>
  How a directory found in a listing is opened: relative to the fd it was listed in, by the name
  it was listed under, with \<open>O_NOFOLLOW\<close> unless it is a symlink to follow; by its full path only
  when the process or the system is out of file descriptors.
\<close>

theorem child_opened_by_listed_name:
  assumes "(p, leaf, ty) \<in> set (pf_for_each_entry (unix_platform sys) (d_dir d) parent)" "leaf_name leaf"
    and "child_task ctx d (p, leaf, ty) = Some u"
  shows "open_task (unix_platform sys) u =
    (let flags = {RDONLY, DIRECTORY, CLOEXEC} \<union> (if ty = Symlink then {} else {NOFOLLOW});
         anchored = sys_openat sys (Fd (d_dir d)) leaf flags
     in if anchored = Inl EMFILE \<or> anchored = Inl ENFILE
        then sys_openat sys CWD (path_join parent leaf) flags else anchored)"
  unfolding unix.opened_by_listed_name [OF assms] Let_def dir_flags_union [symmetric]
  by (cases "sys_openat sys (Fd (d_dir d)) leaf (dir_flags (ty = Symlink))")
     (simp_all add: unix_platform_def open_child_def open_abs_def)

theorem child_opened_by_listed_name_witness:
  "open_task (unix_platform demo_sys)
     \<lparr>t_path = ''r/sub'', t_parent = Some 0, t_follow = False, t_depth = 1, t_root_dev = 1, t_ancestors = None\<rparr>
   = Inr 1"
proof -
  let ?d = "\<lparr>d_dir = 0 :: nat, d_child_ancestors = None, d_child_depth = 1, d_enqueue_children = True, d_root_dev = 1\<rparr>"
  have l: "(''r/sub'', ''sub'', Dir) \<in> set (pf_for_each_entry (unix_platform demo_sys) (d_dir ?d) ''r'')"
    by (auto simp: unix_platform_def for_each_entry_def demo_sys_def path_join_def statat_type_def)
  have c: "child_task \<lparr>ctx_args = a, ctx_limited = False, ctx_exclude = None\<rparr> ?d (''r/sub'', ''sub'', Dir) =
      Some \<lparr>t_path = ''r/sub'', t_parent = Some 0, t_follow = False, t_depth = 1, t_root_dev = 1, t_ancestors = None\<rparr>" for a
    by (simp add: child_task_def descends_into_def)
  have "leaf_name ''sub''" by (simp add: leaf_name_def)
  from child_opened_by_listed_name [OF l this c] show ?thesis
    by (simp add: demo_sys_def EMFILE_def ENFILE_def)
qed

lemma fold_pairs:
  "f \<in> fold (\<lambda>(b, flag) acc. if msk AND b \<noteq> 0 then acc \<union> {flag} else acc) ps acc \<longleftrightarrow>
   f \<in> acc \<or> (\<exists>b. (b, f) \<in> set ps \<and> msk AND b \<noteq> (0 :: u32))"
proof (induction ps arbitrary: acc)
  case (Cons q ps)
  obtain b g where q: "q = (b, g)" by (cases q)
  show ?case unfolding q fold_Cons comp_def Cons.IH prod.case list.set by (cases "msk AND b = 0") auto
qed simp

lemma statx_pairs_iff: "(b, f) \<in> set statx_pairs \<longleftrightarrow> b = field_bit f"
  by (cases f) (simp_all add: statx_pairs_def del: One_nat_def)

lemma to_statx_flags_iff: "f \<in> to_statx_flags msk \<longleftrightarrow> msk AND field_bit f \<noteq> 0"
  unfolding to_statx_flags_def fold_pairs statx_pairs_iff by simp

text \<open>\<open>statx\<close> is asked for exactly the fields that the predicates of the run read.\<close>

theorem statx_asks_for_what_is_read: "to_statx_flags (predicates_mask p) = wanted p"
  using to_statx_flags_iff mask_field_iff by blast



text \<open>
  On other Unix systems the size is that of the file, none being negative, at full width, and what is fetched does not
  depend on the mask.
\<close>

theorem posix_stat_ignores_the_mask:
  assumes "do_stat_posix statat dirfd p follow msk = Inr m"
  shows "do_stat_posix statat dirfd p follow msk' = Inr m
    \<and> (\<exists>st. statat dirfd p (stat_flags follow) = Inr st \<and> uint (m_size m) = max 0 (sint (st_size st)))"
proof -
  obtain st where st: "statat dirfd p (stat_flags follow) = Inr st"
    using assms by (auto simp: do_stat_posix_def and_then_Inr_iff)
  have "uint x = max 0 (sint x)" if "0 \<le> sint x" for x :: i64
  proof (cases "uint x < 2 ^ 63")
    case False
    then show ?thesis using that sint_uint_i64_neg [of x] uint_lt2p [of x] by simp
  qed (simp add: sint_eq_uint_i64)
  then have "uint (m_size m) = max 0 (sint (st_size st))"
    using assms st by (auto simp: do_stat_posix_def)
  with st assms show ?thesis by (simp add: do_stat_posix_def)
qed

theorem posix_stat_ignores_the_mask_witness:
  "\<exists>m. do_stat_posix (\<lambda>_ _ _. Inr \<lparr>st_size = - 1, st_mtime = 0, st_ctime = 0, st_atime = 0, st_mode = 0x81A4,
       st_uid = 0, st_gid = 0, st_nlink = 1, st_ino = 7\<rparr>) (CWD :: nat dirfd) ''f'' True 0 = Inr m \<and> uint (m_size m) = 0"
proof -
  let ?statat = "\<lambda>(_ :: nat dirfd) _ _. Inr \<lparr>st_size = - 1, st_mtime = 0, st_ctime = 0, st_atime = 0, st_mode = 0x81A4,
       st_uid = 0, st_gid = 0, st_nlink = 1, st_ino = 7\<rparr>"
  obtain m where m: "do_stat_posix ?statat CWD ''f'' True 1 = Inr m" by (simp add: do_stat_posix_def)
  from posix_stat_ignores_the_mask [OF this, of 0] show ?thesis by auto
qed


definition demo_unix_ctx :: WalkCtx where
  "demo_unix_ctx =
     \<lparr>ctx_args =
        \<lparr>a_follow_symlinks = False, a_one_filesystem = True, a_threads = 2, a_idle = False,
         a_max_depth = Some 1, a_min_depth = None, a_max_scan_rate = None, a_max_results = None,
         a_name = None, a_regex = None, a_case_insensitive = False, a_file_type = [SelFile],
         a_meta = default_predicates, a_path_glob = None, a_lname = None, a_access = 0, a_exclude = None,
         a_null = False, a_path = [''r'']\<rparr>,
      ctx_limited = False, ctx_exclude = None\<rparr>"


end
