(* ===== verification/Batch.thy ===== *)
theory Batch
  imports Walk
begin

text \<open>
  \<open>BatchSender\<close> of \<open>src/lib.rs\<close>: the entries a walker thread has kept but not sent yet. The channel
  end \<open>tx\<close> is what its operations need of it: whether the receiver is still there (\<open>alive\<close>, as the
  \<open>send\<close> finds it), and the batches \<open>send\<close> has handed over (\<open>bs_tx\<close>), which the pipeline moves into
  the channel in the same step.
\<close>

record BatchSender =
  bs_buf :: "Entry list"
  bs_tx :: "Entry list list"
  bs_closed :: bool

definition BATCH_SIZE :: nat where "BATCH_SIZE = 256"

definition batch_new :: BatchSender where
  "batch_new = \<lparr>bs_buf = [], bs_tx = [], bs_closed = False\<rparr>"

text \<open>\<open>tx.send(batch)\<close>: fails, and the batch is gone, exactly when the receiver was dropped.\<close>

definition tx_send :: "bool \<Rightarrow> Entry list \<Rightarrow> BatchSender \<Rightarrow> bool \<times> BatchSender" where
  "tx_send alive batch b = (if alive then (True, b\<lparr>bs_tx := bs_tx b @ [batch]\<rparr>) else (False, b))"

definition batch_flush :: "bool \<Rightarrow> BatchSender \<Rightarrow> bool \<times> BatchSender" where
  "batch_flush alive b =
     (if bs_buf b = [] then (\<not> bs_closed b, b)
      else
        (case tx_send alive (bs_buf b) (b\<lparr>bs_buf := []\<rparr>) of
           (False, b') \<Rightarrow> (False, b'\<lparr>bs_closed := True\<rparr>)
         | (True, b') \<Rightarrow> (True, b')))"

definition batch_push :: "bool \<Rightarrow> Entry \<Rightarrow> BatchSender \<Rightarrow> bool \<times> BatchSender" where
  "batch_push alive e b =
     (let b = b\<lparr>bs_buf := bs_buf b @ [e]\<rparr>
      in if length (bs_buf b) \<ge> BATCH_SIZE then batch_flush alive b else (True, b))"

definition batch_drop :: "bool \<Rightarrow> BatchSender \<Rightarrow> BatchSender" where
  "batch_drop alive b = snd (batch_flush alive b)"

section \<open>The contract of a sender\<close>

text \<open>
  What the pipeline relies on: while the receiver lives, nothing given to the sender is lost or
  reordered (\<open>held\<close> are the entries it still has, \<open>sent\<close> those handed over), a push is answered
  \<open>true\<close>, and closing leaves nothing behind; after it died, a push may only lose entries.
\<close>

locale sender =
  fixes push :: "bool \<Rightarrow> 'e \<Rightarrow> 's \<Rightarrow> bool \<times> 's" and close :: "bool \<Rightarrow> 's \<Rightarrow> 's"
    and held :: "'s \<Rightarrow> 'e list" and sent :: "'s \<Rightarrow> 'e list"
  assumes push_alive: "fst (push True e s)"
      "sent (snd (push True e s)) @ held (snd (push True e s)) = sent s @ held s @ [e]"
    and push_dead: "sent (snd (push False e s)) = sent s"
      "held (snd (push False e s)) = held s @ [e] \<or> held (snd (push False e s)) = []"
    and close_alive: "sent (close True s) = sent s @ held s"
    and close_dead: "sent (close False s) = sent s"
    and close_held: "held (close alive s) = []"
begin

fun push_all :: "'e list \<Rightarrow> 's \<Rightarrow> 's" where
  "push_all [] s = s"
| "push_all (e # es) s = push_all es (snd (push True e s))"

lemma push_all_content: "sent (push_all es s) @ held (push_all es s) = sent s @ held s @ es"
proof (induction es arbitrary: s)
  case (Cons e es)
  show ?case using Cons [of "snd (push True e s)"] push_alive(2) [of e s] by simp
qed simp

lemma all_sent_on_close: "sent (close True (push_all es s)) = sent s @ held s @ es"
  by (simp add: close_alive push_all_content)

end

lemma batch_flush_simps:
  "batch_flush alive b =
     (if bs_buf b = [] then (\<not> bs_closed b, b)
      else if alive then (True, b\<lparr>bs_buf := [], bs_tx := bs_tx b @ [bs_buf b]\<rparr>)
      else (False, b\<lparr>bs_buf := [], bs_closed := True\<rparr>))"
  by (simp add: batch_flush_def tx_send_def)

interpretation batching: sender batch_push batch_drop bs_buf "\<lambda>b. concat (bs_tx b)"
  by unfold_locales (auto simp: batch_push_def batch_drop_def batch_flush_simps Let_def BATCH_SIZE_def)

text \<open>The sizes: a buffer at rest is not full, and a batch that is sent is neither empty nor too big.\<close>

definition batch_ok :: "Entry list \<Rightarrow> bool" where
  "batch_ok b \<longleftrightarrow> b \<noteq> [] \<and> length b \<le> BATCH_SIZE"

lemma batch_push_sizes:
  assumes "length (bs_buf b) < BATCH_SIZE" "list_all batch_ok (bs_tx b)" "batch_push alive e b = (ok, b')"
  shows "length (bs_buf b') < BATCH_SIZE \<and> list_all batch_ok (bs_tx b')"
  using assms
  by (auto simp: batch_push_def batch_flush_simps batch_ok_def Let_def BATCH_SIZE_def split: if_splits)

lemma batch_drop_sizes:
  assumes "length (bs_buf b) < BATCH_SIZE" "list_all batch_ok (bs_tx b)"
  shows "list_all batch_ok (bs_tx (batch_drop alive b))"
  using assms by (auto simp: batch_drop_def batch_flush_simps batch_ok_def BATCH_SIZE_def)

lemma batch_push_tx: "\<exists>bs. bs_tx (snd (batch_push alive e b)) = bs_tx b @ bs \<and> length bs \<le> 1"
  by (simp add: batch_push_def batch_flush_simps Let_def)

lemma batch_drop_tx: "\<exists>bs. bs_tx (batch_drop alive b) = bs_tx b @ bs \<and> length bs \<le> 1"
  by (simp add: batch_drop_def batch_flush_simps)

text \<open>The visitor of one worker, pushing all it keeps while the receiver lives.\<close>

fun push_each :: "Entry list \<Rightarrow> BatchSender \<Rightarrow> bool \<times> BatchSender" where
  "push_each [] b = (True, b)"
| "push_each (e # es) b =
     (case batch_push True e b of (ok, b1) \<Rightarrow> (case push_each es b1 of (oks, b2) \<Rightarrow> (ok \<and> oks, b2)))"

lemma push_each_push_all: "snd (push_each es b) = batching.push_all es b"
  by (induction es arbitrary: b) (simp_all add: case_prod_beta)

lemma push_each_ok: "fst (push_each es b)"
proof (induction es arbitrary: b)
  case (Cons e es)
  show ?case using Cons batching.push_alive(1) [of e b] by (simp add: case_prod_beta)
qed simp

lemma push_each_sizes:
  assumes "length (bs_buf b) < BATCH_SIZE" "list_all batch_ok (bs_tx b)"
  shows "length (bs_buf (snd (push_each es b))) < BATCH_SIZE \<and> list_all batch_ok (bs_tx (snd (push_each es b)))"
  using assms
proof (induction es arbitrary: b)
  case (Cons e es)
  obtain ok b1 where b1: "batch_push True e b = (ok, b1)" by (cases "batch_push True e b")
  show ?case using Cons.IH [of b1] batch_push_sizes [OF Cons.prems b1] b1 by (simp add: case_prod_beta)
qed simp

text \<open>
  A thread's entries arrive complete, in order and in batches of 1 to 256, whatever their number,
  once its sender is dropped while the receiver is alive; \<open>push\<close> answers \<open>true\<close> throughout.
\<close>

theorem batches_carry_everything:
  "fst (push_each es batch_new)
   \<and> concat (bs_tx (batch_drop True (snd (push_each es batch_new)))) = es
   \<and> list_all (\<lambda>b. 1 \<le> length b \<and> length b \<le> 256) (bs_tx (batch_drop True (snd (push_each es batch_new))))"
proof -
  have "list_all batch_ok (bs_tx (batch_drop True (snd (push_each es batch_new))))"
    by (rule batch_drop_sizes) (use push_each_sizes [of batch_new es] in \<open>simp_all add: batch_new_def BATCH_SIZE_def\<close>)
  then have "list_all (\<lambda>b. 1 \<le> length b \<and> length b \<le> 256) (bs_tx (batch_drop True (snd (push_each es batch_new))))"
    by (rule list.pred_mono_strong) (simp add: batch_ok_def BATCH_SIZE_def Suc_le_eq)
  then show ?thesis
    using push_each_ok [of es batch_new] batching.all_sent_on_close [of es batch_new]
    by (simp add: push_each_push_all batch_new_def)
qed

end
