(* ===== verification/Patterns.thy ===== *)
theory Patterns
  imports Prelude
begin

text \<open>
  The pattern sets of \<open>src/glob.rs\<close> and \<open>src/regex.rs\<close>. \<open>globset\<close> and \<open>regex\<close> are third-party: a
  record of the calls made of them. A compiled glob or regex set is its \<open>is_match\<close>. What the
  program relies on, that a set matches when one of its members does, is a hypothesis of
  \<open>glob_set_matches_any\<close>.
\<close>

record 'g globset_lib =
  gl_build :: "bool \<Rightarrow> string \<Rightarrow> string + 'g"
  gl_set_build :: "'g list \<Rightarrow> string + (string \<Rightarrow> bool)"

text \<open>The loop over the patterns: each is parsed and added, the first bad one is the error.\<close>

fun add_globs :: "'g globset_lib \<Rightarrow> bool \<Rightarrow> 'g list \<Rightarrow> string list \<Rightarrow> error + 'g list" where
  "add_globs lib case_insensitive builder [] = Inr builder"
| "add_globs lib case_insensitive builder (p # ps) =
     and_then (map_err GlobParse (gl_build lib case_insensitive p))
       (\<lambda>g. add_globs lib case_insensitive (builder @ [g]) ps)"

definition build_glob_set ::
  "'g globset_lib \<Rightarrow> string list option \<Rightarrow> bool \<Rightarrow> error + (string \<Rightarrow> bool)" where
  "build_glob_set lib patterns case_insensitive =
     and_then (add_globs lib case_insensitive [] (case patterns of Some ps \<Rightarrow> ps | None \<Rightarrow> []))
       (\<lambda>builder. map_err GlobSetBuild (gl_set_build lib builder))"

text \<open>\<open>RegexSetBuilder::new(patterns).case_insensitive(ci).build()\<close> is one call.\<close>

type_synonym regex_lib = "string list \<Rightarrow> bool \<Rightarrow> string + (string \<Rightarrow> bool)"

definition build_regex_set ::
  "regex_lib \<Rightarrow> string list option \<Rightarrow> bool \<Rightarrow> error + (string \<Rightarrow> bool)" where
  "build_regex_set lib patterns case_insensitive =
     map_err RegexSetBuild (lib (case patterns of Some ps \<Rightarrow> ps | None \<Rightarrow> []) case_insensitive)"

text \<open>On Unix a path is its bytes.\<close>

definition path_to_bytes :: "path \<Rightarrow> string" where
  "path_to_bytes p = p"

lemma add_globs_Inr:
  "add_globs lib ci b ps = Inr gs \<longleftrightarrow> (\<exists>hs. gs = b @ hs \<and> list_all2 (\<lambda>p g. gl_build lib ci p = Inr g) ps hs)"
  by (induction ps arbitrary: b) (auto simp: and_then_Inr_iff list_all2_Cons1)

lemma add_globs_Inl:
  "add_globs lib ci b ps = Inl e \<Longrightarrow>
   \<exists>qs p rs msg. ps = qs @ p # rs \<and> e = GlobParse msg \<and> gl_build lib ci p = Inl msg
     \<and> (\<forall>q \<in> set qs. \<exists>g. gl_build lib ci q = Inr g)"
proof (induction ps arbitrary: b)
  case (Cons p ps)
  show ?case
  proof (cases "gl_build lib ci p")
    case (Inl msg)
    then show ?thesis
      using Cons.prems
      by (intro exI [of _ "[]"] exI [of _ p] exI [of _ ps] exI [of _ msg]) auto
  next
    case (Inr g)
    then obtain qs p' rs msg where "ps = qs @ p' # rs" "e = GlobParse msg" "gl_build lib ci p' = Inl msg"
      "\<forall>q \<in> set qs. \<exists>g. gl_build lib ci q = Inr g"
      using Cons by fastforce
    then show ?thesis
      using Inr by (intro exI [of _ "p # qs"] exI [of _ p'] exI [of _ rs] exI [of _ msg]) auto
  qed
qed simp

text \<open>
  A pattern set matches a string exactly when one of its patterns does; the set of no patterns,
  and an absent option, match nothing. This holds of what is built because it holds of the
  library's \<open>GlobSet\<close> (the hypothesis, with \<open>matches\<close> the meaning of one compiled glob).
\<close>

theorem glob_set_matches_any:
  assumes "\<And>gs f. gl_set_build lib gs = Inr f \<Longrightarrow> f = (\<lambda>s. list_ex (\<lambda>g. matches g s) gs)"
    and "build_glob_set lib patterns ci = Inr f"
  shows "f s = list_ex (\<lambda>p. \<exists>g. gl_build lib ci p = Inr g \<and> matches g s)
    (case patterns of Some ps \<Rightarrow> ps | None \<Rightarrow> [])"
proof -
  obtain gs where gs: "list_all2 (\<lambda>p g. gl_build lib ci p = Inr g)
      (case patterns of Some ps \<Rightarrow> ps | None \<Rightarrow> []) gs" "gl_set_build lib gs = Inr f"
    using assms(2) by (auto simp: build_glob_set_def and_then_Inr_iff add_globs_Inr)
  have "list_ex (\<lambda>g. matches g s) gs = list_ex (\<lambda>p. \<exists>g. gl_build lib ci p = Inr g \<and> matches g s)
    (case patterns of Some ps \<Rightarrow> ps | None \<Rightarrow> [])"
    using gs(1) by (induction rule: list_all2_induct) auto
  then show ?thesis using assms(1) [OF gs(2)] by simp
qed

definition literal_globs :: "string globset_lib" where
  "literal_globs =
     \<lparr>gl_build = (\<lambda>ci p. if p = ''['' then Inl ''unclosed class'' else Inr p),
      gl_set_build = (\<lambda>gs. Inr (\<lambda>s. list_ex (\<lambda>g. g = s) gs))\<rparr>"

theorem glob_set_matches_any_witness:
  "\<exists>f. build_glob_set literal_globs (Some [''a'', ''b'']) False = Inr f \<and> f ''b'' \<and> \<not> f ''c''"
proof -
  obtain f where f: "build_glob_set literal_globs (Some [''a'', ''b'']) False = Inr f"
    by (simp add: build_glob_set_def literal_globs_def)
  have law: "gl_set_build literal_globs gs = Inr h \<Longrightarrow> h = (\<lambda>s. list_ex (\<lambda>g. g = s) gs)" for gs h
    by (simp add: literal_globs_def)
  from glob_set_matches_any [OF law f, of "''b''"] glob_set_matches_any [OF law f, of "''c''"] show ?thesis
    using f by (simp add: literal_globs_def)
qed

text \<open>A glob option fails on its first bad pattern, and with that pattern's message.\<close>

theorem first_bad_glob_is_reported:
  assumes "build_glob_set lib (Some ps) ci = Inl (GlobParse msg)"
  shows "\<exists>qs p rs. ps = qs @ p # rs \<and> gl_build lib ci p = Inl msg
    \<and> list_all (\<lambda>q. \<exists>g. gl_build lib ci q = Inr g) qs"
proof -
  have "add_globs lib ci [] ps = Inl (GlobParse msg)"
    using assms by (auto simp: build_glob_set_def and_then_Inl_iff map_err_Inl_iff)
  from add_globs_Inl [OF this] show ?thesis by (auto simp: list_all_iff)
qed

theorem first_bad_glob_is_reported_witness:
  "\<exists>qs p rs. [''a'', ''['', ''b''] = qs @ p # rs \<and> gl_build literal_globs False p = Inl ''unclosed class''
    \<and> list_all (\<lambda>q. \<exists>g. gl_build literal_globs False q = Inr g) qs"
  by (rule first_bad_glob_is_reported) (simp add: build_glob_set_def literal_globs_def)

end
