(* ===== verification/Entry_Filter.thy ===== *)
theory Entry_Filter
  imports Batch Nss Predicates Filetype Patterns
begin

text \<open>
  The visitor of \<open>run\<close> in \<open>src/lib.rs\<close>: the chain of per-entry filters, the per-thread account
  memo and the batch the kept entries go to. A filter gives \<open>None\<close> when it panics. The platform
  leaf, the file operations of \<open>--empty\<close> and the account database are parameters.
\<close>

section \<open>The chain\<close>

text \<open>The locals of \<open>run\<close> that the visitor closure captures.\<close>

record RunFilters =
  rf_min_depth :: usize
  rf_filetype :: TypeMask
  rf_glob_enabled :: bool
  rf_glob_name :: "string \<Rightarrow> bool"
  rf_regex_enabled :: bool
  rf_regex_name :: "string \<Rightarrow> bool"
  rf_path_glob_enabled :: bool
  rf_glob_path :: "string \<Rightarrow> bool"
  rf_lname_enabled :: bool
  rf_glob_lname :: "string \<Rightarrow> bool"
  rf_predicates :: Predicates
  rf_meta_active :: bool
  rf_meta_mask :: u32
  rf_now :: i64
  rf_access :: u8

text \<open>The system calls of the filters outside the platform leaf.\<close>

record os_calls =
  os_read_dir :: "path \<Rightarrow> int + (int + string) list"
  os_metadata_len :: "path \<Rightarrow> int + u64"
  os_getpwuid :: "u32 \<Rightarrow> nat \<Rightarrow> nss_reply"
  os_getgrgid :: "u32 \<Rightarrow> nat \<Rightarrow> nss_reply"

definition lname_pass :: "RunFilters \<Rightarrow> 'fd platform \<Rightarrow> Entry \<Rightarrow> 'fd StatAt \<Rightarrow> bool" where
  "lname_pass f pf e st =
     (if rf_lname_enabled f then
        if e_file_type e \<noteq> Symlink then False
        else (case stat_readlink pf st of Some t \<Rightarrow> rf_glob_lname f t | None \<Rightarrow> False)
      else True)"

definition owner_filter :: "RunFilters \<Rightarrow> os_calls \<Rightarrow> Meta \<Rightarrow> NssCache \<Rightarrow> (bool \<times> NssCache) option" where
  "owner_filter f os m nss =
     (case (if p_nouser (rf_predicates f) then user_exists (os_getpwuid os) (m_uid m) nss else Some (False, nss)) of
        None \<Rightarrow> None
      | Some (True, nss) \<Rightarrow> Some (False, nss)
      | Some (False, nss) \<Rightarrow>
          (case (if p_nogroup (rf_predicates f) then group_exists (os_getgrgid os) (m_gid m) nss else Some (False, nss)) of
             None \<Rightarrow> None
           | Some (found, nss) \<Rightarrow> Some (\<not> found, nss)))"

definition meta_filter ::
  "RunFilters \<Rightarrow> os_calls \<Rightarrow> 'fd platform \<Rightarrow> 'fd StatAt \<Rightarrow> NssCache \<Rightarrow> (bool \<times> NssCache) option" where
  "meta_filter f os pf st nss =
     (if rf_meta_active f then
        (case stat_fetch pf st (rf_meta_mask f) of
           Inl _ \<Rightarrow> Some (False, nss)
         | Inr m \<Rightarrow>
             (case predicates_matches (rf_predicates f) m (rf_now f) of
                None \<Rightarrow> None
              | Some False \<Rightarrow> Some (False, nss)
              | Some True \<Rightarrow> owner_filter f os m nss))
      else Some (True, nss))"

definition entry_filter ::
  "RunFilters \<Rightarrow> os_calls \<Rightarrow> 'fd platform \<Rightarrow> Entry \<Rightarrow> 'fd StatAt \<Rightarrow> NssCache \<Rightarrow> (bool \<times> NssCache) option" where
  "entry_filter f os pf e st nss =
     (if e_depth e < rf_min_depth f then Some (False, nss)
      else if ignore_filetype (os_read_dir os) (os_metadata_len os) (rf_filetype f) (e_file_type e) (e_path e)
      then Some (False, nss)
      else if rf_glob_enabled f \<and> \<not> rf_glob_name f (entry_file_name e) then Some (False, nss)
      else if rf_regex_enabled f \<and> \<not> rf_regex_name f (path_to_bytes (e_path e)) then Some (False, nss)
      else if rf_path_glob_enabled f \<and> \<not> rf_glob_path f (e_path e) then Some (False, nss)
      else if \<not> lname_pass f pf e st then Some (False, nss)
      else
        (case meta_filter f os pf st nss of
           None \<Rightarrow> None
         | Some (False, nss) \<Rightarrow> Some (False, nss)
         | Some (True, nss) \<Rightarrow>
             if rf_access f \<noteq> 0 \<and> \<not> stat_access pf st (rf_access f) then Some (False, nss)
             else Some (True, nss)))"

section \<open>The visitor\<close>

text \<open>
  What one worker's visitor owns. \<open>rs_panicked\<close> marks a filter that panicked; such a worker takes
  no further step in the pipeline.
\<close>

record RunState =
  rs_nss :: NssCache
  rs_batch :: BatchSender
  rs_panicked :: bool

definition make_run_state :: RunState where
  "make_run_state = \<lparr>rs_nss = nss_cache_default, rs_batch = batch_new, rs_panicked = False\<rparr>"

text \<open>\<open>shutdown\<close> is what the load of the flag sees, \<open>alive\<close> whether the channel still has its receiver.\<close>

definition run_visitor ::
  "RunFilters \<Rightarrow> os_calls \<Rightarrow> 'fd platform \<Rightarrow> bool \<Rightarrow> bool \<Rightarrow> ('fd, RunState) visitor" where
  "run_visitor f os pf shutdown alive v e st =
     (if shutdown then (WalkQuit, v)
      else
        (case entry_filter f os pf e st (rs_nss v) of
           None \<Rightarrow> (WalkContinue, v\<lparr>rs_panicked := True\<rparr>)
         | Some (False, nss) \<Rightarrow> (WalkContinue, v\<lparr>rs_nss := nss\<rparr>)
         | Some (True, nss) \<Rightarrow>
             (case batch_push alive e (rs_batch v) of
                (ok, b) \<Rightarrow> (if ok then WalkContinue else WalkQuit, v\<lparr>rs_nss := nss, rs_batch := b\<rparr>))))"

section \<open>What the chain decides\<close>

text \<open>The memo is coherent with the account database.\<close>

definition nss_ok :: "os_calls \<Rightarrow> NssCache \<Rightarrow> bool" where
  "nss_ok os nss \<longleftrightarrow>
     coherent (nss_user_exists (os_getpwuid os)) (nc_users nss)
     \<and> coherent (nss_group_exists (os_getgrgid os)) (nc_groups nss)"

definition lookups_answer :: "os_calls \<Rightarrow> bool" where
  "lookups_answer os \<longleftrightarrow>
     (\<forall>i. nss_user_exists (os_getpwuid os) i \<noteq> None \<and> nss_group_exists (os_getgrgid os) i \<noteq> None)"

definition owner_ok :: "RunFilters \<Rightarrow> os_calls \<Rightarrow> Meta \<Rightarrow> bool" where
  "owner_ok f os m \<longleftrightarrow>
     (p_nouser (rf_predicates f) \<longrightarrow> nss_user_exists (os_getpwuid os) (m_uid m) = Some False)
     \<and> (p_nogroup (rf_predicates f) \<longrightarrow> nss_group_exists (os_getgrgid os) (m_gid m) = Some False)"

definition meta_ok :: "RunFilters \<Rightarrow> os_calls \<Rightarrow> 'fd platform \<Rightarrow> 'fd StatAt \<Rightarrow> bool" where
  "meta_ok f os pf st \<longleftrightarrow>
     (case stat_fetch pf st (rf_meta_mask f) of
        Inl _ \<Rightarrow> False
      | Inr m \<Rightarrow> satisfied (rf_predicates f) m (rf_now f) \<and> owner_ok f os m)"

definition keeps :: "RunFilters \<Rightarrow> os_calls \<Rightarrow> 'fd platform \<Rightarrow> Entry \<Rightarrow> 'fd StatAt \<Rightarrow> bool" where
  "keeps f os pf e st \<longleftrightarrow>
     rf_min_depth f \<le> e_depth e
     \<and> \<not> ignore_filetype (os_read_dir os) (os_metadata_len os) (rf_filetype f) (e_file_type e) (e_path e)
     \<and> (rf_glob_enabled f \<longrightarrow> rf_glob_name f (entry_file_name e))
     \<and> (rf_regex_enabled f \<longrightarrow> rf_regex_name f (e_path e))
     \<and> (rf_path_glob_enabled f \<longrightarrow> rf_glob_path f (e_path e))
     \<and> (rf_lname_enabled f \<longrightarrow>
          e_file_type e = Symlink \<and> (\<exists>t. stat_readlink pf st = Some t \<and> rf_glob_lname f t))
     \<and> (rf_meta_active f \<longrightarrow> meta_ok f os pf st)
     \<and> (rf_access f \<noteq> 0 \<longrightarrow> stat_access pf st (rf_access f))"

lemma nss_ok_default [simp]: "nss_ok os nss_cache_default"
  by (simp add: nss_ok_def coherent_def nss_cache_default_def)

lemma user_lookup:
  assumes "nss_ok os nss" "nss_user_exists (os_getpwuid os) i = Some b"
  shows "\<exists>nss'. user_exists (os_getpwuid os) i nss = Some (b, nss') \<and> nss_ok os nss'"
  using users.get_coherent [of "os_getpwuid os" nss i b] assms user_exists_groups
  unfolding nss_ok_def by metis

lemma group_lookup:
  assumes "nss_ok os nss" "nss_group_exists (os_getgrgid os) i = Some b"
  shows "\<exists>nss'. group_exists (os_getgrgid os) i nss = Some (b, nss') \<and> nss_ok os nss'"
  using groups.get_coherent [of "os_getgrgid os" nss i b] assms group_exists_users
  unfolding nss_ok_def by metis

lemma owner_filter_decides:
  assumes "lookups_answer os" "nss_ok os nss"
  shows "\<exists>nss'. owner_filter f os m nss = Some (owner_ok f os m, nss') \<and> nss_ok os nss'"
proof -
  obtain b where b: "nss_user_exists (os_getpwuid os) (m_uid m) = Some b"
    using assms(1) by (fastforce simp: lookups_answer_def)
  obtain c where c: "nss_group_exists (os_getgrgid os) (m_gid m) = Some c"
    using assms(1) by (fastforce simp: lookups_answer_def)
  obtain n1 where n1: "user_exists (os_getpwuid os) (m_uid m) nss = Some (b, n1)" "nss_ok os n1"
    using user_lookup [OF assms(2) b] by blast
  obtain n2 where n2: "group_exists (os_getgrgid os) (m_gid m) nss = Some (c, n2)" "nss_ok os n2"
    using group_lookup [OF assms(2) c] by blast
  obtain n3 where n3: "group_exists (os_getgrgid os) (m_gid m) n1 = Some (c, n3)" "nss_ok os n3"
    using group_lookup [OF n1(2) c] by blast
  show ?thesis
    using b c n1 n2 n3 assms(2)
    by (cases "p_nouser (rf_predicates f)"; cases "p_nogroup (rf_predicates f)"; cases b)
       (simp_all add: owner_filter_def owner_ok_def)
qed

lemma meta_filter_decides:
  assumes "wf_predicates (rf_predicates f)" "lookups_answer os" "nss_ok os nss"
  shows "\<exists>nss'. meta_filter f os pf st nss = Some (rf_meta_active f \<longrightarrow> meta_ok f os pf st, nss') \<and> nss_ok os nss'"
proof (cases "rf_meta_active f")
  case True
  show ?thesis
  proof (cases "stat_fetch pf st (rf_meta_mask f)")
    case (Inl e)
    then show ?thesis using True assms(3) by (simp add: meta_filter_def meta_ok_def)
  next
    case (Inr m)
    obtain b where b: "predicates_matches (rf_predicates f) m (rf_now f) = Some b"
      "b \<longleftrightarrow> satisfied (rf_predicates f) m (rf_now f)"
      using predicates_matches_not_None [OF assms(1)] predicates_matches_True_iff
      by (metis (full_types) option.exhaust option.inject)
    show ?thesis
      using True Inr b owner_filter_decides [OF assms(2,3), of f m] assms(3)
      by (cases b) (simp_all add: meta_filter_def meta_ok_def)
  qed
qed (use assms(3) in \<open>simp add: meta_filter_def\<close>)

lemma lname_pass_iff:
  "lname_pass f pf e st \<longleftrightarrow> (rf_lname_enabled f \<longrightarrow>
     e_file_type e = Symlink \<and> (\<exists>t. stat_readlink pf st = Some t \<and> rf_glob_lname f t))"
  by (auto simp: lname_pass_def split: option.splits)

lemma entry_filter_decides:
  assumes "wf_predicates (rf_predicates f)" "lookups_answer os" "nss_ok os nss"
  shows "\<exists>nss'. entry_filter f os pf e st nss = Some (keeps f os pf e st, nss') \<and> nss_ok os nss'"
proof -
  obtain n where n: "meta_filter f os pf st nss = Some (rf_meta_active f \<longrightarrow> meta_ok f os pf st, n)" "nss_ok os n"
    using meta_filter_decides [OF assms] by blast
  show ?thesis
    using n assms(3)
    by (cases "rf_meta_active f \<longrightarrow> meta_ok f os pf st")
       (auto simp: entry_filter_def keeps_def lname_pass_iff path_to_bytes_def not_less)
qed

end
