(* ===== verification/Pipeline.thy ===== *)
theory Pipeline
  imports Entry_Filter
begin

text \<open>
  The running pipeline of \<open>run\<close> in \<open>src/lib.rs\<close>: the walker threads of \<open>walk_parallel\<close>, each with
  its visitor and batch, the bounded channel of batches, the output thread, and the main thread that
  waits for both. One step is one step of a walker (a visitor call and the send it may make are one
  step, enabled when the channel has room), the drop of a walker's visitor, one receive or one
  printed entry of the output thread, or the main thread dropping its sender.
\<close>

section \<open>The output thread\<close>

definition print_separator :: "Args \<Rightarrow> char" where
  "print_separator args = (if a_null args then CHR 0x00 else CHR 0x0A)"

definition max_results_cap :: "Args \<Rightarrow> usize option" where
  "max_results_cap args = (case a_max_results args of Some n \<Rightarrow> if n > 0 then Some n else None | None \<Rightarrow> None)"

text \<open>
  Its locals: the rest of the batch in hand, the bytes written to the sink (errors of the sink are
  ignored by the code), the counter; \<open>pr_printed\<close>, the entries printed, is not kept by the program.
\<close>

record Printer =
  pr_batch :: "Entry list"
  pr_out :: string
  pr_written :: usize
  pr_printed :: "Entry list"

definition printer_start :: Printer where
  "printer_start = \<lparr>pr_batch = [], pr_out = [], pr_written = 0, pr_printed = []\<rparr>"

text \<open>One iteration of the inner loop; \<open>True\<close> is \<open>break 'outer\<close>.\<close>

definition print_entry :: "char \<Rightarrow> usize option \<Rightarrow> Entry \<Rightarrow> Printer \<Rightarrow> bool \<times> Printer" where
  "print_entry sep cap e pr =
     (let pr = pr\<lparr>pr_out := pr_out pr @ e_path e @ [sep], pr_printed := pr_printed pr @ [e],
                  pr_written := pr_written pr + 1\<rparr>
      in (case cap of Some n \<Rightarrow> pr_written pr \<ge> n | None \<Rightarrow> False, pr))"

text \<open>The whole thread on the batches it will receive: whether it broke off, and its final locals.\<close>

fun print_batch :: "char \<Rightarrow> usize option \<Rightarrow> Entry list \<Rightarrow> Printer \<Rightarrow> bool \<times> Printer" where
  "print_batch sep cap [] pr = (False, pr)"
| "print_batch sep cap (e # es) pr =
     (case print_entry sep cap e pr of
        (True, pr) \<Rightarrow> (True, pr)
      | (False, pr) \<Rightarrow> print_batch sep cap es pr)"

fun print_thread :: "char \<Rightarrow> usize option \<Rightarrow> Entry list list \<Rightarrow> Printer \<Rightarrow> bool \<times> Printer" where
  "print_thread sep cap [] pr = (False, pr)"
| "print_thread sep cap (b # bs) pr =
     (case print_batch sep cap b pr of
        (True, pr) \<Rightarrow> (True, pr)
      | (False, pr) \<Rightarrow> print_thread sep cap bs pr)"

section \<open>The shared state\<close>

definition CHAN_MULT :: usize where "CHAN_MULT = 4"

definition chan_capacity :: "Args \<Rightarrow> nat" where
  "chan_capacity args = unat (CHAN_MULT * (a_threads args - 1))"

record 'fd pipeline =
  pl_walk :: "('fd, RunState) walk_state"
  pl_dead :: "nat \<Rightarrow> bool"
  pl_dropped :: "nat \<Rightarrow> bool"
  pl_queue :: "Entry list list"
  pl_alive :: bool
  pl_cut :: bool
  pl_main_tx :: bool
  pl_shutdown :: bool
  pl_printer :: Printer

text \<open>
  \<open>pl_dead w\<close>: worker \<open>w\<close> panicked. \<open>pl_dropped w\<close>: its visitor, and with it its sender, is gone.
  \<open>pl_alive\<close>: the output thread still has the receiver; \<open>pl_cut\<close>: it broke off at the result cap.
  \<open>pl_main_tx\<close>: the main thread has not dropped its own sender.
\<close>

definition pipeline_init :: "WalkCtx \<Rightarrow> 'fd platform \<Rightarrow> path list \<Rightarrow> 'fd pipeline" where
  "pipeline_init ctx pf roots =
     \<lparr>pl_walk = walk_init ctx pf roots (\<lambda>_. make_run_state), pl_dead = (\<lambda>_. False),
      pl_dropped = (\<lambda>_. False), pl_queue = [], pl_alive = True, pl_cut = False,
      pl_main_tx = True, pl_shutdown = False, pl_printer = printer_start\<rparr>"

abbreviation worker_tx :: "('fd, RunState) walk_state \<Rightarrow> nat \<Rightarrow> Entry list list" where
  "worker_tx s w \<equiv> bs_tx (rs_batch (ws_visitor s w))"

text \<open>
  Whether a \<open>send\<close> can complete. A channel of capacity 0 (one thread) hands a batch over only while
  the output thread waits in \<open>recv\<close>; the batch is then the one element of the queue.
\<close>

definition chan_room :: "Args \<Rightarrow> 'fd pipeline \<Rightarrow> bool" where
  "chan_room args r =
     (if chan_capacity args = 0 then pl_queue r = [] \<and> pr_batch (pl_printer r) = []
      else length (pl_queue r) < chan_capacity args)"

text \<open>What a worker handed to its sender goes into the channel.\<close>

definition collect_tx :: "nat \<Rightarrow> ('fd, RunState) walk_state \<Rightarrow> ('fd, RunState) walk_state" where
  "collect_tx w s =
     s\<lparr>ws_visitor := (ws_visitor s)
         (w := (ws_visitor s w)\<lparr>rs_batch := (rs_batch (ws_visitor s w))\<lparr>bs_tx := []\<rparr>\<rparr>)\<rparr>"

definition after_worker :: "nat \<Rightarrow> ('fd, RunState) walk_state \<Rightarrow> 'fd pipeline \<Rightarrow> 'fd pipeline" where
  "after_worker w s r = r\<lparr>pl_walk := collect_tx w s, pl_queue := pl_queue r @ worker_tx s w\<rparr>"

definition drop_batch :: "nat \<Rightarrow> bool \<Rightarrow> ('fd, RunState) walk_state \<Rightarrow> ('fd, RunState) walk_state" where
  "drop_batch w alive s =
     s\<lparr>ws_visitor := (ws_visitor s)
         (w := (ws_visitor s w)\<lparr>rs_batch := batch_drop alive (rs_batch (ws_visitor s w))\<rparr>)\<rparr>"

definition after_print :: "bool \<times> Printer \<Rightarrow> Entry list \<Rightarrow> 'fd pipeline \<Rightarrow> 'fd pipeline" where
  "after_print res es r =
     (case res of
        (True, pr) \<Rightarrow> r\<lparr>pl_printer := pr\<lparr>pr_batch := []\<rparr>, pl_queue := [], pl_alive := False, pl_cut := True\<rparr>
      | (False, pr) \<Rightarrow> r\<lparr>pl_printer := pr\<lparr>pr_batch := es\<rparr>\<rparr>)"

section \<open>The steps\<close>

text \<open>
  A relaxed load of the shutdown flag may miss a store (\<open>seen\<close>). \<open>Sender::send\<close> blocks while the
  channel is full. The scope of \<open>walk_parallel\<close> ends when every worker has left its loop and its
  visitor is dropped; only then the main thread drops its sender and joins the output thread,
  which ends when the channel is empty and all senders are gone.
\<close>

inductive pipeline_step ::
  "WalkCtx \<Rightarrow> 'fd platform \<Rightarrow> RunFilters \<Rightarrow> os_calls \<Rightarrow> 'fd pipeline \<Rightarrow> 'fd pipeline \<Rightarrow> bool"
  for ctx pf f os r where
  worker: "\<lbrakk>\<not> pl_dead r w; \<not> pl_dropped r w; seen \<longrightarrow> pl_shutdown r;
    walk_step ctx pf (run_visitor f os pf seen (pl_alive r)) (n_workers (ctx_args ctx)) w (pl_walk r) s;
    \<not> rs_panicked (ws_visitor s w);
    worker_tx s w = [] \<or> chan_room (ctx_args ctx) r\<rbrakk> \<Longrightarrow>
    pipeline_step ctx pf f os r (after_worker w s r)"
| worker_panics: "\<lbrakk>\<not> pl_dead r w; \<not> pl_dropped r w; seen \<longrightarrow> pl_shutdown r;
    walk_step ctx pf (run_visitor f os pf seen (pl_alive r)) (n_workers (ctx_args ctx)) w (pl_walk r) s;
    rs_panicked (ws_visitor s w)\<rbrakk> \<Longrightarrow>
    pipeline_step ctx pf f os r (r\<lparr>pl_dead := (pl_dead r)(w := True)\<rparr>)"
| drop_visitor: "\<lbrakk>w < n_workers (ctx_args ctx); ws_phase (pl_walk r) w = Exited \<or> pl_dead r w; \<not> pl_dropped r w;
    s = drop_batch w (pl_alive r) (pl_walk r);
    worker_tx s w = [] \<or> chan_room (ctx_args ctx) r\<rbrakk> \<Longrightarrow>
    pipeline_step ctx pf f os r ((after_worker w s r)\<lparr>pl_dropped := (pl_dropped r)(w := True)\<rparr>)"
| receive: "\<lbrakk>pl_alive r; pr_batch (pl_printer r) = []; pl_queue r = b # bs\<rbrakk> \<Longrightarrow>
    pipeline_step ctx pf f os r
      (r\<lparr>pl_queue := bs, pl_printer := (pl_printer r)\<lparr>pr_batch := b\<rparr>\<rparr>)"
| print_next: "\<lbrakk>pl_alive r; pr_batch (pl_printer r) = e # es\<rbrakk> \<Longrightarrow>
    pipeline_step ctx pf f os r
      (after_print (print_entry (print_separator (ctx_args ctx)) (max_results_cap (ctx_args ctx)) e (pl_printer r)) es r)"
| main_drops_tx: "\<lbrakk>pl_main_tx r; walk_returned (n_workers (ctx_args ctx)) (pl_walk r);
    \<And>w. w < n_workers (ctx_args ctx) \<Longrightarrow> pl_dropped r w \<and> \<not> pl_dead r w\<rbrakk> \<Longrightarrow>
    pipeline_step ctx pf f os r (r\<lparr>pl_main_tx := False\<rparr>)"
| channel_ends: "\<lbrakk>pl_alive r; pr_batch (pl_printer r) = []; pl_queue r = []; \<not> pl_main_tx r;
    \<And>w. w < n_workers (ctx_args ctx) \<Longrightarrow> pl_dropped r w\<rbrakk> \<Longrightarrow>
    pipeline_step ctx pf f os r (r\<lparr>pl_alive := False\<rparr>)"
| stop_signal: "pipeline_step ctx pf f os r (r\<lparr>pl_shutdown := True\<rparr>)"

inductive pipeline_reach ::
  "WalkCtx \<Rightarrow> 'fd platform \<Rightarrow> RunFilters \<Rightarrow> os_calls \<Rightarrow> 'fd pipeline \<Rightarrow> 'fd pipeline \<Rightarrow> bool"
  for ctx pf f os r where
  pl_start: "pipeline_reach ctx pf f os r r"
| pl_step: "\<lbrakk>pipeline_reach ctx pf f os r r'; pipeline_step ctx pf f os r' r''\<rbrakk> \<Longrightarrow>
    pipeline_reach ctx pf f os r r''"

text \<open>\<open>run\<close> returns: both joins are over.\<close>

definition pipeline_done :: "'fd pipeline \<Rightarrow> bool" where
  "pipeline_done r \<longleftrightarrow> \<not> pl_main_tx r \<and> \<not> pl_alive r"

section \<open>What the output thread writes\<close>

abbreviation output_line :: "char \<Rightarrow> Entry \<Rightarrow> string" where
  "output_line sep e \<equiv> e_path e @ [sep]"

text \<open>The locals of the output thread: what it wrote is what it printed, and the cap is not passed.\<close>

definition printer_ok :: "char \<Rightarrow> usize option \<Rightarrow> bool \<Rightarrow> Printer \<Rightarrow> bool" where
  "printer_ok sep cap stopped pr \<longleftrightarrow>
     pr_out pr = concat (map (output_line sep) (pr_printed pr))
     \<and> pr_written pr = of_nat (length (pr_printed pr))
     \<and> (if stopped then \<exists>n. cap = Some n \<and> length (pr_printed pr) = unat n
        else (\<forall>n. cap = Some n \<longrightarrow> length (pr_printed pr) < unat n))"

lemma of_nat_ge_cap:
  fixes n :: usize
  assumes "k < unat n"
  shows "n \<le> of_nat (Suc k) \<longleftrightarrow> Suc k = unat n"
proof -
  have "Suc k < 2 ^ 64" using assms unsigned_less [of n, where 'a = nat] by simp
  then have "unat (of_nat (Suc k) :: usize) = Suc k" unfolding unat_of_nat by simp
  then show ?thesis using assms by (auto simp: word_le_nat_alt simp del: of_nat_Suc)
qed

lemma print_entry_ok:
  assumes "printer_ok sep cap False pr" "print_entry sep cap e pr = (stop, pr')"
  shows "printer_ok sep cap stop pr'" "pr_printed pr' = pr_printed pr @ [e]" "pr_batch pr' = pr_batch pr"
proof -
  show p: "pr_printed pr' = pr_printed pr @ [e]" "pr_batch pr' = pr_batch pr"
    using assms(2) by (auto simp: print_entry_def Let_def)
  have w: "pr_written pr' = of_nat (length (pr_printed pr'))"
    and o: "pr_out pr' = concat (map (output_line sep) (pr_printed pr'))"
    and stop: "stop = (case cap of Some n \<Rightarrow> pr_written pr' \<ge> n | None \<Rightarrow> False)"
    using assms by (auto simp: print_entry_def printer_ok_def Let_def)
  have "if stop then \<exists>n. cap = Some n \<and> length (pr_printed pr') = unat n
      else (\<forall>n. cap = Some n \<longrightarrow> length (pr_printed pr') < unat n)"
  proof (cases cap)
    case (Some n)
    then have "length (pr_printed pr) < unat n" using assms(1) by (simp add: printer_ok_def)
    from of_nat_ge_cap [OF this] this show ?thesis
      using Some by (auto simp: stop w p(1) simp del: of_nat_Suc)
  qed (simp add: stop)
  with w o show "printer_ok sep cap stop pr'" by (simp add: printer_ok_def)
qed

lemma printer_start_ok:
  "(\<And>n. cap = Some n \<Longrightarrow> 0 < n) \<Longrightarrow> printer_ok sep cap False printer_start"
  by (auto simp: printer_ok_def printer_start_def word_less_nat_alt)

lemma print_batch_ok:
  assumes "printer_ok sep cap False pr" "print_batch sep cap es pr = (stop, pr')"
  shows "printer_ok sep cap stop pr'
    \<and> (\<exists>rest. pr_printed pr @ es = pr_printed pr' @ rest \<and> (stop \<or> rest = []))"
  using assms
proof (induction es arbitrary: pr)
  case (Cons e es)
  obtain s1 pr1 where p: "print_entry sep cap e pr = (s1, pr1)" by (cases "print_entry sep cap e pr")
  show ?case
    using Cons.IH [of pr1] Cons.prems p print_entry_ok [OF Cons.prems(1) p] by (cases s1) auto
qed simp

lemma print_thread_ok:
  assumes "printer_ok sep cap False pr" "print_thread sep cap bs pr = (stop, pr')"
  shows "printer_ok sep cap stop pr'
    \<and> (\<exists>rest. pr_printed pr @ concat bs = pr_printed pr' @ rest \<and> (stop \<or> rest = []))"
  using assms
proof (induction bs arbitrary: pr)
  case (Cons b bs)
  obtain s1 pr1 where p: "print_batch sep cap b pr = (s1, pr1)" by (cases "print_batch sep cap b pr")
  then obtain rest where b: "printer_ok sep cap s1 pr1" "pr_printed pr @ b = pr_printed pr1 @ rest" "s1 \<or> rest = []"
    using print_batch_ok [OF Cons.prems(1)] by blast
  show ?case
  proof (cases s1)
    case True
    then have "stop" "pr' = pr1" using Cons.prems p by simp_all
    moreover have "pr_printed pr @ concat (b # bs) = pr_printed pr1 @ rest @ concat bs"
      using b(2) by (metis append_assoc concat.simps(2))
    ultimately show ?thesis using b(1) True by (intro conjI exI [of _ "rest @ concat bs"]) simp_all
  next
    case False
    then have t: "print_thread sep cap bs pr1 = (stop, pr')" using Cons.prems p by simp
    have "printer_ok sep cap False pr1" using b(1) False by simp
    have eq: "pr_printed pr @ concat (b # bs) = pr_printed pr1 @ concat bs"
      using b(2,3) False by (metis append.right_neutral append_assoc concat.simps(2))
    from Cons.IH [OF \<open>printer_ok sep cap False pr1\<close> t] show ?thesis unfolding eq .
  qed
qed simp

definition first_results :: "Args \<Rightarrow> 'a list \<Rightarrow> 'a list" where
  "first_results args xs = (case max_results_cap args of None \<Rightarrow> xs | Some n \<Rightarrow> take (unat n) xs)"

lemma max_results_cap_pos: "max_results_cap args = Some n \<Longrightarrow> 0 < n"
  by (auto simp: max_results_cap_def split: option.splits if_splits)

lemma printer_prints_first:
  assumes "printer_ok sep (max_results_cap args) stop pr" "xs = pr_printed pr @ rest" "stop \<or> rest = []"
  shows "pr_printed pr = first_results args xs"
  using assms
  by (cases stop; cases "max_results_cap args") (auto simp: printer_ok_def first_results_def)

lemma thread_prints_first:
  "pr_printed (snd (print_thread sep (max_results_cap args) bs printer_start)) = first_results args (concat bs)
   \<and> pr_out (snd (print_thread sep (max_results_cap args) bs printer_start))
     = concat (map (output_line sep) (first_results args (concat bs)))"
proof -
  obtain stop pr where t: "print_thread sep (max_results_cap args) bs printer_start = (stop, pr)"
    by (cases "print_thread sep (max_results_cap args) bs printer_start")
  obtain rest where p: "printer_ok sep (max_results_cap args) stop pr"
    "concat bs = pr_printed pr @ rest" "stop \<or> rest = []"
    using print_thread_ok [OF printer_start_ok t] max_results_cap_pos by (auto simp: printer_start_def)
  show ?thesis using printer_prints_first [OF p] p(1) t by (simp add: printer_ok_def)
qed

text \<open>
  The output thread writes the paths of the entries it receives, in order, each followed by a
  newline (by NUL under \<open>--null\<close>), and with \<open>--max-results n\<close>, \<open>n > 0\<close>, the first \<open>n\<close> of them;
  \<open>--max-results 0\<close> is no limit.
\<close>

theorem output_is_first_results:
  "pr_out (snd (print_thread (print_separator args) (max_results_cap args) bs printer_start)) =
     concat (map (\<lambda>e. e_path e @ [if a_null args then CHR 0x00 else CHR 0x0A])
       (case a_max_results args of
          None \<Rightarrow> concat bs
        | Some n \<Rightarrow> if n = 0 then concat bs else take (unat n) (concat bs)))"
  using thread_prints_first [of "print_separator args" args bs]
  by (auto simp: print_separator_def first_results_def max_results_cap_def word_greater_zero_iff
      split: option.split)

lemma split_lines:
  "(\<And>e. e \<in> set es \<Longrightarrow> sep \<notin> set (e_path e)) \<Longrightarrow>
   split_on sep (concat (map (output_line sep) es)) = map e_path es @ [[]]"
  by (induction es) (simp_all add: split_on_append)

text \<open>
  C35. Under \<open>--null\<close> the output can be taken apart again, whatever bytes the file names have: split at
  NUL, it is the list of the paths printed.
\<close>

theorem null_output_splits_back:
  assumes "a_null args" "list_all (\<lambda>e. CHR 0x00 \<notin> set (e_path e)) (concat bs)"
  shows "split_on (CHR 0x00) (pr_out (snd (print_thread (print_separator args) (max_results_cap args) bs printer_start)))
    = map e_path (first_results args (concat bs)) @ [[]]"
proof -
  have "CHR 0x00 \<notin> set (e_path e)" if "e \<in> set (first_results args (concat bs))" for e
    using that assms(2) set_take_subset [of _ "concat bs"]
    unfolding first_results_def list_all_iff by (fastforce split: option.splits)
  then show ?thesis
    using thread_prints_first [of "print_separator args" args bs] assms(1)
    by (simp add: print_separator_def split_lines)
qed

end
