(* ===== verification/Pipeline_Correct.thy ===== *)
theory Pipeline_Correct
  imports Pipeline Walk_Progress
begin

text \<open>
  The guarantees of the running pipeline. The invariant accounts for every kept entry: it is in a
  worker's buffer, in the channel, in the hands of the output thread or printed. With the tree of the
  sequential walk this gives the result of a whole run, whatever the interleaving.
\<close>

section \<open>One visit\<close>

definition filters_ok :: "RunFilters \<Rightarrow> os_calls \<Rightarrow> bool" where
  "filters_ok f os \<longleftrightarrow> wf_predicates (rf_predicates f) \<and> lookups_answer os"

definition content :: "BatchSender \<Rightarrow> Entry multiset" where
  "content b = mset (concat (bs_tx b)) + mset (bs_buf b)"

definition kept :: "RunFilters \<Rightarrow> os_calls \<Rightarrow> 'fd platform \<Rightarrow> (Entry \<times> 'fd StatAt) multiset \<Rightarrow> Entry multiset" where
  "kept f os pf M = image_mset fst (filter_mset (\<lambda>ev. keeps f os pf (fst ev) (snd ev)) M)"

lemma kept_simps [simp]:
  "kept f os pf {#} = {#}"
  "kept f os pf (add_mset ev M) = (if keeps f os pf (fst ev) (snd ev) then add_mset (fst ev) (kept f os pf M) else kept f os pf M)"
  by (simp_all add: kept_def)

lemma kept_mono: "A \<subseteq># B \<Longrightarrow> kept f os pf A \<subseteq># kept f os pf B"
  by (simp add: kept_def image_mset_subseteq_mono multiset_filter_mono)

lemma push_content:
  "content (snd (batch_push True e b)) = content b + {#e#}"
  "content (snd (batch_push False e b)) \<subseteq># content b + {#e#}"
proof -
  show "content (snd (batch_push True e b)) = content b + {#e#}"
    using arg_cong [OF batching.push_alive(2) [of e b], of mset] by (simp add: content_def)
  show "content (snd (batch_push False e b)) \<subseteq># content b + {#e#}"
    using batching.push_dead [of e b] by (auto simp: content_def)
qed

lemma drop_content:
  "content (batch_drop True b) = content b" "content (batch_drop False b) \<subseteq># content b"
  by (simp_all add: content_def batching.close_alive batching.close_dead batching.close_held)

lemma run_visitor_effect:
  assumes "filters_ok f os" "nss_ok os (rs_nss v)" "run_visitor f os pf seen alive v e st = (q, v')"
  shows "nss_ok os (rs_nss v') \<and> rs_panicked v' = rs_panicked v \<and> (q = WalkQuit \<longrightarrow> seen \<or> \<not> alive)
    \<and> content (rs_batch v') \<subseteq># content (rs_batch v) + kept f os pf {#(e, st)#}
    \<and> (\<not> seen \<and> alive \<longrightarrow> content (rs_batch v') = content (rs_batch v) + kept f os pf {#(e, st)#})"
proof (cases seen)
  case True
  then show ?thesis using assms by (simp add: run_visitor_def)
next
  case False
  obtain nss where n: "entry_filter f os pf e st (rs_nss v) = Some (keeps f os pf e st, nss)" "nss_ok os nss"
    using entry_filter_decides [of f os "rs_nss v"] assms(1,2) unfolding filters_ok_def by blast
  obtain ok b where b: "batch_push alive e (rs_batch v) = (ok, b)" by (cases "batch_push alive e (rs_batch v)")
  show ?thesis
  proof (cases "keeps f os pf e st")
    case keep: True
    have r: "q = (if ok then WalkContinue else WalkQuit)" "v' = v\<lparr>rs_nss := nss, rs_batch := b\<rparr>"
      using assms(3) False n(1) b keep by (simp_all add: run_visitor_def)
    show ?thesis
    proof (cases alive)
      case True
      then show ?thesis
        using r n(2) b keep push_content(1) [of e "rs_batch v"] batching.push_alive(1) [of e "rs_batch v"] by simp
    next
      case dead: False
      then show ?thesis using r n(2) b keep push_content(2) [of e "rs_batch v"] by simp
    qed
  next
    case False
    then show ?thesis using assms(3) \<open>\<not> seen\<close> n by (auto simp: run_visitor_def)
  qed
qed

section \<open>One step of a walker\<close>

text \<open>A walker's step calls the visitor at most once, and touches nobody else's visitor.\<close>

lemma step_visits:
  assumes "walk_step ctx pf visitor n w s s'"
  obtains (quiet) "ws_visitor s' = ws_visitor s" "ws_log s' = ws_log s" "ws_quit s' = ws_quit s"
  | (visit) ev q v' where "visitor (ws_visitor s w) (fst ev) (snd ev) = (q, v')"
      "ws_visitor s' = (ws_visitor s)(w := v')" "ws_log s' = ws_log s @ [ev]"
      "ws_quit s' = (ws_quit s \<or> q = WalkQuit)"
  using assms
proof cases
  case (begin_process t)
  show ?thesis
  proof (cases "t_parent t = None")
    case True
    obtain q v' where v: "visitor (ws_visitor s w) (fst (root_visit ctx t)) (snd (root_visit ctx t)) = (q, v')"
      by (cases "visitor (ws_visitor s w) (fst (root_visit ctx t)) (snd (root_visit ctx t))")
    show ?thesis
      by (rule visit [OF v]; cases q)
         (use begin_process True v in \<open>simp_all add: begin_task_def begin_root_def call_visitor_def visit_effect_def\<close>)
  next
    case False
    show ?thesis by (rule quiet) (use begin_process False in \<open>simp_all add: begin_task_def\<close>)
  qed
next
  case (read_next d x xs)
  show ?thesis
  proof (cases "excluded ctx (fst (snd x))")
    case True
    then have "read_entry ctx visitor d x (ws_visitor s w) = (Skipped, ws_visitor s w)"
      by (cases x) (simp add: read_entry_def)
    then show ?thesis by (intro quiet) (use read_next in \<open>simp_all add: read_one_def\<close>)
  next
    case False
    obtain q v' where v: "visitor (ws_visitor s w) (fst (child_visit ctx d x)) (snd (child_visit ctx d x)) = (q, v')"
      by (cases "visitor (ws_visitor s w) (fst (child_visit ctx d x)) (snd (child_visit ctx d x))")
    have r: "read_entry ctx visitor d x (ws_visitor s w) =
        (case q of WalkQuit \<Rightarrow> (Stopped, v') | WalkContinue \<Rightarrow> (Visited (child_task ctx d x), v'))"
      using False v by (cases x) (simp add: read_entry_def call_visitor_def split: WalkState.split)
    show ?thesis
      by (rule visit [OF v]; cases q; cases "child_task ctx d x")
         (use read_next r in \<open>simp_all add: read_one_def visit_effect_def\<close>)
  qed
qed (use quiet in simp_all)

text \<open>The accounts of the walk do not look at the visitors.\<close>

definition walk_ok ::
  "WalkCtx \<Rightarrow> 'fd platform \<Rightarrow> nat \<Rightarrow> (Entry \<times> 'fd StatAt) multiset \<Rightarrow> ('fd, 'v) walk_state \<Rightarrow> bool" where
  "walk_ok ctx pf k whole s \<longleftrightarrow>
     ws_pending s = task_count (n_workers (ctx_args ctx)) s \<and> exit_ok (n_workers (ctx_args ctx)) s
     \<and> tree_inv ctx pf k (n_workers (ctx_args ctx)) whole s"

lemma walk_ok_visitor: "walk_ok ctx pf k whole (s\<lparr>ws_visitor := vs\<rparr>) = walk_ok ctx pf k whole s"
  by (simp add: walk_ok_def outstanding_def exit_ok_def nothing_left_def tree_inv_def)

lemma walk_ok_step:
  assumes st: "walk_step ctx pf visitor (n_workers (ctx_args ctx)) w s s'" and ok: "walk_ok ctx pf k whole s"
  shows "walk_ok ctx pf k whole s'"
  using pending_step [OF st] exit_ok_step [OF st] tree_inv_step [OF st] ok unfolding walk_ok_def by blast

lemma walk_ok_init:
  assumes "roots_fit ctx pf k roots"
  shows "walk_ok ctx pf k (roots_tree ctx pf k roots) (walk_init ctx pf roots mv)"
  unfolding walk_ok_def using pending_init exit_ok_reach [OF reach_start] tree_inv_init [OF assms] by blast

section \<open>Where the entries are\<close>

lemma sum_update:
  fixes g :: "nat \<Rightarrow> 'm :: cancel_comm_monoid_add"
  assumes "w < n" "\<And>i. i < n \<Longrightarrow> i \<noteq> w \<Longrightarrow> h i = g i"
  shows "sum h {..<n} + g w = sum g {..<n} + h w"
proof -
  have "sum h ({..<n} - {w}) = sum g ({..<n} - {w})" by (rule sum.cong) (use assms(2) in auto)
  then show ?thesis using assms(1) by (simp add: sum.remove [of "{..<n}" w] ac_simps)
qed

definition buffered :: "nat \<Rightarrow> ('fd, RunState) walk_state \<Rightarrow> Entry multiset" where
  "buffered n s = (\<Sum>w<n. mset (bs_buf (rs_batch (ws_visitor s w))))"

definition in_flight :: "nat \<Rightarrow> 'fd pipeline \<Rightarrow> Entry multiset" where
  "in_flight n r = buffered n (pl_walk r) + mset (concat (pl_queue r))
     + mset (pr_batch (pl_printer r)) + mset (pr_printed (pl_printer r))"

text \<open>
  A step of a sender's owner: the entries in flight change by what its sender's content does.
\<close>

lemma in_flight_after_worker:
  assumes "w < n" "\<And>i. i \<noteq> w \<Longrightarrow> ws_visitor s i = ws_visitor (pl_walk r) i" "worker_tx (pl_walk r) w = []"
  shows "in_flight n (after_worker w s r) + content (rs_batch (ws_visitor (pl_walk r) w))
    = in_flight n r + content (rs_batch (ws_visitor s w))"
proof -
  have "buffered n (collect_tx w s) + mset (bs_buf (rs_batch (ws_visitor (pl_walk r) w)))
      = buffered n (pl_walk r) + mset (bs_buf (rs_batch (ws_visitor s w)))"
    unfolding buffered_def
    using sum_update [OF assms(1), of "\<lambda>i. mset (bs_buf (rs_batch (ws_visitor (collect_tx w s) i)))"
        "\<lambda>i. mset (bs_buf (rs_batch (ws_visitor (pl_walk r) i)))"] assms(2)
    by (simp add: collect_tx_def)
  then show ?thesis
    using assms(3) by (simp add: in_flight_def after_worker_def content_def ac_simps)
qed

lemma flow_sub:
  fixes x x' b c K L :: "'a multiset"
  assumes "x' + b = x + c" "c \<subseteq># b + K" "x \<subseteq># L"
  shows "x' \<subseteq># L + K"
proof -
  have "x' + b \<subseteq># x + (b + K)" unfolding assms(1) using assms(2) by (rule subset_mset.add_left_mono)
  then have "x' + b \<subseteq># (x + K) + b" by (simp add: ac_simps)
  then have "x' \<subseteq># x + K" by simp
  also have "\<dots> \<subseteq># L + K" using assms(3) by (rule subset_mset.add_right_mono)
  finally show ?thesis .
qed

lemma flow_eq:
  fixes x x' b c K L :: "'a multiset"
  assumes "x' + b = x + c" "c = b + K" "x = L"
  shows "x' = L + K"
  using assms by (simp add: ac_simps)

section \<open>The invariant\<close>

definition worker_ok :: "os_calls \<Rightarrow> RunState \<Rightarrow> bool" where
  "worker_ok os v \<longleftrightarrow> nss_ok os (rs_nss v) \<and> \<not> rs_panicked v \<and> bs_tx (rs_batch v) = []"

definition workers_ok :: "os_calls \<Rightarrow> nat \<Rightarrow> 'fd pipeline \<Rightarrow> bool" where
  "workers_ok os n r \<longleftrightarrow>
     (\<forall>w. \<not> pl_dead r w) \<and> (\<forall>w < n. worker_ok os (ws_visitor (pl_walk r) w))
     \<and> (\<forall>w < n. pl_dropped r w \<longrightarrow>
          bs_buf (rs_batch (ws_visitor (pl_walk r) w)) = [] \<and> ws_phase (pl_walk r) w = Exited)"

definition life_ok :: "nat \<Rightarrow> 'fd pipeline \<Rightarrow> bool" where
  "life_ok n r \<longleftrightarrow>
     (ws_quit (pl_walk r) \<longrightarrow> pl_shutdown r \<or> pl_cut r)
     \<and> (\<not> pl_main_tx r \<longrightarrow> (\<forall>w < n. pl_dropped r w))
     \<and> (pl_cut r \<longrightarrow> \<not> pl_alive r)
     \<and> (\<not> pl_alive r \<and> \<not> pl_cut r \<longrightarrow>
          \<not> pl_main_tx r \<and> pl_queue r = [] \<and> pr_batch (pl_printer r) = [])"

text \<open>\<open>K\<close>: the entries that passed the filters so far.\<close>

definition flow_ok :: "nat \<Rightarrow> Entry multiset \<Rightarrow> 'fd pipeline \<Rightarrow> bool" where
  "flow_ok n K r \<longleftrightarrow>
     in_flight n r \<subseteq># K \<and> (\<not> pl_shutdown r \<and> \<not> pl_cut r \<longrightarrow> in_flight n r = K)"

abbreviation run_workers :: "WalkCtx \<Rightarrow> nat" where
  "run_workers ctx \<equiv> n_workers (ctx_args ctx)"

definition running_inv :: "WalkCtx \<Rightarrow> os_calls \<Rightarrow> Entry multiset \<Rightarrow> 'fd pipeline \<Rightarrow> bool" where
  "running_inv ctx os K r \<longleftrightarrow>
     workers_ok os (run_workers ctx) r
     \<and> life_ok (run_workers ctx) r
     \<and> printer_ok (print_separator (ctx_args ctx)) (max_results_cap (ctx_args ctx)) (pl_cut r) (pl_printer r)
     \<and> flow_ok (run_workers ctx) K r"

definition pipeline_inv ::
  "WalkCtx \<Rightarrow> 'fd platform \<Rightarrow> RunFilters \<Rightarrow> os_calls \<Rightarrow> nat \<Rightarrow> (Entry \<times> 'fd StatAt) multiset \<Rightarrow> 'fd pipeline \<Rightarrow> bool" where
  "pipeline_inv ctx pf f os k whole r \<longleftrightarrow>
     walk_ok ctx pf k whole (pl_walk r) \<and> running_inv ctx os (kept f os pf (mset (ws_log (pl_walk r)))) r"

lemmas pipeline_inv_parts = pipeline_inv_def running_inv_def

lemma running_inv_init: "running_inv ctx os {#} (pipeline_init ctx pf roots)"
  using printer_start_ok [of "max_results_cap (ctx_args ctx)" "print_separator (ctx_args ctx)"] max_results_cap_pos
  by (simp add: running_inv_def pipeline_init_def workers_ok_def worker_ok_def life_ok_def flow_ok_def
      in_flight_def buffered_def printer_start_def make_run_state_def batch_new_def walk_init_def)

lemma pipeline_inv_init:
  assumes "roots_fit ctx pf k roots"
  shows "pipeline_inv ctx pf f os k (roots_tree ctx pf k roots) (pipeline_init ctx pf roots)"
  using walk_ok_init [OF assms, of "\<lambda>_. make_run_state"] running_inv_init [of ctx os pf roots]
  by (simp add: pipeline_inv_def pipeline_init_def walk_init_def)

section \<open>Every step keeps it\<close>

text \<open>What a step has visited.\<close>

definition new_visits :: "('fd, 'v) walk_state \<Rightarrow> ('fd, 'v) walk_state \<Rightarrow> (Entry \<times> 'fd StatAt) multiset" where
  "new_visits s s' = mset (drop (length (ws_log s)) (ws_log s'))"

lemma step_other_phase:
  assumes "walk_step ctx pf visitor n w s s'" "i \<noteq> w"
  shows "ws_phase s' i = ws_phase s i"
proof (cases "working (ws_phase s w)")
  case True
  then show ?thesis using working_frame [OF assms(1)] assms(2) by (metis fun_upd_other)
next
  case False
  with assms show ?thesis by cases simp_all
qed

definition visit_effect_ok ::
  "RunFilters \<Rightarrow> os_calls \<Rightarrow> 'fd platform \<Rightarrow> bool \<Rightarrow> bool \<Rightarrow> nat \<Rightarrow>
   ('fd, RunState) walk_state \<Rightarrow> ('fd, RunState) walk_state \<Rightarrow> Entry multiset \<Rightarrow> bool" where
  "visit_effect_ok f os pf seen alive w s s' K \<longleftrightarrow>
     (\<forall>i. i \<noteq> w \<longrightarrow> ws_visitor s' i = ws_visitor s i)
     \<and> nss_ok os (rs_nss (ws_visitor s' w)) \<and> \<not> rs_panicked (ws_visitor s' w)
     \<and> mset (ws_log s') = mset (ws_log s) + new_visits s s' \<and> K = kept f os pf (new_visits s s')
     \<and> content (rs_batch (ws_visitor s' w)) \<subseteq># content (rs_batch (ws_visitor s w)) + K
     \<and> (\<not> seen \<and> alive \<longrightarrow> content (rs_batch (ws_visitor s' w)) = content (rs_batch (ws_visitor s w)) + K)
     \<and> (ws_quit s' \<longrightarrow> ws_quit s \<or> seen \<or> \<not> alive)"

lemma walk_step_effect:
  assumes st: "walk_step ctx pf (run_visitor f os pf seen alive) n w s s'"
    and ok: "filters_ok f os" "worker_ok os (ws_visitor s w)"
  shows "\<exists>K. visit_effect_ok f os pf seen alive w s s' K"
  using st
proof (cases rule: step_visits)
  case quiet
  then show ?thesis
    using ok by (intro exI [of _ "{#}"]) (simp add: visit_effect_ok_def worker_ok_def new_visits_def)
next
  case (visit ev q v')
  have "nss_ok os (rs_nss (ws_visitor s w))" using ok(2) by (simp add: worker_ok_def)
  note eff = run_visitor_effect [OF ok(1) this visit(1)]
  have log: "new_visits s s' = {#(fst ev, snd ev)#}" "mset (ws_log s') = mset (ws_log s) + new_visits s s'"
    using visit(3) by (simp_all add: new_visits_def)
  show ?thesis
    by (rule exI [of _ "kept f os pf {#(fst ev, snd ev)#}"])
       (use eff log visit(2,4) ok(2) in \<open>auto simp: visit_effect_ok_def worker_ok_def\<close>)
qed

lemma collect_tx_simps [simp]:
  "ws_log (collect_tx w s) = ws_log s" "ws_quit (collect_tx w s) = ws_quit s"
  "ws_phase (collect_tx w s) = ws_phase s"
  "ws_visitor (collect_tx w s) i =
     (if i = w then (ws_visitor s w)\<lparr>rs_batch := (rs_batch (ws_visitor s w))\<lparr>bs_tx := []\<rparr>\<rparr> else ws_visitor s i)"
  by (simp_all add: collect_tx_def)

lemma after_worker_simps [simp]:
  "pl_walk (after_worker w s r) = collect_tx w s"
  "pl_queue (after_worker w s r) = pl_queue r @ worker_tx s w"
  "pl_dead (after_worker w s r) = pl_dead r" "pl_dropped (after_worker w s r) = pl_dropped r"
  "pl_alive (after_worker w s r) = pl_alive r" "pl_cut (after_worker w s r) = pl_cut r"
  "pl_main_tx (after_worker w s r) = pl_main_tx r" "pl_shutdown (after_worker w s r) = pl_shutdown r"
  "pl_printer (after_worker w s r) = pl_printer r"
  by (simp_all add: after_worker_def)

lemma walk_ok_collect: "walk_ok ctx pf k whole (collect_tx w s) = walk_ok ctx pf k whole s"
  by (simp add: collect_tx_def walk_ok_visitor)

lemma running_not_over:
  assumes "life_ok n r" "w < n" "\<not> pl_dropped r w"
  shows "pl_main_tx r" "pl_alive r \<or> pl_cut r"
  using assms by (auto simp: life_ok_def)

lemma worker_inv:
  assumes inv: "running_inv ctx os K r" and ok: "filters_ok f os"
    and "\<not> pl_dropped r w" "seen \<longrightarrow> pl_shutdown r"
    and st: "walk_step ctx pf (run_visitor f os pf seen (pl_alive r)) (run_workers ctx) w (pl_walk r) s"
  shows "running_inv ctx os (K + kept f os pf (new_visits (pl_walk r) s)) (after_worker w s r)"
    and "mset (ws_log s) = mset (ws_log (pl_walk r)) + new_visits (pl_walk r) s"
proof -
  let ?n = "run_workers ctx" and ?K = "kept f os pf (new_visits (pl_walk r) s)"
  have w: "w < ?n" by (rule step_worker [OF st])
  have wk: "workers_ok os ?n r" and life: "life_ok ?n r" and flow: "flow_ok ?n K r"
    using inv by (simp_all add: running_inv_def)
  have wok: "worker_ok os (ws_visitor (pl_walk r) w)" using wk w by (simp add: workers_ok_def)
  have eff: "visit_effect_ok f os pf seen (pl_alive r) w (pl_walk r) s ?K"
    using walk_step_effect [OF st ok wok] by (auto simp: visit_effect_ok_def)
  show "mset (ws_log s) = mset (ws_log (pl_walk r)) + new_visits (pl_walk r) s"
    using eff by (simp add: visit_effect_ok_def)
  have alive: "pl_alive r \<or> pl_cut r" and main: "pl_main_tx r"
    using running_not_over [OF life w assms(3)] by simp_all
  have "workers_ok os ?n (after_worker w s r)"
    using wk eff assms(3) step_other_phase [OF st] by (auto simp: workers_ok_def worker_ok_def visit_effect_ok_def)
  moreover have "life_ok ?n (after_worker w s r)"
    using life eff assms(4) alive main by (auto simp: life_ok_def visit_effect_ok_def)
  moreover have "flow_ok ?n (K + ?K) (after_worker w s r)"
  proof -
    have bal: "in_flight ?n (after_worker w s r) + content (rs_batch (ws_visitor (pl_walk r) w))
        = in_flight ?n r + content (rs_batch (ws_visitor s w))"
      by (rule in_flight_after_worker [OF w]) (use eff wok in \<open>auto simp: visit_effect_ok_def worker_ok_def\<close>)
    show ?thesis
      using flow_sub [OF bal, of ?K] flow_eq [OF bal, of ?K] eff flow assms(4) alive
      by (auto simp: flow_ok_def visit_effect_ok_def)
  qed
  ultimately show "running_inv ctx os (K + ?K) (after_worker w s r)" using inv by (simp add: running_inv_def)
qed

lemma no_panic:
  assumes inv: "running_inv ctx os K r" and ok: "filters_ok f os"
    and st: "walk_step ctx pf (run_visitor f os pf seen (pl_alive r)) (run_workers ctx) w (pl_walk r) s"
  shows "\<not> rs_panicked (ws_visitor s w)"
proof -
  have "worker_ok os (ws_visitor (pl_walk r) w)"
    using inv step_worker [OF st] by (simp add: running_inv_def workers_ok_def)
  from walk_step_effect [OF st ok this] show ?thesis by (auto simp: visit_effect_ok_def)
qed

lemma drop_batch_simps [simp]:
  "ws_log (drop_batch w alive s) = ws_log s" "ws_quit (drop_batch w alive s) = ws_quit s"
  "ws_phase (drop_batch w alive s) = ws_phase s"
  "ws_visitor (drop_batch w alive s) i =
     (if i = w then (ws_visitor s w)\<lparr>rs_batch := batch_drop alive (rs_batch (ws_visitor s w))\<rparr> else ws_visitor s i)"
  by (simp_all add: drop_batch_def)

lemma drop_inv:
  assumes inv: "running_inv ctx os K r"
    and w: "w < run_workers ctx" "ws_phase (pl_walk r) w = Exited" "\<not> pl_dropped r w"
    and s: "s = drop_batch w (pl_alive r) (pl_walk r)"
  shows "running_inv ctx os K ((after_worker w s r)\<lparr>pl_dropped := (pl_dropped r)(w := True)\<rparr>)"
    (is "running_inv _ _ _ ?r")
proof -
  let ?n = "run_workers ctx"
  have wk: "workers_ok os ?n r" and life: "life_ok ?n r" and flow: "flow_ok ?n K r"
    using inv by (simp_all add: running_inv_def)
  have wok: "worker_ok os (ws_visitor (pl_walk r) w)" using wk w by (simp add: workers_ok_def)
  have alive: "pl_alive r \<or> pl_cut r" and main: "pl_main_tx r"
    using running_not_over [OF life w(1,3)] by simp_all
  have "workers_ok os ?n ?r"
    using wk w wok by (auto simp: workers_ok_def worker_ok_def s batching.close_held)
  moreover have "life_ok ?n ?r"
    using life alive main by (auto simp: life_ok_def s)
  moreover have "flow_ok ?n K ?r"
  proof -
    have bal: "in_flight ?n (after_worker w s r) + content (rs_batch (ws_visitor (pl_walk r) w))
        = in_flight ?n r + content (rs_batch (ws_visitor s w))"
      by (rule in_flight_after_worker [OF w(1)]) (use wok in \<open>auto simp: worker_ok_def s\<close>)
    have same: "in_flight ?n ?r = in_flight ?n (after_worker w s r)"
      by (simp add: in_flight_def)
    have "content (rs_batch (ws_visitor s w)) \<subseteq># content (rs_batch (ws_visitor (pl_walk r) w)) + {#}"
      using drop_content [of "rs_batch (ws_visitor (pl_walk r) w)"] by (cases "pl_alive r") (simp_all add: s)
    moreover have "pl_alive r \<Longrightarrow> content (rs_batch (ws_visitor s w)) = content (rs_batch (ws_visitor (pl_walk r) w)) + {#}"
      using drop_content(1) [of "rs_batch (ws_visitor (pl_walk r) w)"] by (simp add: s)
    ultimately show ?thesis
      using flow_sub [OF bal] flow_eq [OF bal] flow alive
      unfolding flow_ok_def same by (fastforce simp: s)
  qed
  ultimately show ?thesis using inv by (simp add: running_inv_def)
qed

lemma receive_inv:
  assumes inv: "running_inv ctx os K r"
    and "pl_alive r" "pr_batch (pl_printer r) = []" "pl_queue r = b # bs"
  shows "running_inv ctx os K (r\<lparr>pl_queue := bs, pl_printer := (pl_printer r)\<lparr>pr_batch := b\<rparr>\<rparr>)"
    (is "running_inv _ _ _ ?r")
proof -
  have "in_flight (run_workers ctx) ?r = in_flight (run_workers ctx) r"
    using assms(3,4) by (simp add: in_flight_def ac_simps)
  then show ?thesis
    using assms by (auto simp: running_inv_def workers_ok_def life_ok_def printer_ok_def flow_ok_def)
qed

lemma print_inv:
  assumes inv: "running_inv ctx os K r"
    and "pl_alive r" "pr_batch (pl_printer r) = e # es"
  shows "running_inv ctx os K
    (after_print (print_entry (print_separator (ctx_args ctx)) (max_results_cap (ctx_args ctx)) e (pl_printer r)) es r)"
proof -
  obtain stop pr where p: "print_entry (print_separator (ctx_args ctx)) (max_results_cap (ctx_args ctx)) e (pl_printer r)
      = (stop, pr)" by (cases "print_entry (print_separator (ctx_args ctx)) (max_results_cap (ctx_args ctx)) e (pl_printer r)")
  have cut: "\<not> pl_cut r" using inv assms(2) by (auto simp: running_inv_def life_ok_def)
  have "printer_ok (print_separator (ctx_args ctx)) (max_results_cap (ctx_args ctx)) False (pl_printer r)"
    using inv cut by (simp add: running_inv_def)
  note pr = print_entry_ok [OF this p]
  have flow: "flow_ok (run_workers ctx) K r" using inv by (simp add: running_inv_def)
  let ?r = "after_print (stop, pr) es r"
  have sub: "in_flight (run_workers ctx) ?r \<subseteq># in_flight (run_workers ctx) r"
    and eq: "\<not> stop \<Longrightarrow> in_flight (run_workers ctx) ?r = in_flight (run_workers ctx) r"
    using assms(3) pr(2) by (cases stop; simp add: after_print_def in_flight_def ac_simps)+
  have "flow_ok (run_workers ctx) K ?r"
    using flow subset_mset.order_trans [OF sub] eq cut by (cases stop) (auto simp: flow_ok_def after_print_def)
  then show ?thesis
    unfolding p using inv pr(1) cut assms(2)
    by (cases stop) (auto simp: running_inv_def after_print_def workers_ok_def life_ok_def printer_ok_def)
qed

text \<open>
  The part of the invariant that does not look at the tree: a step adds to the entries in flight those it visited and
  kept.
\<close>

lemma running_step:
  assumes st: "pipeline_step ctx pf f os r r'" and inv: "running_inv ctx os K r" and ok: "filters_ok f os"
  shows "running_inv ctx os (K + kept f os pf (new_visits (pl_walk r) (pl_walk r'))) r'
    \<and> mset (ws_log (pl_walk r')) = mset (ws_log (pl_walk r)) + new_visits (pl_walk r) (pl_walk r')"
proof -
  have same: "running_inv ctx os (K + kept f os pf (new_visits (pl_walk r) (pl_walk r'))) r'
      \<and> mset (ws_log (pl_walk r')) = mset (ws_log (pl_walk r)) + new_visits (pl_walk r) (pl_walk r')"
    if "running_inv ctx os K r'" "ws_log (pl_walk r') = ws_log (pl_walk r)"
    using that by (simp add: new_visits_def)
  show ?thesis
    using st
  proof cases
    case (worker w seen s)
    then show ?thesis using worker_inv [OF inv ok] by (simp add: new_visits_def)
  next
    case (worker_panics w seen s)
    then show ?thesis using no_panic [OF inv ok] by blast
  next
    case (drop_visitor w s)
    have "\<not> pl_dead r w" using inv by (simp add: running_inv_def workers_ok_def)
    then have "running_inv ctx os K r'" using drop_visitor drop_inv [OF inv] by blast
    then show ?thesis by (rule same) (simp add: drop_visitor)
  next
    case (receive b bs)
    then show ?thesis using receive_inv [OF inv] by (intro same) simp_all
  next
    case (print_next e es)
    then have "running_inv ctx os K r'" using print_inv [OF inv] by blast
    then show ?thesis by (rule same) (simp add: print_next after_print_def split: prod.split bool.split)
  next
    case main_drops_tx
    then show ?thesis
      using inv by (intro same) (auto simp: running_inv_def workers_ok_def life_ok_def flow_ok_def in_flight_def)
  next
    case channel_ends
    then show ?thesis
      using inv by (intro same) (auto simp: running_inv_def workers_ok_def life_ok_def flow_ok_def in_flight_def)
  next
    case stop_signal
    then show ?thesis
      using inv by (intro same) (auto simp: running_inv_def workers_ok_def life_ok_def flow_ok_def in_flight_def)
  qed
qed

lemma pipeline_walk_ok:
  assumes "pipeline_step ctx pf f os r r'" "walk_ok ctx pf k whole (pl_walk r)"
  shows "walk_ok ctx pf k whole (pl_walk r')"
  using assms(1)
proof cases
  case (worker w seen s)
  then show ?thesis using walk_ok_step [OF worker(5) assms(2)] by (simp add: walk_ok_collect)
next
  case (drop_visitor w s)
  then show ?thesis using assms(2) by (simp add: walk_ok_collect drop_batch_def walk_ok_visitor)
next
  case (print_next e es)
  then show ?thesis using assms(2) by (simp add: after_print_def split: prod.split bool.split)
qed (use assms(2) in simp_all)

lemma pipeline_inv_step:
  assumes "pipeline_step ctx pf f os r r'" "pipeline_inv ctx pf f os k whole r" "filters_ok f os"
  shows "pipeline_inv ctx pf f os k whole r'"
proof -
  have inv: "walk_ok ctx pf k whole (pl_walk r)" "running_inv ctx os (kept f os pf (mset (ws_log (pl_walk r)))) r"
    using assms(2) by (simp_all add: pipeline_inv_def)
  show ?thesis
    using running_step [OF assms(1) inv(2) assms(3)] pipeline_walk_ok [OF assms(1) inv(1)]
    by (auto simp: pipeline_inv_def kept_def)
qed

lemma pipeline_inv_reach:
  "pipeline_reach ctx pf f os r0 r \<Longrightarrow> pipeline_inv ctx pf f os k whole r0 \<Longrightarrow> filters_ok f os \<Longrightarrow>
   pipeline_inv ctx pf f os k whole r"
  by (induction rule: pipeline_reach.induct) (blast intro: pipeline_inv_step)+

section \<open>The result of a run\<close>

lemma printed_in_flight: "mset (pr_printed (pl_printer r)) \<subseteq># in_flight n r"
  by (simp add: in_flight_def)

lemma printed_in_tree:
  assumes "pipeline_inv ctx pf f os k whole r"
  shows "mset (pr_printed (pl_printer r)) \<subseteq># kept f os pf whole"
proof -
  have "mset (ws_log (pl_walk r)) \<subseteq># whole"
    using assms unfolding pipeline_inv_parts walk_ok_def tree_inv_def
    by (meson mset_subset_eq_add_left subset_mset.order_trans)
  then have "kept f os pf (mset (ws_log (pl_walk r))) \<subseteq># kept f os pf whole" by (rule kept_mono)
  moreover have "in_flight (run_workers ctx) r \<subseteq># kept f os pf (mset (ws_log (pl_walk r)))"
    using assms by (simp add: pipeline_inv_parts flow_ok_def)
  ultimately show ?thesis using printed_in_flight subset_mset.order_trans by metis
qed

lemma done_unquit_complete:
  assumes inv: "pipeline_inv ctx pf f os k whole r" and fin: "pipeline_done r" "\<not> ws_quit (pl_walk r)"
  shows "mset (ws_log (pl_walk r)) = whole"
proof -
  let ?n = "run_workers ctx"
  have "pl_dropped r 0" using inv fin(1) n_workers_pos by (simp add: pipeline_inv_parts life_ok_def pipeline_done_def)
  then have "ws_phase (pl_walk r) 0 = Exited"
    using inv n_workers_pos by (simp add: pipeline_inv_parts workers_ok_def)
  then have "nothing_left ?n (pl_walk r)"
    using inv fin(2) n_workers_pos by (auto simp: pipeline_inv_parts walk_ok_def exit_ok_def)
  then have "unvisited ctx pf k ?n (pl_walk r) = {#}" by (rule nothing_left_unvisited)
  then show ?thesis using inv fin(2) by (simp add: pipeline_inv_parts walk_ok_def tree_inv_def)
qed

text \<open>When a run that was neither interrupted nor cut is over, everything in flight has been printed.\<close>

lemma running_done:
  assumes "running_inv ctx os K r" "pipeline_done r" "\<not> pl_shutdown r" "\<not> pl_cut r"
  shows "mset (pr_printed (pl_printer r)) = K" "\<not> ws_quit (pl_walk r)"
proof -
  let ?n = "run_workers ctx"
  have life: "life_ok ?n r" and wk: "workers_ok os ?n r" and flow: "in_flight ?n r = K"
    using assms by (simp_all add: running_inv_def flow_ok_def)
  have dropped: "pl_dropped r w" if "w < ?n" for w using life assms(2) that by (simp add: life_ok_def pipeline_done_def)
  have "pl_queue r = []" "pr_batch (pl_printer r) = []"
    using life assms(2,4) by (simp_all add: life_ok_def pipeline_done_def)
  moreover have "buffered ?n (pl_walk r) = {#}" using wk dropped by (simp add: buffered_def workers_ok_def)
  ultimately show "mset (pr_printed (pl_printer r)) = K" using flow by (simp add: in_flight_def)
  show "\<not> ws_quit (pl_walk r)" using life assms(3,4) by (auto simp: life_ok_def)
qed

lemma finished_uncut:
  assumes inv: "pipeline_inv ctx pf f os k whole r" and fin: "pipeline_done r" "\<not> pl_shutdown r" "\<not> pl_cut r"
  shows "mset (pr_printed (pl_printer r)) = kept f os pf whole"
proof -
  have "running_inv ctx os (kept f os pf (mset (ws_log (pl_walk r)))) r" using inv by (simp add: pipeline_inv_def)
  note over = running_done [OF this fin]
  show ?thesis using over(1) done_unquit_complete [OF inv fin(1) over(2)] by simp
qed

lemma finished_size:
  assumes "pipeline_inv ctx pf f os k whole r" "pipeline_done r" "\<not> pl_shutdown r"
  shows "length (pr_printed (pl_printer r)) =
    (case max_results_cap (ctx_args ctx) of None \<Rightarrow> size (kept f os pf whole)
     | Some n \<Rightarrow> min (unat n) (size (kept f os pf whole)))"
proof -
  have pr: "printer_ok (print_separator (ctx_args ctx)) (max_results_cap (ctx_args ctx)) (pl_cut r) (pl_printer r)"
    using assms(1) by (simp add: pipeline_inv_parts)
  have le: "length (pr_printed (pl_printer r)) \<le> size (kept f os pf whole)"
    using size_mset_mono [OF printed_in_tree [OF assms(1)]] by simp
  show ?thesis
  proof (cases "pl_cut r")
    case True
    then show ?thesis using pr le by (auto simp: printer_ok_def)
  next
    case False
    then have "length (pr_printed (pl_printer r)) = size (kept f os pf whole)"
      using arg_cong [OF finished_uncut [OF assms False], of size] by simp
    then show ?thesis using False pr by (auto simp: printer_ok_def split: option.split)
  qed
qed

lemma run_invariant:
  assumes "pipeline_reach ctx pf f os (pipeline_init ctx pf roots) r" "roots_fit ctx pf k roots" "filters_ok f os"
  shows "pipeline_inv ctx pf f os k (roots_tree ctx pf k roots) r"
  by (rule pipeline_inv_reach [OF assms(1) pipeline_inv_init [OF assms(2)] assms(3)])

lemma run_output:
  assumes "pipeline_inv ctx pf f os k whole r"
  shows "pr_out (pl_printer r) =
    concat (map (output_line (print_separator (ctx_args ctx))) (pr_printed (pl_printer r)))"
  using assms by (simp add: pipeline_inv_parts printer_ok_def)

text \<open>
  C2. With \<open>--max-results n\<close>, \<open>n > 0\<close>, an uninterrupted run prints exactly \<open>n\<close> lines, or one for every
  match when there are fewer, and all of them are matches: the cap never cuts too early, although
  closing the channel makes walkers lose batches.
\<close>

theorem capped_run_prints_enough:
  assumes "pipeline_reach ctx pf f os (pipeline_init ctx pf roots) r" "pipeline_done r"
    and "\<not> pl_shutdown r" "a_max_results (ctx_args ctx) = Some n" "0 < n"
    and "roots_fit ctx pf k roots" "filters_ok f os"
  shows "\<exists>es. pr_out (pl_printer r) = concat (map (\<lambda>e. e_path e @ [print_separator (ctx_args ctx)]) es)
    \<and> mset es \<subseteq># kept f os pf (roots_tree ctx pf k roots)
    \<and> length es = min (unat n) (size (kept f os pf (roots_tree ctx pf k roots)))"
proof -
  note inv = run_invariant [OF assms(1,6,7)]
  have "max_results_cap (ctx_args ctx) = Some n" using assms(4,5) by (simp add: max_results_cap_def)
  then show ?thesis
    using finished_size [OF inv assms(2,3)] printed_in_tree [OF inv] run_output [OF inv] by auto
qed

text \<open>
  C7. At every moment of any run, also one that was interrupted or whose walkers are still busy, what
  has been written is complete lines, and every line is a distinct visit of the sequential walk that
  passes the filters: a signal can shorten the output, never falsify it.
\<close>

theorem output_is_always_matches:
  assumes "pipeline_reach ctx pf f os (pipeline_init ctx pf roots) r"
    and "roots_fit ctx pf k roots" "filters_ok f os"
  shows "\<exists>es. pr_out (pl_printer r) = concat (map (\<lambda>e. e_path e @ [print_separator (ctx_args ctx)]) es)
    \<and> mset es \<subseteq># kept f os pf (roots_tree ctx pf k roots)"
  using run_invariant [OF assms] run_output printed_in_tree by blast

end
