(* ===== verification/Pipeline_Progress.thy ===== *)
theory Pipeline_Progress
  imports Pipeline_Correct
begin

text \<open>
  Memory and progress of the pipeline: how many entries it holds at most, and that no state it gets
  into is a deadlock: the walkers, blocked or not, the output thread and the main thread can always
  be brought to the end of the run.
\<close>

section \<open>Memory\<close>

definition sizes_ok :: "RunState \<Rightarrow> bool" where
  "sizes_ok v \<longleftrightarrow> length (bs_buf (rs_batch v)) < BATCH_SIZE \<and> list_all batch_ok (bs_tx (rs_batch v))
     \<and> length (bs_tx (rs_batch v)) \<le> 1"

abbreviation slots :: "Args \<Rightarrow> nat" where
  "slots args \<equiv> max 1 (chan_capacity args)"

lemma chan_room_slots: "chan_room args r \<Longrightarrow> length (pl_queue r) < slots args"
  by (auto simp: chan_room_def split: if_splits)

lemma drained_room: "pl_queue r = [] \<Longrightarrow> pr_batch (pl_printer r) = [] \<Longrightarrow> chan_room args r"
  by (simp add: chan_room_def)

definition mem_ok :: "nat \<Rightarrow> nat \<Rightarrow> 'fd pipeline \<Rightarrow> bool" where
  "mem_ok n cap r \<longleftrightarrow>
     length (pl_queue r) \<le> cap \<and> list_all batch_ok (pl_queue r)
     \<and> length (pr_batch (pl_printer r)) \<le> BATCH_SIZE
     \<and> (\<forall>w < n. worker_tx (pl_walk r) w = [] \<and> length (bs_buf (rs_batch (ws_visitor (pl_walk r) w))) < BATCH_SIZE)"

lemma run_visitor_sizes:
  assumes "run_visitor f os pf seen alive v e st = (q, v')"
    and "bs_tx (rs_batch v) = []" "length (bs_buf (rs_batch v)) < BATCH_SIZE"
  shows "sizes_ok v'"
proof -
  obtain ok b where b: "batch_push alive e (rs_batch v) = (ok, b)" by (cases "batch_push alive e (rs_batch v)")
  have "length (bs_buf b) < BATCH_SIZE \<and> list_all batch_ok (bs_tx b)"
    by (rule batch_push_sizes [OF assms(3) _ b]) (use assms(2) in simp)
  moreover have "length (bs_tx b) \<le> 1" using batch_push_tx [of alive e "rs_batch v"] b assms(2) by auto
  ultimately have "sizes_ok (v\<lparr>rs_nss := nss, rs_batch := b\<rparr>)" for nss by (simp add: sizes_ok_def)
  then show ?thesis
    using assms b by (auto simp: run_visitor_def sizes_ok_def split: if_splits option.splits bool.splits)
qed

lemma walk_step_sizes:
  assumes st: "walk_step ctx pf (run_visitor f os pf seen alive) n w s s'"
    and "worker_tx s w = []" "length (bs_buf (rs_batch (ws_visitor s w))) < BATCH_SIZE"
  shows "sizes_ok (ws_visitor s' w)"
    and "\<And>i. i \<noteq> w \<Longrightarrow> ws_visitor s' i = ws_visitor s i"
proof -
  have "sizes_ok (ws_visitor s' w) \<and> (\<forall>i. i \<noteq> w \<longrightarrow> ws_visitor s' i = ws_visitor s i)"
    using st
  proof (cases rule: step_visits)
    case quiet
    then show ?thesis using assms by (simp add: sizes_ok_def)
  next
    case (visit ev q v')
    then show ?thesis using run_visitor_sizes [OF visit(1) assms(2,3)] by simp
  qed
  then show "sizes_ok (ws_visitor s' w)" "\<And>i. i \<noteq> w \<Longrightarrow> ws_visitor s' i = ws_visitor s i" by blast+
qed

lemma after_worker_mem:
  assumes "mem_ok n cap r" "sizes_ok (ws_visitor s w)" "\<And>i. i \<noteq> w \<Longrightarrow> ws_visitor s i = ws_visitor (pl_walk r) i"
    and "worker_tx s w = [] \<or> length (pl_queue r) < cap"
  shows "mem_ok n cap (after_worker w s r)"
  using assms by (auto simp: mem_ok_def sizes_ok_def)

lemma batch_ok_length: "batch_ok b \<Longrightarrow> length b \<le> BATCH_SIZE"
  by (simp add: batch_ok_def)

lemma mem_ok_step:
  assumes "pipeline_step ctx pf f os r r'" "mem_ok (run_workers ctx) (slots (ctx_args ctx)) r"
  shows "mem_ok (run_workers ctx) (slots (ctx_args ctx)) r'"
  using assms(1)
proof cases
  case (worker w seen s)
  have w: "w < run_workers ctx" by (rule step_worker [OF worker(5)])
  then have "worker_tx (pl_walk r) w = []" "length (bs_buf (rs_batch (ws_visitor (pl_walk r) w))) < BATCH_SIZE"
    using assms(2) by (simp_all add: mem_ok_def)
  from walk_step_sizes [OF worker(5) this] show ?thesis
    unfolding worker(1) by (rule after_worker_mem [OF assms(2)]) (use worker(7) chan_room_slots in auto)
next
  case (drop_visitor w s)
  let ?b = "rs_batch (ws_visitor (pl_walk r) w)"
  have b: "bs_tx ?b = []" "length (bs_buf ?b) < BATCH_SIZE"
    using assms(2) drop_visitor(2) by (simp_all add: mem_ok_def)
  then have "sizes_ok (ws_visitor s w)"
    using batch_drop_sizes [of ?b "pl_alive r"] batch_drop_tx [of "pl_alive r" ?b]
    by (auto simp: drop_visitor(5) sizes_ok_def batching.close_held BATCH_SIZE_def)
  then have "mem_ok (run_workers ctx) (slots (ctx_args ctx)) (after_worker w s r)"
    by (rule after_worker_mem [OF assms(2)]) (use drop_visitor(5,6) chan_room_slots in auto)
  then show ?thesis using drop_visitor(1) by (simp add: mem_ok_def)
next
  case (receive b bs)
  then show ?thesis using assms(2) batch_ok_length [of b] by (simp add: mem_ok_def)
next
  case (print_next e es)
  then show ?thesis
    using assms(2) by (auto simp: after_print_def mem_ok_def split: prod.split bool.split)
qed (use assms(2) in \<open>simp_all add: mem_ok_def\<close>)

lemma mem_ok_reach:
  "pipeline_reach ctx pf f os r0 r \<Longrightarrow> mem_ok (run_workers ctx) (slots (ctx_args ctx)) r0 \<Longrightarrow>
   mem_ok (run_workers ctx) (slots (ctx_args ctx)) r"
  by (induction rule: pipeline_reach.induct) (blast intro: mem_ok_step)+

lemma mem_ok_init: "mem_ok n cap (pipeline_init ctx pf roots)"
  by (simp add: mem_ok_def pipeline_init_def walk_init_def make_run_state_def batch_new_def printer_start_def
      BATCH_SIZE_def)

lemma concat_length_le: "list_all (\<lambda>b. length b \<le> m) bs \<Longrightarrow> length (concat bs) \<le> m * length bs"
  by (induction bs) auto

text \<open>
  C12. The memory of a run: at every moment the channel holds at most \<open>4 * (threads - 1)\<close> batches (one,
  with a single thread), and
  the entries kept but not yet printed are at most 255 per worker, 256 per batch of the channel and
  256 in the hands of the output thread, however many entries there are and however slow the sink.
\<close>

theorem memory_is_bounded:
  assumes "pipeline_reach ctx pf f os (pipeline_init ctx pf roots) r"
  shows "length (pl_queue r) \<le> max 1 (chan_capacity (ctx_args ctx))
    \<and> (\<Sum>w<n_workers (ctx_args ctx). length (bs_buf (rs_batch (ws_visitor (pl_walk r) w))))
        + length (concat (pl_queue r)) + length (pr_batch (pl_printer r))
      \<le> 255 * n_workers (ctx_args ctx) + 256 * max 1 (chan_capacity (ctx_args ctx)) + 256"
proof -
  let ?n = "n_workers (ctx_args ctx)" and ?cap = "slots (ctx_args ctx)"
  have mem: "mem_ok ?n ?cap r" by (rule mem_ok_reach [OF assms mem_ok_init])
  have "(\<Sum>w<?n. length (bs_buf (rs_batch (ws_visitor (pl_walk r) w)))) \<le> (\<Sum>w<?n. 255)"
    by (rule sum_mono) (use mem in \<open>auto simp: mem_ok_def BATCH_SIZE_def less_Suc_eq_le\<close>)
  moreover have "length (concat (pl_queue r)) \<le> 256 * length (pl_queue r)"
    by (rule concat_length_le, rule list.pred_mono_strong [of batch_ok])
       (use mem in \<open>auto simp: mem_ok_def batch_ok_def BATCH_SIZE_def\<close>)
  moreover have "length (pl_queue r) \<le> ?cap" "length (pr_batch (pl_printer r)) \<le> 256"
    using mem by (simp_all add: mem_ok_def BATCH_SIZE_def)
  ultimately show ?thesis by simp
qed

section \<open>The same walk with other visitor states\<close>

text \<open>
  Two states of a walk that differ in the visitors only, related by \<open>R\<close>: when a visitor answers
  related states alike, the two walks can do the same steps.
\<close>

definition same_walk :: "('v \<Rightarrow> 'v \<Rightarrow> bool) \<Rightarrow> ('fd, 'v) walk_state \<Rightarrow> ('fd, 'v) walk_state \<Rightarrow> bool" where
  "same_walk R s u \<longleftrightarrow> u = s\<lparr>ws_visitor := ws_visitor u\<rparr> \<and> (\<forall>i. R (ws_visitor s i) (ws_visitor u i))"

definition alike :: "('v \<Rightarrow> 'v \<Rightarrow> bool) \<Rightarrow> ('fd, 'v) visitor \<Rightarrow> bool" where
  "alike R visitor \<longleftrightarrow>
     (\<forall>v u e st q v'. R v u \<longrightarrow> visitor v e st = (q, v') \<longrightarrow> (\<exists>u'. visitor u e st = (q, u') \<and> R v' u'))"

lemma same_walk_fields:
  assumes "same_walk R s u"
  shows "ws_injector u = ws_injector s" "ws_local u = ws_local s" "ws_phase u = ws_phase s"
    "ws_pending u = ws_pending s" "ws_quit u = ws_quit s" "ws_log u = ws_log s"
    "R (ws_visitor s i) (ws_visitor u i)"
proof -
  have u: "u = s\<lparr>ws_visitor := ws_visitor u\<rparr>" using assms by (simp add: same_walk_def)
  show "ws_injector u = ws_injector s" "ws_local u = ws_local s" "ws_phase u = ws_phase s"
    "ws_pending u = ws_pending s" "ws_quit u = ws_quit s" "ws_log u = ws_log s"
    by (subst u, simp)+
  show "R (ws_visitor s i) (ws_visitor u i)" using assms by (simp add: same_walk_def)
qed

lemma same_walkI:
  assumes "ws_injector u = ws_injector s" "ws_local u = ws_local s" "ws_phase u = ws_phase s"
    "ws_pending u = ws_pending s" "ws_quit u = ws_quit s" "ws_log u = ws_log s"
    "\<And>i. R (ws_visitor s i) (ws_visitor u i)"
  shows "same_walk R s u"
  using assms by (simp add: same_walk_def)

lemma call_visitor_same:
  assumes "alike R visitor" "R v u" "call_visitor visitor v ev = (q, v')"
  obtains u' where "call_visitor visitor u ev = (q, u')" "R v' u'"
  using assms unfolding alike_def call_visitor_def by blast

lemma begin_task_same:
  assumes "alike R visitor" "same_walk R s u"
  shows "same_walk R (begin_task ctx visitor w t s) (begin_task ctx visitor w t u)"
proof -
  note f = same_walk_fields [OF assms(2)]
  obtain q v' where v: "call_visitor visitor (ws_visitor s w) (root_visit ctx t) = (q, v')"
    by (cases "call_visitor visitor (ws_visitor s w) (root_visit ctx t)")
  obtain u' where u: "call_visitor visitor (ws_visitor u w) (root_visit ctx t) = (q, u')" "R v' u'"
    by (rule call_visitor_same [OF assms(1) f(7) v])
  show ?thesis
    by (cases q; cases "t_parent t"; rule same_walkI)
       (use f u v in \<open>simp_all add: begin_task_def begin_root_def visit_effect_def\<close>)
qed

lemma read_one_same:
  assumes "alike R visitor" "same_walk R s u"
  shows "same_walk R (read_one ctx visitor w d x xs s) (read_one ctx visitor w d x xs u)"
proof -
  note f = same_walk_fields [OF assms(2)]
  obtain q v' where v: "call_visitor visitor (ws_visitor s w) (child_visit ctx d x) = (q, v')"
    by (cases "call_visitor visitor (ws_visitor s w) (child_visit ctx d x)")
  obtain u' where u: "call_visitor visitor (ws_visitor u w) (child_visit ctx d x) = (q, u')" "R v' u'"
    by (rule call_visitor_same [OF assms(1) f(7) v])
  have re: "read_entry ctx visitor d x a = (if excluded ctx (fst (snd x)) then (Skipped, a)
      else case call_visitor visitor a (child_visit ctx d x) of
        (WalkQuit, b) \<Rightarrow> (Stopped, b) | (WalkContinue, b) \<Rightarrow> (Visited (child_task ctx d x), b))" for a
    by (cases x) (auto simp: read_entry_def split: prod.split WalkState.split)
  show ?thesis
    by (cases q; cases "child_task ctx d x"; cases "excluded ctx (fst (snd x))"; rule same_walkI)
       (use f u v in \<open>simp_all add: read_one_def re visit_effect_def\<close>)
qed

lemma same_walk_step:
  assumes st: "walk_step ctx pf visitor n w s s'" and r: "alike R visitor" and same: "same_walk R s u"
  shows "\<exists>u'. walk_step ctx pf visitor n w u u' \<and> same_walk R s' u'"
  using st
proof cases
  case (begin_process t)
  have "walk_step ctx pf visitor n w u (begin_task ctx visitor w t u)"
    using begin_process same_walk_fields [OF same] by (intro walk_step.begin_process) simp_all
  then show ?thesis using begin_process(1) begin_task_same [OF r same] by blast
next
  case (read_next d x xs)
  have "walk_step ctx pf visitor n w u (read_one ctx visitor w d x xs u)"
    using read_next same_walk_fields [OF same] by (intro walk_step.read_next) simp_all
  then show ?thesis using read_next(1) read_one_same [OF r same] by blast
next
  case (steal_injector t batch rest kept)
  let ?u = "set_phase w (Begin t) (u\<lparr>ws_injector := rest, ws_local := (ws_local u)(w := kept)\<rparr>)"
  have "walk_step ctx pf visitor n w u ?u"
    by (rule walk_step.steal_injector [where batch = batch])
       (use steal_injector same_walk_fields [OF same] in simp_all)
  moreover have "same_walk R s' ?u"
    by (rule same_walkI) (use steal_injector same_walk_fields [OF same] in simp_all)
  ultimately show ?thesis by blast
next
  case (steal_worker w' ts t)
  let ?u = "set_phase w (Begin t) (u\<lparr>ws_local := (ws_local u)(w' := ts)\<rparr>)"
  have "walk_step ctx pf visitor n w u ?u"
    by (rule walk_step.steal_worker) (use steal_worker same_walk_fields [OF same] in simp_all)
  moreover have "same_walk R s' ?u"
    by (rule same_walkI) (use steal_worker same_walk_fields [OF same] in simp_all)
  ultimately show ?thesis by blast
next
  case quit_seen
  then show ?thesis
    by (intro exI [of _ "set_phase w Exited u"] conjI walk_step.quit_seen same_walkI) (use same_walk_fields [OF same] in simp_all)
next
  case look
  then show ?thesis
    by (intro exI [of _ "set_phase w Finding u"] conjI walk_step.look same_walkI) (use same_walk_fields [OF same] in simp_all)
next
  case (pop_local t ts)
  then show ?thesis
    by (intro exI [of _ "set_phase w (Begin t) (u\<lparr>ws_local := (ws_local u)(w := ts)\<rparr>)"] conjI walk_step.pop_local same_walkI) (use same_walk_fields [OF same] in simp_all)
next
  case miss
  then show ?thesis
    by (intro exI [of _ "set_phase w NoTask u"] conjI walk_step.miss same_walkI) (use same_walk_fields [OF same] in simp_all)
next
  case all_done
  then show ?thesis
    by (intro exI [of _ "set_phase w Exited u"] conjI walk_step.all_done same_walkI) (use same_walk_fields [OF same] in simp_all)
next
  case snooze
  then show ?thesis
    by (intro exI [of _ "set_phase w LoopTop u"] conjI walk_step.snooze same_walkI) (use same_walk_fields [OF same] in simp_all)
next
  case (open_dir t a)
  then show ?thesis
    by (intro exI [of _ "set_phase w (descend_phase ctx pf t a) u"] conjI walk_step.open_dir same_walkI) (use same_walk_fields [OF same] in simp_all)
next
  case (read_done d)
  then show ?thesis
    by (intro exI [of _ "set_phase w Finished u"] conjI walk_step.read_done same_walkI) (use same_walk_fields [OF same] in simp_all)
next
  case (push_task t d xs)
  then show ?thesis
    by (intro exI [of _ "set_phase w (Reading d xs) (u\<lparr>ws_local := (ws_local u)(w := t # ws_local u w)\<rparr>)"] conjI walk_step.push_task same_walkI) (use same_walk_fields [OF same] in simp_all)
next
  case task_done
  then show ?thesis
    by (intro exI [of _ "set_phase w LoopTop (u\<lparr>ws_pending := ws_pending u - 1\<rparr>)"] conjI walk_step.task_done same_walkI) (use same_walk_fields [OF same] in simp_all)
qed

section \<open>No deadlock\<close>

text \<open>What a visitor does never depends on what it has sent already.\<close>

definition same_state :: "RunState \<Rightarrow> RunState \<Rightarrow> bool" where
  "same_state v u \<longleftrightarrow> (\<exists>tx. u = v\<lparr>rs_batch := (rs_batch v)\<lparr>bs_tx := tx\<rparr>\<rparr>)"

lemma batch_push_tx_irrelevant:
  "\<exists>tx'. batch_push alive e (b\<lparr>bs_tx := tx\<rparr>) = (fst (batch_push alive e b), (snd (batch_push alive e b))\<lparr>bs_tx := tx'\<rparr>)"
proof -
  have "b\<lparr>bs_tx := bs_tx b\<rparr> = b" by simp
  then show ?thesis
    by (cases b) (auto simp: batch_push_def batch_flush_simps Let_def)
qed

lemma run_visitor_alike: "alike same_state (run_visitor f os pf seen alive)"
  unfolding alike_def
proof (intro allI impI)
  fix v u :: RunState and e and st :: "'a StatAt" and q v'
  assume "same_state v u" and v: "run_visitor f os pf seen alive v e st = (q, v')"
  then obtain tx where u: "u = v\<lparr>rs_batch := (rs_batch v)\<lparr>bs_tx := tx\<rparr>\<rparr>" by (auto simp: same_state_def)
  obtain tx' where b: "batch_push alive e ((rs_batch v)\<lparr>bs_tx := tx\<rparr>) =
      (fst (batch_push alive e (rs_batch v)), (snd (batch_push alive e (rs_batch v)))\<lparr>bs_tx := tx'\<rparr>)"
    using batch_push_tx_irrelevant by blast
  obtain ok b1 where p: "batch_push alive e (rs_batch v) = (ok, b1)" by (cases "batch_push alive e (rs_batch v)")
  have "\<exists>tx''. run_visitor f os pf seen alive u e st = (q, v'\<lparr>rs_batch := (rs_batch v')\<lparr>bs_tx := tx''\<rparr>\<rparr>)"
  proof (cases seen)
    case True
    then show ?thesis using v by (auto simp: run_visitor_def u)
  next
    case False
    show ?thesis
    proof (cases "entry_filter f os pf e st (rs_nss v)")
      case None
      then show ?thesis using v False by (intro exI [of _ tx]) (auto simp: run_visitor_def u)
    next
      case (Some r)
      then obtain keep nss where r: "entry_filter f os pf e st (rs_nss v) = Some (keep, nss)" by (cases r) auto
      show ?thesis
        using v False r b p
        by (cases keep) (auto simp: run_visitor_def u intro: exI [of _ tx] exI [of _ tx'])
    qed
  qed
  then show "\<exists>u'. run_visitor f os pf seen alive u e st = (q, u') \<and> same_state v' u'"
    by (auto simp: same_state_def)
qed

lemma same_state_refl: "same_state v v"
  unfolding same_state_def by (intro exI [of _ "bs_tx (rs_batch v)"]) simp

lemma same_state_clear: "same_state v u \<Longrightarrow> same_state v (u\<lparr>rs_batch := (rs_batch u)\<lparr>bs_tx := tx\<rparr>\<rparr>)"
  unfolding same_state_def by (elim exE, intro exI [of _ tx]) simp

lemma same_walk_refl: "same_walk same_state s s"
  by (rule same_walkI) (simp_all add: same_state_refl)

lemma same_walk_collect:
  assumes "same_walk same_state s u"
  shows "same_walk same_state s (collect_tx w u)"
proof (rule same_walkI)
  fix i
  show "same_state (ws_visitor s i) (ws_visitor (collect_tx w u) i)"
    using same_walk_fields(7) [OF assms, of i] same_state_clear by (cases "i = w") auto
qed (use same_walk_fields [OF assms] in \<open>simp_all add: collect_tx_def\<close>)

lemma pipeline_reach_trans:
  "pipeline_reach ctx pf f os r' r'' \<Longrightarrow> pipeline_reach ctx pf f os r r' \<Longrightarrow> pipeline_reach ctx pf f os r r''"
  by (induction rule: pipeline_reach.induct) (blast intro: pl_step)+

lemma pipeline_reach_one: "pipeline_step ctx pf f os r r' \<Longrightarrow> pipeline_reach ctx pf f os r r'"
  by (blast intro: pl_start pl_step)

lemma run_visitor_cases:
  assumes "run_visitor f os pf seen alive v e st = (q, v')"
  obtains "rs_batch v' = rs_batch v" | ok where "batch_push alive e (rs_batch v) = (ok, rs_batch v')"
proof (cases "\<exists>nss. \<not> seen \<and> entry_filter f os pf e st (rs_nss v) = Some (True, nss)")
  case True
  then show ?thesis using assms that(2)
    by (cases "batch_push alive e (rs_batch v)") (auto simp: run_visitor_def)
next
  case False
  then have "rs_batch v' = rs_batch v"
    using assms by (cases seen; cases "entry_filter f os pf e st (rs_nss v)")
      (auto simp: run_visitor_def split: bool.splits)
  then show ?thesis by (rule that(1))
qed

lemma dead_channel_no_tx:
  assumes "walk_step ctx pf (run_visitor f os pf seen False) n w s s'"
  shows "worker_tx s' w = worker_tx s w"
  using assms
proof (cases rule: step_visits)
  case (visit ev q v')
  from visit(1) have "bs_tx (rs_batch v') = worker_tx s w"
  proof (cases rule: run_visitor_cases)
    case (2 ok)
    have "bs_tx (snd (batch_push False (fst ev) b)) = bs_tx b" for b
      by (simp add: batch_push_def batch_flush_simps Let_def)
    from this [of "rs_batch (ws_visitor s w)"] 2 show ?thesis by simp
  qed simp
  then show ?thesis using visit(2) by simp
qed simp

text \<open>The output thread can always empty the channel, unless the cap makes it break off before.\<close>

definition rest_same :: "'fd pipeline \<Rightarrow> 'fd pipeline \<Rightarrow> bool" where
  "rest_same r r' \<longleftrightarrow> pl_walk r' = pl_walk r \<and> pl_dropped r' = pl_dropped r \<and> pl_dead r' = pl_dead r
     \<and> pl_main_tx r' = pl_main_tx r \<and> pl_shutdown r' = pl_shutdown r"

lemma can_drain:
  "\<exists>r'. pipeline_reach ctx pf f os r r' \<and> rest_same r r' \<and> (pl_alive r' \<longrightarrow> pl_alive r)
    \<and> (pl_alive r' \<longrightarrow> pl_queue r' = [] \<and> pr_batch (pl_printer r') = [])"
proof (induction "sum_list (map (\<lambda>b. Suc (length b)) (pl_queue r)) + length (pr_batch (pl_printer r))"
    arbitrary: r rule: less_induct)
  case less
  let ?m = "\<lambda>r. sum_list (map (\<lambda>b. Suc (length b)) (pl_queue r)) + length (pr_batch (pl_printer r))"
  have go: ?case if st: "pipeline_step ctx pf f os r r1" and same: "rest_same r r1" and al: "pl_alive r" and m: "?m r1 < ?m r" for r1
  proof -
    obtain r' where r': "pipeline_reach ctx pf f os r1 r'" "rest_same r1 r'"
      "pl_alive r' \<longrightarrow> pl_queue r' = [] \<and> pr_batch (pl_printer r') = []"
      using less [OF m] by blast
    have "rest_same r r'" using r'(2) same by (simp add: rest_same_def)
    then show ?thesis using pipeline_reach_trans [OF r'(1) pipeline_reach_one [OF st]] r'(3) al by blast
  qed
  show ?case
  proof (cases "pl_alive r")
    case False
    then show ?thesis by (intro exI [of _ r]) (simp add: pl_start rest_same_def)
  next
    case alive: True
    show ?thesis
    proof (cases "pr_batch (pl_printer r)")
      case Nil
      show ?thesis
      proof (cases "pl_queue r")
        case (Cons b bs)
        show ?thesis
          by (rule go [OF receive [OF alive Nil Cons]]) (use alive Nil Cons in \<open>simp_all add: rest_same_def\<close>)
      next
        case empty: Nil
        show ?thesis using Nil empty by (intro exI [of _ r]) (simp add: pl_start rest_same_def)
      qed
    next
      case (Cons e es)
      obtain stop pr where p: "print_entry (print_separator (ctx_args ctx)) (max_results_cap (ctx_args ctx)) e (pl_printer r)
          = (stop, pr)" by (cases "print_entry (print_separator (ctx_args ctx)) (max_results_cap (ctx_args ctx)) e (pl_printer r)")
      show ?thesis
      proof (rule go)
        show "pipeline_step ctx pf f os r (after_print (stop, pr) es r)"
          unfolding p [symmetric] by (rule print_next [OF alive Cons])
        show "rest_same r (after_print (stop, pr) es r)"
          by (cases stop) (simp_all add: after_print_def rest_same_def)
        show "?m (after_print (stop, pr) es r) < ?m r"
          using Cons by (cases stop) (simp_all add: after_print_def)
      qed (rule alive)
    qed
  qed
qed

text \<open>
  So any walk of the engine can be carried out by the pipeline, until the channel is closed.
\<close>

definition can_send :: "WalkCtx \<Rightarrow> 'fd pipeline \<Rightarrow> bool" where
  "can_send ctx r \<longleftrightarrow> (pl_alive r \<longrightarrow> chan_room (ctx_args ctx) r)"

lemma step_not_exited: "walk_step ctx pf visitor n w s s' \<Longrightarrow> ws_phase s w \<noteq> Exited"
  by (cases rule: walk_step.cases) auto

lemma worker_can_step:
  assumes inv: "pipeline_inv ctx pf f os k whole r" and ok: "filters_ok f os" and room: "can_send ctx r"
    and st: "walk_step ctx pf (run_visitor f os pf False (pl_alive r)) (run_workers ctx) w (pl_walk r) s"
  shows "pipeline_step ctx pf f os r (after_worker w s r)"
proof (rule pipeline_step.worker [OF _ _ _ st])
  have wk: "workers_ok os (run_workers ctx) r" using inv by (simp add: pipeline_inv_parts)
  then show "\<not> pl_dead r w" by (simp add: workers_ok_def)
  show "\<not> pl_dropped r w"
    using wk step_worker [OF st] step_not_exited [OF st] by (auto simp: workers_ok_def)
  show "\<not> rs_panicked (ws_visitor s w)" by (rule no_panic [OF inv [unfolded pipeline_inv_def, THEN conjunct2] ok st])
  have "worker_tx (pl_walk r) w = []" using wk step_worker [OF st] by (simp add: workers_ok_def worker_ok_def)
  then show "worker_tx s w = [] \<or> chan_room (ctx_args ctx) r"
    using room dead_channel_no_tx [of ctx pf f os False "run_workers ctx" w "pl_walk r" s] st
    by (cases "pl_alive r") (simp_all add: can_send_def)
qed simp

lemma drained_can_send:
  "(pl_alive r \<longrightarrow> pl_queue r = [] \<and> pr_batch (pl_printer r) = []) \<Longrightarrow> can_send ctx r"
  by (auto simp: can_send_def drained_room)

lemma follow_walk:
  assumes "walk_reach ctx pf (run_visitor f os pf False (pl_alive r)) (run_workers ctx) (pl_walk r) s"
    and inv: "pipeline_inv ctx pf f os k whole r" and ok: "filters_ok f os"
  shows "\<exists>r'. pipeline_reach ctx pf f os r r' \<and> pl_shutdown r' = pl_shutdown r \<and>
    (pl_alive r' = pl_alive r \<and> same_walk same_state s (pl_walk r') \<or> pl_alive r \<and> \<not> pl_alive r')"
  using assms(1)
proof (induction rule: walk_reach.induct)
  case reach_start
  show ?case by (intro exI [of _ r]) (simp add: pl_start same_walk_refl)
next
  case (reach_step s' w s'')
  obtain r1 where r1: "pipeline_reach ctx pf f os r r1" "pl_shutdown r1 = pl_shutdown r"
    "pl_alive r1 = pl_alive r \<and> same_walk same_state s' (pl_walk r1) \<or> pl_alive r \<and> \<not> pl_alive r1"
    using reach_step.IH by blast
  obtain r2 where r2: "pipeline_reach ctx pf f os r1 r2" "rest_same r1 r2" "pl_alive r2 \<longrightarrow> pl_alive r1"
    "pl_alive r2 \<longrightarrow> pl_queue r2 = [] \<and> pr_batch (pl_printer r2) = []"
    using can_drain [of ctx pf f os r1] by blast
  have reach2: "pipeline_reach ctx pf f os r r2" by (rule pipeline_reach_trans [OF r2(1) r1(1)])
  have sd: "pl_shutdown r2 = pl_shutdown r" using r1(2) r2(2) by (simp add: rest_same_def)
  show ?case
  proof (cases "pl_alive r \<and> \<not> pl_alive r2")
    case True
    then show ?thesis using reach2 sd by blast
  next
    case False
    then have al: "pl_alive r2 = pl_alive r" and same: "same_walk same_state s' (pl_walk r2)"
      using r1(3) r2(2,3) by (auto simp: rest_same_def)
    obtain u where u: "walk_step ctx pf (run_visitor f os pf False (pl_alive r2)) (run_workers ctx) w (pl_walk r2) u"
      "same_walk same_state s'' u"
      using same_walk_step [OF reach_step.hyps(2) run_visitor_alike same] al by auto
    have "pipeline_step ctx pf f os r2 (after_worker w u r2)"
      by (rule worker_can_step [OF pipeline_inv_reach [OF reach2 inv ok] ok drained_can_send [OF r2(4)] u(1)])
    then have "pipeline_reach ctx pf f os r (after_worker w u r2)" by (rule pl_step [OF reach2])
    then show ?thesis using al sd same_walk_collect [OF u(2)] by (intro exI [of _ "after_worker w u r2"]) simp
  qed
qed

lemma can_return_walk:
  assumes inv: "pipeline_inv ctx pf f os k whole r" and ok: "filters_ok f os"
  shows "\<exists>r'. pipeline_reach ctx pf f os r r' \<and> pl_shutdown r' = pl_shutdown r
    \<and> walk_returned (run_workers ctx) (pl_walk r')"
proof -
  have one: "\<exists>r'. pipeline_reach ctx pf f os r r' \<and> pl_shutdown r' = pl_shutdown r \<and>
      (walk_returned (run_workers ctx) (pl_walk r') \<or> pl_alive r \<and> \<not> pl_alive r')"
    if inv: "pipeline_inv ctx pf f os k whole r" for r
  proof -
    obtain s where s: "walk_reach ctx pf (run_visitor f os pf False (pl_alive r)) (run_workers ctx) (pl_walk r) s"
      "walk_returned (run_workers ctx) s"
      using can_finish [OF n_workers_pos] inv unfolding pipeline_inv_parts walk_ok_def by blast
    have "walk_returned (run_workers ctx) u" if "same_walk same_state s u" for u
      using s(2) same_walk_fields(3) [OF that] by (simp add: walk_returned_def)
    then show ?thesis using follow_walk [OF s(1) inv ok] by blast
  qed
  obtain r1 where r1: "pipeline_reach ctx pf f os r r1" "pl_shutdown r1 = pl_shutdown r"
    "walk_returned (run_workers ctx) (pl_walk r1) \<or> pl_alive r \<and> \<not> pl_alive r1"
    using one [OF inv] by blast
  obtain r2 where r2: "pipeline_reach ctx pf f os r1 r2" "pl_shutdown r2 = pl_shutdown r1"
    "walk_returned (run_workers ctx) (pl_walk r2) \<or> pl_alive r1 \<and> \<not> pl_alive r2"
    using one [OF pipeline_inv_reach [OF r1(1) inv ok]] by blast
  show ?thesis using r1 r2 pipeline_reach_trans [OF r2(1) r1(1)] by metis
qed

text \<open>After the walk the visitors are dropped one by one, and the output thread runs out of input.\<close>

lemma can_drop_one:
  assumes inv: "pipeline_inv ctx pf f os k whole r"
    and w: "w < run_workers ctx" "\<not> pl_dropped r w" and ret: "walk_returned (run_workers ctx) (pl_walk r)"
  shows "\<exists>r'. pipeline_reach ctx pf f os r r' \<and> pl_shutdown r' = pl_shutdown r
    \<and> walk_returned (run_workers ctx) (pl_walk r') \<and> pl_dropped r' = (pl_dropped r)(w := True)"
proof -
  obtain r1 where r1: "pipeline_reach ctx pf f os r r1" "rest_same r r1" "pl_alive r1 \<longrightarrow> pl_queue r1 = [] \<and> pr_batch (pl_printer r1) = []"
    using can_drain [of ctx pf f os r] by blast
  let ?s = "drop_batch w (pl_alive r1) (pl_walk r1)"
  have "worker_tx (pl_walk r1) w = []"
    using inv w(1) r1(2) by (simp add: pipeline_inv_parts workers_ok_def worker_ok_def rest_same_def)
  then have "worker_tx ?s w = [] \<or> chan_room (ctx_args ctx) r1"
    using r1(3) by (cases "pl_alive r1") (simp_all add: batch_drop_def batch_flush_simps drained_room)
  moreover have "ws_phase (pl_walk r1) w = Exited" "\<not> pl_dropped r1 w"
    using ret w r1(2) by (simp_all add: walk_returned_def rest_same_def)
  ultimately have "pipeline_step ctx pf f os r1 ((after_worker w ?s r1)\<lparr>pl_dropped := (pl_dropped r1)(w := True)\<rparr>)"
    using w(1) by (intro drop_visitor) simp_all
  then have "pipeline_reach ctx pf f os r ((after_worker w ?s r1)\<lparr>pl_dropped := (pl_dropped r1)(w := True)\<rparr>)"
    by (rule pl_step [OF r1(1)])
  then show ?thesis using ret r1(2)
    by (intro exI [of _ "(after_worker w ?s r1)\<lparr>pl_dropped := (pl_dropped r1)(w := True)\<rparr>"])
       (simp add: walk_returned_def rest_same_def)
qed

lemma can_drop_all:
  assumes inv: "pipeline_inv ctx pf f os k whole r" and ok: "filters_ok f os"
    and ret: "walk_returned (run_workers ctx) (pl_walk r)"
  shows "m \<le> run_workers ctx \<Longrightarrow> \<exists>r'. pipeline_reach ctx pf f os r r'
    \<and> pl_shutdown r' = pl_shutdown r
    \<and> walk_returned (run_workers ctx) (pl_walk r') \<and> (\<forall>w < m. pl_dropped r' w)"
proof (induction m)
  case 0
  show ?case using ret by (intro exI [of _ r]) (simp add: pl_start)
next
  case (Suc m)
  then obtain r1 where r1: "pipeline_reach ctx pf f os r r1" "walk_returned (run_workers ctx) (pl_walk r1)"
    "\<forall>w < m. pl_dropped r1 w" "pl_shutdown r1 = pl_shutdown r" by auto
  show ?case
  proof (cases "pl_dropped r1 m")
    case True
    then show ?thesis using r1 less_Suc_eq by blast
  next
    case False
    obtain r2 where r2: "pipeline_reach ctx pf f os r1 r2" "walk_returned (run_workers ctx) (pl_walk r2)"
      "pl_dropped r2 = (pl_dropped r1)(m := True)" "pl_shutdown r2 = pl_shutdown r1"
      using can_drop_one [OF pipeline_inv_reach [OF r1(1) inv ok] _ False r1(2)] Suc.prems by auto
    then show ?thesis
      using pipeline_reach_trans [OF r2(1) r1(1)] r1(3,4) by (intro exI [of _ r2]) (simp add: less_Suc_eq)
  qed
qed

lemma can_end:
  assumes inv: "pipeline_inv ctx pf f os k whole r" and ok: "filters_ok f os"
    and ret: "walk_returned (run_workers ctx) (pl_walk r)" and dropped: "\<forall>w < run_workers ctx. pl_dropped r w"
  shows "\<exists>r'. pipeline_reach ctx pf f os r r' \<and> pl_shutdown r' = pl_shutdown r \<and> pipeline_done r'"
proof -
  let ?r1 = "r\<lparr>pl_main_tx := False\<rparr>"
  have "pipeline_reach ctx pf f os r ?r1"
  proof (cases "pl_main_tx r")
    case True
    have "pipeline_step ctx pf f os r ?r1"
      by (rule main_drops_tx [OF True ret]) (use dropped inv in \<open>simp add: pipeline_inv_parts workers_ok_def\<close>)
    then show ?thesis by (rule pipeline_reach_one)
  next
    case False
    then have "?r1 = r" by simp
    then show ?thesis by (simp only: pl_start)
  qed
  moreover obtain r2 where r2: "pipeline_reach ctx pf f os ?r1 r2" "rest_same ?r1 r2"
    "pl_alive r2 \<longrightarrow> pl_queue r2 = [] \<and> pr_batch (pl_printer r2) = []"
    using can_drain [of ctx pf f os ?r1] by blast
  ultimately have reach: "pipeline_reach ctx pf f os r r2" by (blast intro: pipeline_reach_trans)
  show ?thesis
  proof (cases "pl_alive r2")
    case True
    have "pipeline_step ctx pf f os r2 (r2\<lparr>pl_alive := False\<rparr>)"
      by (rule channel_ends [OF True]) (use True r2(2,3) dropped in \<open>simp_all add: rest_same_def\<close>)
    from pl_step [OF reach this] r2(2) show ?thesis
      by (intro exI [of _ "r2\<lparr>pl_alive := False\<rparr>"]) (simp add: pipeline_done_def rest_same_def)
  next
    case False
    then show ?thesis using reach r2(2) by (auto simp: pipeline_done_def rest_same_def)
  qed
qed

lemma pipeline_can_finish:
  assumes inv: "pipeline_inv ctx pf f os k whole r" and ok: "filters_ok f os"
  shows "\<exists>r'. pipeline_reach ctx pf f os r r' \<and> pl_shutdown r' = pl_shutdown r \<and> pipeline_done r'"
proof -
  obtain r1 where r1: "pipeline_reach ctx pf f os r r1" "walk_returned (run_workers ctx) (pl_walk r1)"
    "pl_shutdown r1 = pl_shutdown r"
    using can_return_walk [OF assms] by blast
  obtain r2 where r2: "pipeline_reach ctx pf f os r1 r2" "walk_returned (run_workers ctx) (pl_walk r2)"
    "\<forall>w < run_workers ctx. pl_dropped r2 w" "pl_shutdown r2 = pl_shutdown r1"
    using can_drop_all [OF pipeline_inv_reach [OF r1(1) inv ok] ok r1(2), of "run_workers ctx"] by blast
  have reach: "pipeline_reach ctx pf f os r r2" by (rule pipeline_reach_trans [OF r2(1) r1(1)])
  from can_end [OF pipeline_inv_reach [OF reach inv ok] ok r2(2,3)] show ?thesis
    using pipeline_reach_trans [OF _ reach] r1(3) r2(4) by metis
qed

text \<open>
  C5. No deadlock: from every state a run can get into, with walkers
  blocked on a full channel, the channel closed under them by the result cap, or the walk told to
  stop, the run can still return.
\<close>

theorem run_can_always_return:
  assumes "pipeline_reach ctx pf f os (pipeline_init ctx pf roots) r"
    and "roots_fit ctx pf k roots" "filters_ok f os"
  shows "\<exists>r'. pipeline_reach ctx pf f os r r' \<and> pipeline_done r'"
  using pipeline_can_finish [OF run_invariant [OF assms(1-3)] assms(3)] by blast

end
