(* ===== verification/Quitting.thy ===== *)
theory Quitting
  imports Pipeline_Progress
begin

text \<open>
  How a run stops early. A visitor that quits ends the walk after at most one more entry for every task
  that is outstanding; but while fewer matches exist than a batch holds, the result limit cannot
  make it quit, and the whole tree is walked.
\<close>

section \<open>After the shutdown flag is seen\<close>

text \<open>What a worker may still visit: one entry for the task it has, and one for each queued task.\<close>

fun visits_due :: "'fd phase \<Rightarrow> nat" where
  "visits_due (Begin _) = 1"
| "visits_due (Descending _) = 1"
| "visits_due (Reading _ _) = 1"
| "visits_due (Queueing _ _ _) = 2"
| "visits_due _ = 0"

interpretation quitting: task_weight "\<lambda>_. 1 :: nat" visits_due
  by unfold_locales simp_all

abbreviation due :: "nat \<Rightarrow> ('fd, 'v) walk_state \<Rightarrow> nat" where
  "due n s \<equiv> outstanding (\<lambda>_. 1) visits_due n s"

definition always_quits :: "('fd, 'v) visitor \<Rightarrow> bool" where
  "always_quits visitor \<longleftrightarrow> (\<forall>v e st. fst (visitor v e st) = WalkQuit)"

lemma always_quitsD: "always_quits visitor \<Longrightarrow> visitor v e st = (q, v') \<Longrightarrow> q = WalkQuit"
  unfolding always_quits_def by (metis fst_conv)

lemma seen_visitor_quits: "always_quits (run_visitor f os pf True alive)"
  by (simp add: always_quits_def run_visitor_def)

lemma begin_task_quits:
  assumes "always_quits visitor"
  shows "length (ws_log (begin_task ctx visitor w t s)) + visits_due (ws_phase (begin_task ctx visitor w t s) w)
    \<le> length (ws_log s) + 1"
  using assms
  by (auto simp: begin_task_def begin_root_def call_visitor_def visit_effect_def
      dest: always_quitsD split: WalkState.split prod.split)

lemma read_one_quits:
  assumes "always_quits visitor"
  shows "length (ws_log (read_one ctx visitor w d x xs s)) + visits_due (ws_phase (read_one ctx visitor w d x xs s) w)
      \<le> length (ws_log s) + 1
    \<and> ws_pending (read_one ctx visitor w d x xs s) = ws_pending s"
  using assms
  by (cases x)
     (auto simp: read_one_def read_entry_def call_visitor_def visit_effect_def
      dest: always_quitsD split: WalkState.split prod.split)

lemma quitting_working:
  assumes "walk_step ctx pf visitor n w s s'" "working (ws_phase s w)" "always_quits visitor"
  shows "length (ws_log s') + visits_due (ws_phase s' w) \<le> length (ws_log s) + visits_due (ws_phase s w)
    \<and> ws_pending s' \<le> ws_pending s"
  using assms(1,2)
proof cases
  case (begin_process t)
  then show ?thesis
    using begin_task_quits [OF assms(3), of ctx w t s] begin_task_frame(4) [OF begin_process(1)] by simp
next
  case (read_next d x xs)
  then show ?thesis using read_one_quits [OF assms(3), of ctx w d x xs s] by simp
next
  case (open_dir t acquired)
  then show ?thesis by (simp add: descend_phase_def split: option.split)
qed simp_all

lemma quitting_step:
  assumes "walk_step ctx pf visitor n w s s'" "always_quits visitor"
  shows "length (ws_log s') + due n s' \<le> length (ws_log s) + due n s \<and> ws_pending s' \<le> ws_pending s"
proof (cases "working (ws_phase s w)")
  case True
  then show ?thesis
    using quitting_working [OF assms(1) True assms(2)] quitting.working_changes_phase [OF assms(1) True] by simp
next
  case False
  have "ws_log s' = ws_log s" using assms(1) False by cases simp_all
  then show ?thesis
    using pending_scheduling [OF assms(1) False] quitting.scheduling_conserves [OF assms(1) False] by simp
qed

lemma quitting_reach:
  "walk_reach ctx pf visitor n s s' \<Longrightarrow> always_quits visitor \<Longrightarrow>
   length (ws_log s') + due n s' \<le> length (ws_log s) + due n s \<and> ws_pending s' \<le> ws_pending s"
  by (induction rule: walk_reach.induct) (use quitting_step in \<open>force+\<close>)

lemma due_le_tasks: "due n s \<le> task_count n s"
proof -
  have "visits_due ph \<le> held ph" for ph :: "'x phase" by (cases ph) simp_all
  then show ?thesis unfolding outstanding_def by (intro add_mono sum_mono order_refl)
qed

text \<open>
  C15. From any moment of a run on, if the workers see the shutdown flag, they visit at most one more entry
  for each task then outstanding, whatever the size of the directories they are in, and no further
  task is queued.
\<close>

theorem shutdown_is_prompt:
  assumes "pipeline_reach ctx pf f os (pipeline_init ctx pf roots) r"
    and "roots_fit ctx pf k roots" "filters_ok f os"
    and "walk_reach ctx pf (run_visitor f os pf True alive) (n_workers (ctx_args ctx)) (pl_walk r) s"
  shows "length (ws_log s) \<le> length (ws_log (pl_walk r)) + ws_pending (pl_walk r)
    \<and> ws_pending s \<le> ws_pending (pl_walk r)"
proof -
  have "ws_pending (pl_walk r) = task_count (n_workers (ctx_args ctx)) (pl_walk r)"
    using run_invariant [OF assms(1-3)] by (simp add: pipeline_inv_parts walk_ok_def)
  then show ?thesis
    using quitting_reach [OF assms(4) seen_visitor_quits] due_le_tasks [of "n_workers (ctx_args ctx)" "pl_walk r"]
    by simp
qed

section \<open>When the result limit cannot stop the walk\<close>

lemma refused_push_is_full: "\<not> fst (batch_push alive e b) \<Longrightarrow> BATCH_SIZE \<le> length (bs_buf b) + 1"
  by (simp add: batch_push_def Let_def split: if_splits)

text \<open>Without a signal, a visit that quits has just filled its worker's batch.\<close>

lemma unseen_quit_is_full:
  assumes "filters_ok f os" "nss_ok os (rs_nss v)" "run_visitor f os pf False alive v e st = (WalkQuit, v')"
  shows "keeps f os pf e st \<and> BATCH_SIZE \<le> length (bs_buf (rs_batch v)) + 1"
proof -
  obtain nss where n: "entry_filter f os pf e st (rs_nss v) = Some (keeps f os pf e st, nss)"
    using entry_filter_decides [of f os "rs_nss v"] assms(1,2) unfolding filters_ok_def by blast
  obtain ok b where b: "batch_push alive e (rs_batch v) = (ok, b)" by (cases "batch_push alive e (rs_batch v)")
  show ?thesis
    using assms(3) n b refused_push_is_full [of alive e "rs_batch v"]
    by (cases "keeps f os pf e st"; cases ok) (auto simp: run_visitor_def)
qed

lemma buffer_le_kept:
  assumes "pipeline_inv ctx pf f os k whole r" "w < run_workers ctx"
  shows "length (bs_buf (rs_batch (ws_visitor (pl_walk r) w))) \<le> size (kept f os pf (mset (ws_log (pl_walk r))))"
proof -
  have "length (bs_buf (rs_batch (ws_visitor (pl_walk r) w))) \<le> size (buffered (run_workers ctx) (pl_walk r))"
    using assms(2) member_le_sum [of w "{..<run_workers ctx}" "\<lambda>i. length (bs_buf (rs_batch (ws_visitor (pl_walk r) i)))"]
    unfolding buffered_def by simp
  also have "\<dots> \<le> size (in_flight (run_workers ctx) r)" by (simp add: in_flight_def)
  also have "\<dots> \<le> size (kept f os pf (mset (ws_log (pl_walk r))))"
    using assms(1) by (intro size_mset_mono) (simp add: pipeline_inv_parts flow_ok_def)
  finally show ?thesis .
qed

lemma kept_log_le:
  assumes "pipeline_inv ctx pf f os k whole r"
  shows "size (kept f os pf (mset (ws_log (pl_walk r)))) \<le> size (kept f os pf whole)"
proof -
  have "mset (ws_log (pl_walk r)) \<subseteq># whole"
    using assms unfolding pipeline_inv_parts walk_ok_def tree_inv_def
    by (meson mset_subset_eq_add_left subset_mset.order_trans)
  then show ?thesis by (intro size_mset_mono kept_mono)
qed

lemma few_no_quit_step:
  assumes "pipeline_step ctx pf f os r r'" "pipeline_inv ctx pf f os k whole r" "filters_ok f os"
    and "size (kept f os pf whole) < BATCH_SIZE" "\<not> ws_quit (pl_walk r)" "\<not> pl_shutdown r'"
  shows "\<not> ws_quit (pl_walk r')"
  using assms(1)
proof cases
  case (worker w seen s)
  have unseen: "\<not> seen" using worker(1,4) assms(6) by (simp add: after_worker_def)
  have inv: "pipeline_inv ctx pf f os k whole r'" by (rule pipeline_inv_step [OF assms(1-3)])
  have w: "w < run_workers ctx" using step_worker [OF worker(5)] .
  have ok: "nss_ok os (rs_nss (ws_visitor (pl_walk r) w))"
    using assms(2) w by (simp add: pipeline_inv_parts workers_ok_def worker_ok_def)
  from worker(5) show ?thesis
  proof (cases rule: step_visits)
    case quiet
    then show ?thesis using assms(5) worker(1) by (simp add: after_worker_def)
  next
    case (visit ev q v')
    show ?thesis
    proof (cases q)
      case WalkContinue
      then show ?thesis using assms(5) worker(1) visit(4) by (simp add: after_worker_def)
    next
      case WalkQuit
      then have full: "keeps f os pf (fst ev) (snd ev)"
        "BATCH_SIZE \<le> length (bs_buf (rs_batch (ws_visitor (pl_walk r) w))) + 1"
        using unseen_quit_is_full [OF assms(3) ok, of pf "pl_alive r" "fst ev" "snd ev" v'] visit(1) unseen by simp_all
      have "ws_log (pl_walk r') = ws_log (pl_walk r) @ [ev]" using worker(1) visit(3) by (simp add: after_worker_def)
      then have "size (kept f os pf (mset (ws_log (pl_walk r')))) = size (kept f os pf (mset (ws_log (pl_walk r)))) + 1"
        using full(1) by simp
      then have False
        using kept_log_le [OF inv] buffer_le_kept [OF assms(2) w] full(2) assms(4) by simp
      then show ?thesis ..
    qed
  qed
next
  case (worker_panics w seen s)
  then show ?thesis using assms(5) by simp
next
  case (drop_visitor w s)
  then show ?thesis using assms(5) by (simp add: after_worker_def drop_batch_def)
next
  case (print_next e es)
  then show ?thesis using assms(5) by (simp add: after_print_def split: prod.split bool.split)
qed (use assms(5) in simp_all)

lemma shutdown_stays: "pipeline_step ctx pf f os r r' \<Longrightarrow> pl_shutdown r \<Longrightarrow> pl_shutdown r'"
  by (cases rule: pipeline_step.cases)
     (auto simp: after_worker_def after_print_def split: prod.splits bool.splits)

lemma few_no_quit_reach:
  assumes "pipeline_reach ctx pf f os r0 r" "pipeline_inv ctx pf f os k whole r0" "filters_ok f os"
    and "size (kept f os pf whole) < BATCH_SIZE" "\<not> ws_quit (pl_walk r0)" "\<not> pl_shutdown r"
  shows "\<not> ws_quit (pl_walk r)"
  using assms(1,6)
proof (induction rule: pipeline_reach.induct)
  case pl_start
  show ?case by (rule assms(5))
next
  case (pl_step r' r'')
  have "\<not> pl_shutdown r'" using shutdown_stays [OF pl_step(2)] pl_step.prems by blast
  moreover have "pipeline_inv ctx pf f os k whole r'" by (rule pipeline_inv_reach [OF pl_step(1) assms(2,3)])
  ultimately show ?case
    using few_no_quit_step [OF pl_step(2) _ assms(3,4)] pl_step.IH pl_step.prems by blast
qed

text \<open>
  C16. The result limit takes effect when a batch of 256 is refused. When fewer entries match than that,
  an uninterrupted run visits the whole tree, also under \<open>--max-results\<close> and \<open>--quit\<close>.
\<close>

theorem few_results_walk_everything:
  assumes "pipeline_reach ctx pf f os (pipeline_init ctx pf roots) r" "pipeline_done r"
    and "\<not> pl_shutdown r" "roots_fit ctx pf k roots" "filters_ok f os"
    and "size (kept f os pf (roots_tree ctx pf k roots)) < 256"
  shows "mset (ws_log (pl_walk r)) = roots_tree ctx pf k roots"
proof -
  have "\<not> ws_quit (pl_walk (pipeline_init ctx pf roots))" by (simp add: pipeline_init_def walk_init_def)
  with assms(3,6) have "\<not> ws_quit (pl_walk r)"
    by (intro few_no_quit_reach [OF assms(1) pipeline_inv_init [OF assms(4)] assms(5)]) (simp_all add: BATCH_SIZE_def)
  then show ?thesis by (rule done_unquit_complete [OF run_invariant [OF assms(1,4,5)] assms(2)])
qed

end
