(* ===== verification/Paths.thy ===== *)
theory Paths
  imports Unix Quitting
begin

text \<open>
  No path is printed twice. The paths of a walk are spelled by appending names to the starting path, and
  different lists of names give different spellings; a directory stream names every entry once. So
  the entries below one starting path have pairwise different paths, also when links are followed.
\<close>

section \<open>Spelling a path by names\<close>

abbreviation spell :: "path \<Rightarrow> string list \<Rightarrow> path" where
  "spell root ns \<equiv> foldl path_join root ns"

definition slashed :: "path \<Rightarrow> path" where
  "slashed p = (if p = [] \<or> last p = CHR ''/'' then p else p @ [CHR ''/''])"

lemma slashed_length: "length p \<le> length (slashed p)"
  by (simp add: slashed_def)

lemma join_with_snoc: "ps \<noteq> [] \<Longrightarrow> join_with sep (ps @ [p]) = join_with sep ps @ sep # p"
  by (induction sep ps rule: join_with.induct) (simp_all add: join_with_Cons)

lemma join_with_last:
  "ps \<noteq> [] \<Longrightarrow> last ps \<noteq> [] \<Longrightarrow> join_with sep ps \<noteq> [] \<and> last (join_with sep ps) = last (last ps)"
  by (induction sep ps rule: join_with.induct) auto

lemma spell_slashed:
  "ns \<noteq> [] \<Longrightarrow> list_all leaf_name ns \<Longrightarrow> spell root ns = slashed root @ join_with (CHR ''/'') ns"
proof (induction ns rule: rev_induct)
  case (snoc n ns)
  then have n: "leaf_name n" by simp
  show ?case
  proof (cases "ns = []")
    case True
    then show ?thesis using n by (simp add: path_join_leaf slashed_def)
  next
    case False
    then have IH: "spell root ns = slashed root @ join_with (CHR ''/'') ns" using snoc by simp
    have "leaf_name (last ns)" using snoc.prems(2) False by (simp add: list_all_iff)
    then have "last ns \<noteq> []" "last (last ns) \<noteq> CHR ''/''" by (metis last_in_set leaf_name_def)+
    then have "join_with (CHR ''/'') ns \<noteq> []" "last (join_with (CHR ''/'') ns) \<noteq> CHR ''/''"
      using join_with_last [OF False] by auto
    then show ?thesis using n False by (simp add: IH path_join_leaf join_with_snoc)
  qed
qed simp

lemma spell_inj:
  assumes "list_all leaf_name ns" "list_all leaf_name ms" "spell root ns = spell root ms"
  shows "ns = ms"
proof -
  have longer: "length root < length (spell root xs)" if "xs \<noteq> []" "list_all leaf_name xs" for xs
  proof -
    have "leaf_name (last xs)" using that by (simp add: list_all_iff)
    then have "join_with (CHR ''/'') xs \<noteq> []" using join_with_last [OF that(1)] by (simp add: leaf_name_def)
    then show ?thesis using spell_slashed [OF that] slashed_length [of root] by (simp add: le_less_trans)
  qed
  have split: "split_on (CHR ''/'') (join_with (CHR ''/'') xs) = xs" if "xs \<noteq> []" "list_all leaf_name xs" for xs
    using that by (intro split_on_join_with) (auto simp: list_all_iff leaf_name_def)
  show ?thesis
  proof (cases "ns = [] \<or> ms = []")
    case True
    then show ?thesis
      using longer [of ns] longer [of ms] assms by (cases "ns = []"; cases "ms = []") simp_all
  next
    case False
    then have "join_with (CHR ''/'') ns = join_with (CHR ''/'') ms"
      using spell_slashed [of ns root] spell_slashed [of ms root] assms by simp
    then show ?thesis using split [of ns] split [of ms] False assms(1,2) by metis
  qed
qed

section \<open>The paths of a tree\<close>

definition visit_paths :: "(Entry \<times> 'fd StatAt) multiset \<Rightarrow> path multiset" where
  "visit_paths M = image_mset (\<lambda>ev. e_path (fst ev)) M"

lemma visit_paths_simps [simp]:
  "visit_paths {#} = {#}" "visit_paths (add_mset ev M) = add_mset (e_path (fst ev)) (visit_paths M)"
  "visit_paths (M + N) = visit_paths M + visit_paths N"
  by (simp_all add: visit_paths_def)

text \<open>Every path continues \<open>ns\<close> by a name of \<open>L\<close>, and none occurs twice.\<close>

definition spread :: "path \<Rightarrow> string list \<Rightarrow> string set \<Rightarrow> (Entry \<times> 'fd StatAt) multiset \<Rightarrow> bool" where
  "spread root ns L M \<longleftrightarrow>
     (\<forall>p \<in># visit_paths M. \<exists>n ms. n \<in> L \<and> list_all leaf_name (n # ms) \<and> p = spell root (ns @ n # ms))
     \<and> (\<forall>p. count (visit_paths M) p \<le> 1)"

lemma spread_count: "spread root ns L M \<Longrightarrow> count (visit_paths M) p \<le> 1"
  by (simp add: spread_def)

lemma spread_path:
  assumes "spread root ns L M" "p \<in># visit_paths M" "L \<subseteq> K"
  shows "\<exists>n ms. n \<in> K \<and> list_all leaf_name (n # ms) \<and> p = spell root (ns @ n # ms)"
  using assms unfolding spread_def by (meson subsetD)

lemma spreadI:
  assumes "\<And>p. p \<in># visit_paths M \<Longrightarrow> \<exists>n ms. n \<in> L \<and> list_all leaf_name (n # ms) \<and> p = spell root (ns @ n # ms)"
    and "\<And>p. count (visit_paths M) p \<le> 1"
  shows "spread root ns L M"
  using assms by (simp only: spread_def) simp

lemma count_absent: "p \<notin># M \<Longrightarrow> count M p = 0"
  by (simp add: count_eq_zero_iff)

lemma spread_empty: "spread root ns L {#}"
  by (simp add: spread_def)

lemma spread_add:
  assumes "spread root ns L M" "spread root ns K N" "L \<inter> K = {}" "list_all leaf_name ns"
  shows "spread root ns (L \<union> K) (M + N)"
proof -
  have "p \<notin># visit_paths N" if "p \<in># visit_paths M" for p
  proof
    assume "p \<in># visit_paths N"
    from spread_path [OF assms(2) this order_refl]
    obtain m ms where m: "m \<in> K" "list_all leaf_name (m # ms)" "p = spell root (ns @ m # ms)" by (elim exE conjE)
    from spread_path [OF assms(1) that order_refl]
    obtain n ns' where n: "n \<in> L" "list_all leaf_name (n # ns')" "p = spell root (ns @ n # ns')" by (elim exE conjE)
    have "ns @ n # ns' = ns @ m # ms" by (rule spell_inj [of _ _ root]) (use assms(4) m n in simp_all)
    then show False using m(1) n(1) assms(3) by auto
  qed
  then have c: "count (visit_paths M) p + count (visit_paths N) p \<le> 1" for p
    using count_absent [of p "visit_paths M"] count_absent [of p "visit_paths N"]
      spread_count [OF assms(1), of p] spread_count [OF assms(2), of p]
    by (cases "p \<in># visit_paths M") simp_all
  have e: "\<exists>n ms. n \<in> L \<union> K \<and> list_all leaf_name (n # ms) \<and> p = spell root (ns @ n # ms)"
    if "p \<in># visit_paths M \<or> p \<in># visit_paths N" for p
    using that
  proof
    assume "p \<in># visit_paths M"
    then show ?thesis by (rule spread_path [OF assms(1)]) simp
  next
    assume "p \<in># visit_paths N"
    then show ?thesis by (rule spread_path [OF assms(2)]) simp
  qed
  show ?thesis
    by (rule spreadI) (use e c in \<open>simp_all only: visit_paths_simps count_union union_iff\<close>)
qed

lemma spread_child:
  assumes "e_path (fst ev) = spell root (ns @ [n])" "leaf_name n" "list_all leaf_name ns"
    and "spread root (ns @ [n]) L M"
  shows "spread root ns {n} (add_mset ev M)"
proof -
  have "e_path (fst ev) \<notin># visit_paths M"
  proof
    assume "e_path (fst ev) \<in># visit_paths M"
    then obtain m ms where m: "list_all leaf_name (m # ms)" "e_path (fst ev) = spell root ((ns @ [n]) @ m # ms)"
      using assms(4) unfolding spread_def by blast
    have "ns @ [n] = (ns @ [n]) @ m # ms" by (rule spell_inj [of _ _ root]) (use assms(1-3) m in simp_all)
    then show False by simp
  qed
  then have "count (visit_paths (add_mset ev M)) p \<le> 1" for p
    using count_absent spread_count [OF assms(4), of p] by (cases "p = e_path (fst ev)") simp_all
  moreover have "\<exists>m ms. m \<in> {n} \<and> list_all leaf_name (m # ms) \<and> p = spell root (ns @ m # ms)"
    if p: "p \<in># visit_paths (add_mset ev M)" for p
  proof (cases "p = e_path (fst ev)")
    case True
    then show ?thesis using assms(1,2) by (intro exI [of _ n] exI [of _ "[]"]) simp
  next
    case False
    then obtain m ms where "list_all leaf_name (m # ms)" "p = spell root ((ns @ [n]) @ m # ms)"
      using p assms(4) unfolding spread_def by auto
    then show ?thesis using assms(2) by (intro exI [of _ n] exI [of _ "m # ms"]) simp
  qed
  ultimately show ?thesis unfolding spread_def by blast
qed

text \<open>A leaf whose listings name every entry once.\<close>

definition well_listed :: "'fd platform \<Rightarrow> bool" where
  "well_listed pf \<longleftrightarrow>
     (\<forall>dir parent. distinct (map (\<lambda>x. fst (snd x)) (pf_for_each_entry pf dir parent))
        \<and> (\<forall>x \<in> set (pf_for_each_entry pf dir parent).
             leaf_name (fst (snd x)) \<and> fst x = path_join parent (fst (snd x))))"

lemma spread_visits:
  assumes "t_path t = spell root ns" "list_all leaf_name ns"
    and "distinct (map (\<lambda>x. fst (snd x)) xs)"
    and "\<And>x. x \<in> set xs \<Longrightarrow> leaf_name (fst (snd x)) \<and> fst x = path_join (t_path t) (fst (snd x))"
    and "\<And>u n. t_path u = spell root (ns @ [n]) \<Longrightarrow> leaf_name n \<Longrightarrow> t_parent u \<noteq> None \<Longrightarrow> spread root (ns @ [n]) UNIV (walk_tree ctx pf k u)"
  shows "spread root ns ((\<lambda>x. fst (snd x)) ` set xs) (below ctx pf k (visits ctx d xs))"
  using assms(3,4)
proof (induction xs)
  case Nil
  then show ?case by (simp add: below_def visits_def spread_empty)
next
  case (Cons x xs)
  obtain p n ty where x: "x = (p, n, ty)" by (cases x)
  have n: "leaf_name n" "p = path_join (t_path t) n" using Cons.prems(2) [of x] by (simp_all add: x)
  have p: "p = spell root (ns @ [n])" using n(2) assms(1) by simp
  have tail: "spread root ns ((\<lambda>x. fst (snd x)) ` set xs) (below ctx pf k (visits ctx d xs))"
    using Cons by simp
  have new: "n \<notin> (\<lambda>x. fst (snd x)) ` set xs" using Cons.prems(1) by (simp add: x image_iff)
  have path: "e_path (fst (child_visit ctx d x)) = p" by (simp add: x child_visit_def child_entry_def)
  have sub: "spread root ns {n} (subtree (walk_tree ctx pf k) (child_visit ctx d x, child_task ctx d x))"
  proof (cases "child_task ctx d x")
    case None
    then show ?thesis using spread_child [OF _ n(1) assms(2) spread_empty, of "child_visit ctx d x" root] path p by simp
  next
    case (Some u)
    have "t_path u = p" using Some by (auto simp: x child_task_def split: if_splits)
    then have "spread root (ns @ [n]) UNIV (walk_tree ctx pf k u)"
      using assms(5) [of u n] p n(1) child_task_fields(5) [OF Some] by simp
    then show ?thesis using Some spread_child [OF _ n(1) assms(2), of "child_visit ctx d x" root] path p by simp
  qed
  show ?case
  proof (cases "excluded ctx n")
    case True
    then have "visits ctx d (x # xs) = visits ctx d xs" by (simp add: visits_Cons x)
    moreover have "spread root ns (insert n ((\<lambda>x. fst (snd x)) ` set xs)) (below ctx pf k (visits ctx d xs))"
      using tail unfolding spread_def by blast
    ultimately show ?thesis by (simp add: x)
  next
    case False
    have "spread root ns ({n} \<union> (\<lambda>x. fst (snd x)) ` set xs)
        (subtree (walk_tree ctx pf k) (child_visit ctx d x, child_task ctx d x) + below ctx pf k (visits ctx d xs))"
      by (rule spread_add [OF sub tail]) (use new assms(2) in auto)
    then show ?thesis using False by (simp add: visits_Cons below_Cons x)
  qed
qed

lemma spread_children:
  assumes "well_listed pf" "t_path t = spell root ns" "list_all leaf_name ns"
    and "\<And>u n. t_path u = spell root (ns @ [n]) \<Longrightarrow> leaf_name n \<Longrightarrow> t_parent u \<noteq> None \<Longrightarrow> spread root (ns @ [n]) UNIV (walk_tree ctx pf k u)"
  shows "spread root ns UNIV (below ctx pf k (task_children ctx pf t))"
proof (cases "descend_open ctx pf t True")
  case None
  then show ?thesis by (simp add: task_children_def below_def spread_empty)
next
  case (Some d)
  have "spread root ns ((\<lambda>x. fst (snd x)) ` set (pf_for_each_entry pf (d_dir d) (t_path t)))
      (below ctx pf k (visits ctx d (pf_for_each_entry pf (d_dir d) (t_path t))))"
    by (rule spread_visits [OF assms(2,3) _ _ assms(4)]) (use assms(1) in \<open>auto simp: well_listed_def\<close>)
  then show ?thesis using Some unfolding task_children_def spread_def by simp blast
qed

lemma spread_subtree:
  assumes "well_listed pf"
  shows "t_path t = spell root ns \<Longrightarrow> list_all leaf_name ns \<Longrightarrow> t_parent t \<noteq> None \<Longrightarrow>
    spread root ns UNIV (walk_tree ctx pf k t)"
proof (induction k arbitrary: t ns)
  case 0
  then show ?case by (simp add: spread_empty)
next
  case (Suc k)
  have "spread root ns UNIV (below ctx pf k (task_children ctx pf t))"
    by (rule spread_children [OF assms Suc.prems(1,2)]) (use Suc.IH Suc.prems(2) in simp)
  then show ?case using Suc.prems(3) by (simp only: walk_tree.simps own_visit_def below_def if_False add_0)
qed

lemma root_tree_paths:
  assumes "well_listed pf" "t_parent t = None"
  shows "count (visit_paths (walk_tree ctx pf k t)) p \<le> 1"
proof (cases k)
  case (Suc j)
  have s: "spread (t_path t) [] UNIV (below ctx pf j (task_children ctx pf t))"
    by (rule spread_children [OF assms(1)]) (use spread_subtree [OF assms(1)] in auto)
  have "t_path t \<notin># visit_paths (below ctx pf j (task_children ctx pf t))"
  proof
    assume "t_path t \<in># visit_paths (below ctx pf j (task_children ctx pf t))"
    then obtain n ms where "list_all leaf_name (n # ms)" "t_path t = spell (t_path t) ([] @ n # ms)"
      using s unfolding spread_def by blast
    then show False using spell_inj [of "[]" "n # ms" "t_path t"] by simp
  qed
  from count_absent [OF this]
  have "count (visit_paths (below ctx pf j (task_children ctx pf t))) (t_path t) = 0" .
  moreover have "walk_tree ctx pf k t = {#root_visit ctx t#} + below ctx pf j (task_children ctx pf t)"
    unfolding Suc walk_tree.simps below_def own_visit_def using assms(2) by simp
  ultimately show ?thesis
    using spread_count [OF s, of p] by (cases "p = t_path t") (simp_all add: root_visit_def root_entry_def)
qed simp

section \<open>No path twice\<close>

lemma mset_count_le: "M \<subseteq># N \<Longrightarrow> count N p \<le> 1 \<Longrightarrow> count M p \<le> 1"
  using mset_subset_eq_count [of M N p] by simp

lemma distinctI_count: "(\<And>x. count (mset xs) x \<le> 1) \<Longrightarrow> distinct xs"
proof (induction xs)
  case (Cons x xs)
  have "count (mset xs) y \<le> 1" for y
    by (rule order_trans [OF _ Cons.prems [of y]]) simp
  moreover have "count (mset xs) x = 0" using Cons.prems [of x] by simp
  ultimately show ?case using Cons.IH by simp
qed simp

lemma tree_paths_once:
  assumes "well_listed pf"
  shows "count (visit_paths (roots_tree ctx pf k [root])) p \<le> 1"
proof (cases "root_task (ctx_args ctx) pf root")
  case None
  then show ?thesis by (simp add: roots_tree_def root_tasks_def List.map_filter_def)
next
  case (Some t)
  then have "t_parent t = None" by (auto simp: root_task_def split: sum.splits)
  from root_tree_paths [OF assms this] show ?thesis
    using Some by (simp add: roots_tree_def root_tasks_def List.map_filter_def)
qed

lemma kept_paths: "image_mset e_path (kept f os pf M) \<subseteq># visit_paths M"
proof -
  have "image_mset e_path (kept f os pf M)
      = visit_paths (filter_mset (\<lambda>ev. keeps f os pf (fst ev) (snd ev)) M)"
    by (simp add: kept_def visit_paths_def multiset.map_comp comp_def)
  then show ?thesis by (simp add: visit_paths_def image_mset_subseteq_mono)
qed

lemma printed_paths_distinct:
  assumes "mset es \<subseteq># kept f os pf (roots_tree ctx pf k [root])" "well_listed pf"
  shows "distinct (map e_path es)"
proof (rule distinctI_count)
  fix p
  have "image_mset e_path (mset es) \<subseteq># visit_paths (roots_tree ctx pf k [root])"
    using image_mset_subseteq_mono [OF assms(1)] kept_paths by (rule subset_mset.order_trans)
  from mset_count_le [OF this tree_paths_once [OF assms(2)]]
  show "count (mset (map e_path es)) p \<le> 1" by (simp only: mset_map)
qed

text \<open>What \<open>readdir\<close> promises of a directory that does not change: every name once, and only names.\<close>

definition stream_names :: "(int + string \<times> RFileType) list \<Rightarrow> string list" where
  "stream_names items = map (\<lambda>i. fst (projr i)) (filter is_ok items)"

definition names_once :: "'fd syscalls \<Rightarrow> bool" where
  "names_once sys \<longleftrightarrow>
     (\<forall>fd items. sys_read_dir sys fd = Inr items \<longrightarrow>
        distinct (stream_names items) \<and> (\<forall>n \<in> set (stream_names items). n \<noteq> [] \<and> CHR ''/'' \<notin> set n))"

lemma stream_names_simps [simp]:
  "stream_names [] = []" "stream_names (Inl e # items) = stream_names items"
  "stream_names (Inr x # items) = fst x # stream_names items"
  by (simp_all add: stream_names_def is_ok_def)

lemma entry_calls_names:
  "(\<lambda>x. fst (snd x)) ` set (entry_calls sys fd parent items) \<subseteq> set (stream_names items)
   \<and> (distinct (stream_names items) \<longrightarrow> distinct (map (\<lambda>x. fst (snd x)) (entry_calls sys fd parent items)))"
proof (induction sys fd parent items rule: entry_calls.induct)
  case (3 sys fd parent name ft items)
  show ?case
  proof (cases "name = ''.'' \<or> name = ''..''")
    case True
    then show ?thesis using 3(1) by auto
  next
    case False
    show ?thesis
    proof (cases "case map_type ft of Some t \<Rightarrow> Inr t | None \<Rightarrow> statat_type sys fd name")
      case (Inl e)
      then show ?thesis using 3(2) [OF False Inl] False by auto
    next
      case (Inr ty)
      then show ?thesis using 3(3) [OF False Inr] False by auto
    qed
  qed
qed simp_all

text \<open>Without \<open>distinct\<close>: the names of a stream are not empty and have no \<open>/\<close>.\<close>

definition plain_names :: "'fd syscalls \<Rightarrow> bool" where
  "plain_names sys \<longleftrightarrow>
     (\<forall>fd items. sys_read_dir sys fd = Inr items \<longrightarrow> (\<forall>n \<in> set (stream_names items). n \<noteq> [] \<and> CHR ''/'' \<notin> set n))"

definition well_named :: "'fd platform \<Rightarrow> bool" where
  "well_named pf \<longleftrightarrow>
     (\<forall>dir parent. \<forall>x \<in> set (pf_for_each_entry pf dir parent).
        leaf_name (fst (snd x)) \<and> fst x = path_join parent (fst (snd x)))"

lemma unix_well_named:
  assumes "plain_names sys"
  shows "well_named (unix_platform sys)"
  unfolding well_named_def
proof (intro allI ballI)
  fix dir parent x assume x: "x \<in> set (pf_for_each_entry (unix_platform sys) dir parent)"
  obtain p n ty where xe: "x = (p, n, ty)" by (cases x)
  obtain items where items: "sys_read_dir sys dir = Inr items" "x \<in> set (entry_calls sys dir parent items)"
    using x that by (cases "sys_read_dir sys dir") (simp_all add: unix_platform_def for_each_entry_def)
  have j: "p = path_join parent n \<and> n \<noteq> ''.'' \<and> n \<noteq> ''..''"
    using entry_calls_join [of p n ty sys dir parent items] items(2) by (simp add: xe)
  have "n \<in> set (stream_names items)"
    using entry_calls_names [of sys dir parent items] items(2) by (force simp: xe)
  then show "leaf_name (fst (snd x)) \<and> fst x = path_join parent (fst (snd x))"
    using assms items(1) j by (simp add: plain_names_def leaf_name_def xe)
qed

lemma unix_well_listed:
  assumes "names_once sys"
  shows "well_listed (unix_platform sys)"
  unfolding well_listed_def
proof (intro allI conjI ballI)
  fix dir parent
  let ?l = "pf_for_each_entry (unix_platform sys) dir parent"
  have l: "distinct (map (\<lambda>x. fst (snd x)) ?l)
      \<and> (\<forall>x \<in> set ?l. fst (snd x) \<noteq> [] \<and> CHR ''/'' \<notin> set (fst (snd x)))"
  proof (cases "sys_read_dir sys dir")
    case (Inr items)
    then show ?thesis
      using assms entry_calls_names [of sys dir parent items]
      by (fastforce simp: names_once_def unix_platform_def for_each_entry_def)
  qed (simp add: unix_platform_def for_each_entry_def)
  then show "distinct (map (\<lambda>x. fst (snd x)) ?l)" by blast
  fix x assume x: "x \<in> set ?l"
  obtain p n ty where xe: "x = (p, n, ty)" by (cases x)
  have "p = path_join parent n \<and> n \<noteq> ''.'' \<and> n \<noteq> ''..''"
    using x entry_calls_join [of p n ty sys dir parent]
    by (auto simp: xe unix_platform_def for_each_entry_def split: sum.splits)
  then show "leaf_name (fst (snd x))" and "fst x = path_join parent (fst (snd x))"
    using l x by (auto simp: xe leaf_name_def)
qed

text \<open>
  C8. From one starting path no path is printed twice, however the workers interleave, also when symlinks
  are followed and at any moment of the run.
\<close>

theorem no_path_printed_twice:
  assumes "pipeline_reach ctx (unix_platform sys) f os (pipeline_init ctx (unix_platform sys) [root]) r"
    and "roots_fit ctx (unix_platform sys) k [root]" "filters_ok f os" "names_once sys"
  shows "\<exists>es :: Entry list.
    pr_out (pl_printer r) = concat (map (\<lambda>e. e_path e @ [print_separator (ctx_args ctx)]) es)
    \<and> distinct (map e_path es)"
proof -
  note inv = run_invariant [OF assms(1-3)]
  show ?thesis
    by (intro exI [of _ "pr_printed (pl_printer r)"] conjI run_output [OF inv]
        printed_paths_distinct [OF printed_in_tree [OF inv] unix_well_listed [OF assms(4)]])
qed

end
