(* ===== verification/Exhaustion.thy ===== *)
theory Exhaustion
  imports Paths Walk_Example
begin

text \<open>
  Running out of file descriptors loses nothing. When a child cannot be opened by its parent's descriptor because
  the process or the system has none left, \<open>open_child\<close> opens it by its full path; here any such failures
  may happen, and the walk still visits the same entries.
\<close>

text \<open>The system, with some opens by a parent's descriptor failing for want of descriptors.\<close>

definition starved :: "('fd \<Rightarrow> string \<Rightarrow> int option) \<Rightarrow> 'fd syscalls \<Rightarrow> 'fd syscalls" where
  "starved out sys = sys\<lparr>sys_openat := (\<lambda>d p fl. case d of
     CWD \<Rightarrow> sys_openat sys CWD p fl
   | Fd fd \<Rightarrow> (case out fd p of None \<Rightarrow> sys_openat sys (Fd fd) p fl | Some e \<Rightarrow> Inl e))\<rparr>"

text \<open>The descriptors that can be had by opening a path, and directories below it.\<close>

inductive opened_at :: "'fd syscalls \<Rightarrow> 'fd \<Rightarrow> path \<Rightarrow> bool" for sys where
  opened_root: "sys_openat sys CWD p fl = Inr fd \<Longrightarrow> opened_at sys fd p"
| opened_child: "opened_at sys fd p \<Longrightarrow> leaf_name n \<Longrightarrow> sys_openat sys (Fd fd) n fl = Inr fd' \<Longrightarrow>
    opened_at sys fd' (path_join p n)"

text \<open>
  What the fallback relies on in a file system that stands still: the path of an open directory joined with a name
  leads where the descriptor and the name lead.
\<close>

definition paths_lead_back :: "'fd syscalls \<Rightarrow> bool" where
  "paths_lead_back sys \<longleftrightarrow>
     (\<forall>fd p n fl. opened_at sys fd p \<and> leaf_name n \<longrightarrow> sys_openat sys CWD (path_join p n) fl = sys_openat sys (Fd fd) n fl)"

definition shortage :: "('fd \<Rightarrow> string \<Rightarrow> int option) \<Rightarrow> bool" where
  "shortage out \<longleftrightarrow> (\<forall>fd n e. out fd n = Some e \<longrightarrow> e = EMFILE \<or> e = ENFILE)"

section \<open>One directory\<close>

definition anchored :: "'fd syscalls \<Rightarrow> 'fd Task \<Rightarrow> bool" where
  "anchored sys t \<longleftrightarrow> (\<forall>fd. t_parent t = Some fd \<longrightarrow> (\<exists>p n. opened_at sys fd p \<and> leaf_name n \<and> t_path t = path_join p n))"

lemma open_anchored:
  assumes "anchored sys t" "paths_lead_back sys"
  shows "open_task (unix_platform sys) t = sys_openat sys CWD (t_path t) (dir_flags (t_follow t))"
proof (cases "t_parent t")
  case None
  then show ?thesis by (simp add: open_task_def unix_platform_def open_root_def)
next
  case (Some fd)
  then obtain p n where "opened_at sys fd p" "leaf_name n" "t_path t = path_join p n"
    using assms(1) by (auto simp: anchored_def)
  then show ?thesis
    using assms(2) Some
    by (simp add: open_task_def path_file_name_join unix_platform_def open_child_def open_abs_def paths_lead_back_def
        Let_def split: sum.split)
qed

lemma open_starved:
  assumes "anchored sys t" "paths_lead_back sys" "shortage out"
  shows "open_task (unix_platform (starved out sys)) t = open_task (unix_platform sys) t"
proof (cases "t_parent t")
  case None
  then show ?thesis by (simp add: open_task_def unix_platform_def open_root_def starved_def)
next
  case (Some fd)
  then obtain p n where pn: "opened_at sys fd p" "leaf_name n" "t_path t = path_join p n"
    using assms(1) by (auto simp: anchored_def)
  then have cwd: "sys_openat sys CWD (path_join p n) fl = sys_openat sys (Fd fd) n fl" for fl
    using assms(2) by (simp add: paths_lead_back_def)
  show ?thesis
  proof (cases "out fd n")
    case None
    then show ?thesis using Some pn(2,3)
      by (simp add: open_task_def path_file_name_join unix_platform_def open_child_def open_abs_def starved_def Let_def
          split: sum.split)
  next
    case (Some e)
    then have "e = EMFILE \<or> e = ENFILE" using assms(3) by (simp add: shortage_def)
    then show ?thesis using Some \<open>t_parent t = Some fd\<close> pn(2,3) cwd open_anchored [OF assms(1,2)]
      by (simp add: open_task_def path_file_name_join unix_platform_def open_child_def open_abs_def starved_def Let_def)
  qed
qed

lemma starved_fields:
  "pf_for_each_entry (unix_platform (starved out sys)) = pf_for_each_entry (unix_platform sys)"
  "pf_dir_id (unix_platform (starved out sys)) = pf_dir_id (unix_platform sys)"
  "pf_path_id (unix_platform (starved out sys)) = pf_path_id (unix_platform sys)"
proof -
  have "statat_type (starved out sys) = statat_type sys"
    by (simp add: fun_eq_iff statat_type_def starved_def)
  then have "entry_calls (starved out sys) fd p items = entry_calls sys fd p items" for fd p items
    by (induction sys fd p items rule: entry_calls.induct) (simp_all split: option.split sum.split)
  then show "pf_for_each_entry (unix_platform (starved out sys)) = pf_for_each_entry (unix_platform sys)"
    by (simp add: unix_platform_def fun_eq_iff for_each_entry_def starved_def split: sum.split)
  show "pf_dir_id (unix_platform (starved out sys)) = pf_dir_id (unix_platform sys)"
    "pf_path_id (unix_platform (starved out sys)) = pf_path_id (unix_platform sys)"
    by (simp_all add: unix_platform_def fun_eq_iff dir_id_def path_id_def starved_def)
qed

lemma children_starved:
  assumes "anchored sys t" "paths_lead_back sys" "shortage out"
  shows "task_children ctx (unix_platform (starved out sys)) t = task_children ctx (unix_platform sys) t"
  unfolding task_children_def descend_open_def open_starved [OF assms] starved_fields by (rule refl)

lemma children_anchored:
  assumes "anchored sys t" "paths_lead_back sys" "plain_names sys"
  shows "list_all (child_ok (anchored sys)) (task_children ctx (unix_platform sys) t)"
  unfolding list_all_iff
proof
  fix ec assume ec: "ec \<in> set (task_children ctx (unix_platform sys) t)"
  obtain e c where ecp: "ec = (e, c)" by (cases ec)
  obtain d x where d: "descend_open ctx (unix_platform sys) t True = Some d"
    and x: "x \<in> set (pf_for_each_entry (unix_platform sys) (d_dir d) (t_path t))" and c: "c = child_task ctx d x"
    using ec unfolding ecp by (rule task_children_opened)
  obtain p n ty where xe: "x = (p, n, ty)" by (cases x)
  have "open_task (unix_platform sys) t = Inr (d_dir d)"
    using d by (auto simp: descend_open_def split: if_splits sum.splits)
  then have at: "opened_at sys (d_dir d) (t_path t)"
    using open_anchored [OF assms(1,2)] by (auto intro: opened_root)
  have np: "leaf_name n" "p = path_join (t_path t) n"
    using unix_well_named [OF assms(3), unfolded well_named_def] x by (fastforce simp: xe)+
  have "anchored sys u" if "c = Some u" for u
  proof -
    have "t_parent u = Some (d_dir d)" "t_path u = path_join (t_path t) n"
      using that c np(2) by (auto simp: child_task_def xe split: if_splits)
    then show ?thesis using at np(1) by (simp add: anchored_def) blast
  qed
  then show "child_ok (anchored sys) ec" by (simp add: ecp split: option.split)
qed

section \<open>The whole walk\<close>

lemma tree_starved:
  assumes "paths_lead_back sys" "shortage out" "plain_names sys"
  shows "anchored sys t \<Longrightarrow> walk_tree ctx (unix_platform (starved out sys)) k t = walk_tree ctx (unix_platform sys) k t
    \<and> fits ctx (unix_platform (starved out sys)) k t = fits ctx (unix_platform sys) k t"
proof (induction k arbitrary: t)
  case (Suc k)
  note same = children_starved [OF Suc.prems assms(1,2), of ctx]
  note ok = children_anchored [OF Suc.prems assms(1,3), of ctx]
  have "sum_list (map (subtree (walk_tree ctx (unix_platform (starved out sys)) k)) (task_children ctx (unix_platform sys) t))
      = sum_list (map (subtree (walk_tree ctx (unix_platform sys) k)) (task_children ctx (unix_platform sys) t))"
    using ok by (rule sum_subtree_cong) (use Suc.IH in blast)
  moreover have "list_all (child_ok (fits ctx (unix_platform (starved out sys)) k)) (task_children ctx (unix_platform sys) t)
      = list_all (child_ok (fits ctx (unix_platform sys) k)) (task_children ctx (unix_platform sys) t)"
    using ok Suc.IH by (fastforce simp: list_all_iff split: option.splits)
  ultimately show ?case unfolding walk_tree.simps fits.simps same by simp
qed simp

lemma roots_starved:
  assumes "paths_lead_back sys" "shortage out" "plain_names sys"
  shows "roots_tree ctx (unix_platform (starved out sys)) k roots = roots_tree ctx (unix_platform sys) k roots"
    and "roots_fit ctx (unix_platform (starved out sys)) k roots = roots_fit ctx (unix_platform sys) k roots"
proof -
  let ?ts = "root_tasks (ctx_args ctx) (unix_platform sys) roots"
  have ts: "root_tasks (ctx_args ctx) (unix_platform (starved out sys)) roots = ?ts"
    unfolding root_tasks_def root_task_def starved_fields by (rule refl)
  have "anchored sys t" if "t \<in> set ?ts" for t
    using root_tasks_fields(3) [OF that] by (simp add: anchored_def)
  note same = tree_starved [OF assms this]
  show "roots_tree ctx (unix_platform (starved out sys)) k roots = roots_tree ctx (unix_platform sys) k roots"
    unfolding roots_tree_def ts using same by (intro arg_cong [where f = sum_list] map_cong refl) blast
  show "roots_fit ctx (unix_platform (starved out sys)) k roots = roots_fit ctx (unix_platform sys) k roots"
    unfolding roots_fit_def ts list_all_iff using same by blast
qed


text \<open>A root with a directory and two files, and no descriptor left for any child.\<close>

definition path_sys :: "path syscalls" where
  "path_sys =
     \<lparr>sys_openat = (\<lambda>d p fl. let q = (case d of CWD \<Rightarrow> p | Fd fd \<Rightarrow> path_join fd p) in
        if q \<in> {''r'', ''r/d''} then Inr q else Inl 2),
      sys_statat = (\<lambda>d p fl. Inr \<lparr>rs_dev = 1, rs_ino = 1, rs_mode = 0x4000\<rparr>),
      sys_fstat = (\<lambda>fd. Inr \<lparr>rs_dev = 1, rs_ino = (if fd = ''r'' then 1 else 2), rs_mode = 0x4000\<rparr>),
      sys_read_dir = (\<lambda>fd. Inr (if fd = ''r'' then [Inr (''f'', RegularFile), Inr (''d'', Directory)] else [Inr (''g'', RegularFile)])),
      sys_statx = (\<lambda>_ _ _ _. Inl 38), sys_accessat = (\<lambda>_ _ _ _. Inl 38), sys_readlinkat = (\<lambda>_ _. Inl 38),
      sys_from_raw_mode = (\<lambda>_. Directory)\<rparr>"

lemma path_sys_opened: "opened_at path_sys fd p \<Longrightarrow> fd = p"
  by (induction rule: opened_at.induct) (simp_all add: path_sys_def Let_def split: if_splits)

lemma path_sys_plain: "plain_names path_sys"
  by (auto simp: plain_names_def path_sys_def)

lemma path_sys_roots: "root_tasks (ctx_args demo_ctx) (unix_platform path_sys) [''r''] =
    [\<lparr>t_path = ''r'', t_parent = None, t_follow = True, t_depth = 0, t_root_dev = 1, t_ancestors = None\<rparr>]"
  by (simp add: root_tasks_def root_task_def unix_platform_def path_id_def path_sys_def demo_defs List.map_filter_def)

lemmas path_sys_eval = demo_ctx_def demo_args_def task_children_def descend_open_def open_task_def visits_def
  excluded_def child_task_def child_entry_def descends_into_def own_visit_def root_entry_def
  root_visit_def child_visit_def unix_platform_def open_root_def open_child_def dir_id_def for_each_entry_def
  path_sys_def path_join_def path_file_name_def path_components_def Let_def eval_nat_numeral

lemma path_sys_fits: "roots_fit demo_ctx (unix_platform path_sys) 3 [''r'']"
  unfolding roots_fit_def path_sys_roots by (simp add: path_sys_eval)

lemma path_sys_tree: "image_mset (\<lambda>ev. e_path (fst ev)) (roots_tree demo_ctx (unix_platform path_sys) 3 [''r'']) =
    {#''r'', ''r/f'', ''r/d'', ''r/d/g''#}"
  unfolding roots_tree_def path_sys_roots by (simp add: path_sys_eval)

lemma path_sys_log:
  assumes "walk_parallel demo_ctx (unix_platform path_sys) keep_going [''r''] (\<lambda>_. ()) s"
  shows "image_mset (\<lambda>ev. e_path (fst ev)) (mset (ws_log s)) = {#''r'', ''r/f'', ''r/d'', ''r/d/g''#}"
proof -
  have "mset (ws_log s) = roots_tree demo_ctx (unix_platform path_sys) 3 [''r'']"
    using assms n_workers_pos unfolding walk_parallel_def
    by (intro returned_log [OF _ _ _ path_sys_fits, where visitor = keep_going]) (auto simp: keep_going_def)
  then show ?thesis by (simp add: path_sys_tree)
qed

lemma example_run:
  "roots_fit ctx pf k roots \<Longrightarrow> \<exists>s. walk_parallel ctx pf keep_going roots (\<lambda>_. ()) s"
  using can_finish [OF n_workers_pos pending_init exit_ok_reach [OF reach_start] tree_inv_init]
  unfolding walk_parallel_def by blast


end
