(* ===== verification/Exclude_Cut.thy ===== *)
theory Exclude_Cut
  imports Exhaustion
begin

text \<open>
  \<open>--exclude\<close> as a filter: the walk that prunes excluded directories visits what the walk without
  \<open>--exclude\<close> visits and that has no excluded name in its path below the starting path.
\<close>

text \<open>The names by which a path below the starting path is spelled.\<close>

definition names_below :: "path \<Rightarrow> path \<Rightarrow> string list" where
  "names_below root p = (if p = root then [] else split_on (CHR ''/'') (drop (length (slashed root)) p))"

lemma names_below_spell:
  assumes "list_all leaf_name ns"
  shows "names_below root (spell root ns) = ns"
proof (cases "ns = []")
  case False
  have "spell root ns \<noteq> root" using spell_inj [of ns "[]" root] assms False by auto
  moreover have "split_on (CHR ''/'') (join_with (CHR ''/'') ns) = ns"
    using assms False by (intro split_on_join_with) (auto simp: list_all_iff leaf_name_def)
  ultimately show ?thesis by (simp add: names_below_def spell_slashed [OF False assms])
qed (simp add: names_below_def)

abbreviation unpruned :: "WalkCtx \<Rightarrow> WalkCtx" where
  "unpruned ctx \<equiv> ctx\<lparr>ctx_exclude := None\<rparr>"

definition clean :: "(string \<Rightarrow> bool) \<Rightarrow> string list \<Rightarrow> bool" where
  "clean ex ns = list_all (\<lambda>n. \<not> ex n) ns"

lemma clean_simps [simp]: "clean ex []" "clean ex (ns @ [n]) \<longleftrightarrow> clean ex ns \<and> \<not> ex n"
  by (simp_all add: clean_def)

definition unexcluded :: "path \<Rightarrow> (string \<Rightarrow> bool) \<Rightarrow> (Entry \<times> 'fd StatAt) multiset \<Rightarrow> (Entry \<times> 'fd StatAt) multiset" where
  "unexcluded root ex M = filter_mset (\<lambda>ev. clean ex (names_below root (e_path (fst ev)))) M"

lemma unexcluded_simps [simp]:
  "unexcluded root ex {#} = {#}" "unexcluded root ex (M + N) = unexcluded root ex M + unexcluded root ex N"
  "unexcluded root ex (add_mset ev M) =
     (if clean ex (names_below root (e_path (fst ev))) then add_mset ev (unexcluded root ex M) else unexcluded root ex M)"
  by (simp_all add: unexcluded_def)

section \<open>One directory\<close>

lemma unpruned_same:
  "descend_open (unpruned ctx) pf t b = descend_open ctx pf t b"
  "child_visit (unpruned ctx) d x = child_visit ctx d x" "child_task (unpruned ctx) d x = child_task ctx d x"
  "own_visit (unpruned ctx) t = own_visit ctx t" "\<not> excluded (unpruned ctx) n"
proof -
  have c: "ctx_args (unpruned ctx) = ctx_args ctx" "ctx_limited (unpruned ctx) = ctx_limited ctx" by simp_all
  show "descend_open (unpruned ctx) pf t b = descend_open ctx pf t b"
    "child_visit (unpruned ctx) d x = child_visit ctx d x" "child_task (unpruned ctx) d x = child_task ctx d x"
    "own_visit (unpruned ctx) t = own_visit ctx t"
    unfolding descend_open_def child_visit_def child_task_def own_visit_def root_visit_def c by (rule refl)+
qed (simp add: excluded_def)

lemma unexcluded_visits:
  assumes "ctx_exclude ctx = Some ex" "list_all leaf_name ns"
    and "\<And>x. x \<in> set xs \<Longrightarrow> leaf_name (fst (snd x)) \<and> fst x = spell root (ns @ [fst (snd x)])"
    and "\<And>u n. t_path u = spell root (ns @ [n]) \<Longrightarrow> leaf_name n \<Longrightarrow> t_parent u \<noteq> None \<Longrightarrow>
      unexcluded root ex (f u) = (if clean ex (ns @ [n]) then g u else {#})"
  shows "unexcluded root ex (sum_list (map (subtree f) (visits (unpruned ctx) d xs)))
    = (if clean ex ns then sum_list (map (subtree g) (visits ctx d xs)) else {#})"
  using assms(3)
proof (induction xs)
  case (Cons x xs)
  obtain p n ty where x: "x = (p, n, ty)" by (cases x)
  have n: "leaf_name n" "p = spell root (ns @ [n])" using Cons.prems [of x] by (simp_all add: x)
  have "names_below root p = ns @ [n]" unfolding n(2) by (rule names_below_spell) (use assms(2) n(1) in simp)
  moreover have "e_path (fst (child_visit ctx d x)) = p" by (simp add: x child_visit_def child_entry_def)
  ultimately have own: "names_below root (e_path (fst (child_visit ctx d x))) = ns @ [n]" by simp
  have sub: "unexcluded root ex (subtree f (child_visit ctx d x, child_task ctx d x))
      = (if clean ex (ns @ [n]) then subtree g (child_visit ctx d x, child_task ctx d x) else {#})"
  proof (cases "child_task ctx d x")
    case None
    then show ?thesis using own by simp
  next
    case (Some u)
    have "t_path u = p" using Some by (auto simp: x child_task_def split: if_splits)
    then show ?thesis using Some own assms(4) [of u n] n child_task_fields(5) [OF Some] by simp
  qed
  have kept: "visits (unpruned ctx) d (x # xs) = (child_visit ctx d x, child_task ctx d x) # visits (unpruned ctx) d xs"
    by (simp add: visits_Cons unpruned_same)
  have rest: "unexcluded root ex (sum_list (map (subtree f) (visits (unpruned ctx) d xs)))
      = (if clean ex ns then sum_list (map (subtree g) (visits ctx d xs)) else {#})"
    using Cons by simp
  have pruned: "visits ctx d (x # xs) =
      (if ex n then visits ctx d xs else (child_visit ctx d x, child_task ctx d x) # visits ctx d xs)"
    using assms(1) by (simp add: visits_Cons excluded_def x)
  show ?case
    unfolding kept pruned list.map sum_list.Cons unexcluded_simps(2) sub rest by simp
qed (simp add: visits_def)

section \<open>The whole tree\<close>

lemma unexcluded_tree:
  assumes "ctx_exclude ctx = Some ex" "well_named pf"
  shows "t_path t = spell root ns \<Longrightarrow> list_all leaf_name ns \<Longrightarrow> t_parent t \<noteq> None \<or> ns = [] \<Longrightarrow>
    unexcluded root ex (walk_tree (unpruned ctx) pf k t) = (if clean ex ns then walk_tree ctx pf k t else {#})"
proof (induction k arbitrary: t ns)
  case (Suc k)
  have own: "unexcluded root ex (own_visit ctx t) = (if clean ex ns then own_visit ctx t else {#})"
    using Suc.prems(1,3) by (auto simp: own_visit_def root_visit_def root_entry_def names_below_def)
  have "unexcluded root ex (sum_list (map (subtree (walk_tree (unpruned ctx) pf k)) (task_children (unpruned ctx) pf t)))
      = (if clean ex ns then sum_list (map (subtree (walk_tree ctx pf k)) (task_children ctx pf t)) else {#})"
  proof (cases "descend_open ctx pf t True")
    case (Some d)
    have "unexcluded root ex (sum_list (map (subtree (walk_tree (unpruned ctx) pf k))
          (visits (unpruned ctx) d (pf_for_each_entry pf (d_dir d) (t_path t)))))
        = (if clean ex ns then sum_list (map (subtree (walk_tree ctx pf k))
          (visits ctx d (pf_for_each_entry pf (d_dir d) (t_path t)))) else {#})"
    proof (rule unexcluded_visits [OF assms(1) Suc.prems(2)])
      show "leaf_name (fst (snd x)) \<and> fst x = spell root (ns @ [fst (snd x)])"
        if "x \<in> set (pf_for_each_entry pf (d_dir d) (t_path t))" for x
        using assms(2) that Suc.prems(1) by (auto simp: well_named_def)
    qed (rule Suc.IH, use Suc.prems(2) in auto)
    then show ?thesis by (simp add: task_children_def unpruned_same Some)
  qed (simp add: task_children_def unpruned_same)
  then show ?case using own by (simp only: walk_tree.simps unpruned_same unexcluded_simps) simp
qed simp

lemma fits_pruned: "fits (unpruned ctx) pf k t \<Longrightarrow> fits ctx pf k t"
proof (induction k arbitrary: t)
  case (Suc k)
  have "list_all (child_ok (fits ctx pf k)) (visits ctx d xs)"
    if "list_all (child_ok (fits (unpruned ctx) pf k)) (visits (unpruned ctx) d xs)" for d xs
    using that by (induction xs) (auto simp: visits_Cons unpruned_same visits_def split: option.splits intro: Suc.IH)
  then show ?case
    using Suc.prems by (cases "descend_open ctx pf t True") (simp_all add: task_children_def unpruned_same)
qed simp

lemma roots_fit_pruned: "roots_fit (unpruned ctx) pf k roots \<Longrightarrow> roots_fit ctx pf k roots"
  unfolding roots_fit_def list_all_iff by simp (blast intro: fits_pruned)

text \<open>
  C19. \<open>--exclude\<close> is a filter on the names below the starting path: the walk that skips excluded entries and opens
  no excluded directory visits exactly those entries of the walk without \<open>--exclude\<close> of which no name after the
  starting path is excluded, each as often; the starting path itself is never excluded.
\<close>

theorem exclude_is_a_filter:
  assumes "walk_parallel ctx (unix_platform sys) visitor [root] make_visitor s" "ctx_exclude ctx = Some ex"
    and "walk_parallel (ctx\<lparr>ctx_exclude := None\<rparr>) (unix_platform sys) visitor' [root] make_visitor' s'"
    and "roots_fit (ctx\<lparr>ctx_exclude := None\<rparr>) (unix_platform sys) k [root]" "plain_names sys"
    and "\<And>v e st. fst (visitor v e st) = WalkContinue" "\<And>v e st. fst (visitor' v e st) = WalkContinue"
  shows "mset (ws_log s) =
    filter_mset (\<lambda>ev. list_all (\<lambda>n. \<not> ex n) (names_below root (e_path (fst ev)))) (mset (ws_log s'))"
proof -
  let ?pf = "unix_platform sys"
  have "roots_fit ctx ?pf k [root]" using assms(4) by (rule roots_fit_pruned)
  then have "mset (ws_log s) = roots_tree ctx ?pf k [root]"
    using assms(1,6) n_workers_pos unfolding walk_parallel_def by (intro returned_log [where visitor = visitor]) auto
  moreover have "mset (ws_log s') = roots_tree (unpruned ctx) ?pf k [root]"
    using assms(3,4,7) n_workers_pos unfolding walk_parallel_def by (intro returned_log [where visitor = visitor']) auto
  moreover have "unexcluded root ex (walk_tree (unpruned ctx) ?pf k t) = walk_tree ctx ?pf k t"
    if "t \<in> set (root_tasks (ctx_args ctx) ?pf [root])" for t
    using unexcluded_tree [OF assms(2) unix_well_named [OF assms(5)], of t root "[]" k] that
    by (auto simp: root_tasks_def root_task_def map_filter_def split: sum.splits)
  then have "unexcluded root ex (roots_tree (unpruned ctx) ?pf k [root]) = roots_tree ctx ?pf k [root]"
    by (cases "root_task (ctx_args ctx) ?pf root") (simp_all add: roots_tree_def root_tasks_def map_filter_def)
  ultimately show ?thesis by (simp add: unexcluded_def clean_def)
qed

text \<open>The directory \<open>d\<close> is excluded, and with it the file in it.\<close>

theorem exclude_is_a_filter_witness:
  "\<exists>s. walk_parallel (demo_ctx\<lparr>ctx_exclude := Some (\<lambda>n. n = ''d'')\<rparr>) (unix_platform path_sys) keep_going [''r''] (\<lambda>_. ()) s
     \<and> image_mset (\<lambda>ev. e_path (fst ev)) (mset (ws_log s)) = {#''r'', ''r/f''#}"
proof -
  let ?ex = "\<lambda>n. n = ''d''"
  let ?ctx = "demo_ctx\<lparr>ctx_exclude := Some ?ex\<rparr>" and ?pf = "unix_platform path_sys"
  have u: "?ctx\<lparr>ctx_exclude := None\<rparr> = demo_ctx" by (simp add: demo_ctx_def)
  have e: "ctx_exclude ?ctx = Some ?ex" by simp
  have go: "fst (keep_going v e st) = WalkContinue" for v e st by (simp add: keep_going_def)
  obtain s' where s': "walk_parallel demo_ctx ?pf keep_going [''r''] (\<lambda>_. ()) s'" using example_run [OF path_sys_fits] by blast
  have "roots_fit ?ctx ?pf 3 [''r'']"
    by (rule roots_fit_pruned) (simp only: u path_sys_fits)
  from example_run [OF this] obtain s where s: "walk_parallel ?ctx ?pf keep_going [''r''] (\<lambda>_. ()) s" by blast
  let ?ok = "\<lambda>p. list_all (\<lambda>n. \<not> ?ex n) (names_below ''r'' p)"
  have "mset (ws_log s) = filter_mset (\<lambda>ev. ?ok (e_path (fst ev))) (mset (ws_log s'))"
    using exclude_is_a_filter [OF s e, unfolded u, OF s' path_sys_fits path_sys_plain go go] .
  then have "image_mset (\<lambda>ev. e_path (fst ev)) (mset (ws_log s))
      = filter_mset ?ok (image_mset (\<lambda>ev. e_path (fst ev)) (mset (ws_log s')))"
    by (simp add: filter_mset_image_mset)
  also have "\<dots> = {#''r'', ''r/f''#}"
    unfolding path_sys_log [OF s'] by (simp add: names_below_def slashed_def)
  finally show ?thesis using s by blast
qed

end
