(* ===== verification/Interrupt.thy ===== *)
theory Interrupt
  imports Prelude
begin

text \<open>
  The process-wide settings: the termination signals and \<open>SIGPIPE\<close> of \<open>src/interrupt.rs\<close>, and the
  idle scheduling of \<open>src/sched.rs\<close>. The system calls are parameters: an errno or success.
\<close>

section \<open>Signals\<close>

definition STOP_SIGNALS :: "int list" where
  "STOP_SIGNALS = [2, 15, 3, 1, 10, 12]"

text \<open>
  What each signal does: its default action, ignored, or storing \<open>true\<close> in the shutdown flag. The
  disposition of a process is a map from signals.
\<close>

datatype disposition = SigDfl | SigIgn | SetShutdown

text \<open>The loop registers one signal after the other and stops at the first failure.\<close>

fun register_all ::
  "(int \<Rightarrow> int + unit) \<Rightarrow> int list \<Rightarrow> (int \<Rightarrow> disposition) \<Rightarrow> (error + unit) \<times> (int \<Rightarrow> disposition)" where
  "register_all register [] sigs = (Inr (), sigs)"
| "register_all register (sig # rest) sigs =
     (case register sig of
        Inl e \<Rightarrow> (Inl (SignalRegister sig), sigs)
      | Inr _ \<Rightarrow> register_all register rest (sigs(sig := SetShutdown)))"

definition setup_interrupt_handler ::
  "(int \<Rightarrow> int + unit) \<Rightarrow> (int \<Rightarrow> disposition) \<Rightarrow> (error + unit) \<times> (int \<Rightarrow> disposition)" where
  "setup_interrupt_handler register sigs = register_all register STOP_SIGNALS sigs"

definition SIGPIPE :: int where "SIGPIPE = 13"

definition reset_sigpipe :: "(int \<Rightarrow> disposition) \<Rightarrow> (int \<Rightarrow> disposition)" where
  "reset_sigpipe sigs = sigs(SIGPIPE := SigDfl)"

section \<open>Idle scheduling\<close>

text \<open>A libc call returns \<open>-1\<close> for failure; the error is then \<open>errno\<close>.\<close>

definition check_rc :: "int \<times> int \<Rightarrow> int + unit" where
  "check_rc r = (case r of (rc, errno) \<Rightarrow> if rc = - 1 then Inl errno else Inr ())"

definition SCHED_IDLE :: int where "SCHED_IDLE = 5"

definition set_idle_cpu :: "(int \<Rightarrow> int \<Rightarrow> int \<Rightarrow> int \<times> int) \<Rightarrow> int + unit" where
  "set_idle_cpu sched_setscheduler = check_rc (sched_setscheduler 0 SCHED_IDLE 0)"

definition IOPRIO_WHO_PROCESS :: int where "IOPRIO_WHO_PROCESS = 1"
definition IOPRIO_CLASS_IDLE :: "32 word" where "IOPRIO_CLASS_IDLE = 3"
definition IOPRIO_CLASS_SHIFT :: nat where "IOPRIO_CLASS_SHIFT = 13"

definition set_idle_io :: "(int \<Rightarrow> int \<Rightarrow> 32 word \<Rightarrow> int \<times> int) \<Rightarrow> int + unit" where
  "set_idle_io ioprio_set =
     check_rc (ioprio_set IOPRIO_WHO_PROCESS 0 (push_bit IOPRIO_CLASS_SHIFT IOPRIO_CLASS_IDLE))"

definition PRIO_PROCESS :: int where "PRIO_PROCESS = 0"

definition lower_nice :: "(int \<Rightarrow> int \<Rightarrow> int \<Rightarrow> int \<times> int) \<Rightarrow> int + unit" where
  "lower_nice setpriority = check_rc (setpriority PRIO_PROCESS 0 19)"

section \<open>All or a prefix\<close>

lemma register_all_spec:
  "register_all register sigs d =
     (let ok = takeWhile (\<lambda>s. register s = Inr ()) sigs; bad = dropWhile (\<lambda>s. register s = Inr ()) sigs
      in ((case bad of [] \<Rightarrow> Inr () | s # _ \<Rightarrow> Inl (SignalRegister s)),
          (\<lambda>s. if s \<in> set ok then SetShutdown else d s)))"
proof (induction sigs arbitrary: d)
  case (Cons sig rest)
  show ?case
  proof (cases "register sig")
    case (Inr u)
    then show ?thesis by (simp add: Cons Let_def fun_eq_iff)
  qed simp
qed simp

text \<open>
  The termination signals are registered in order up to the first that cannot be, which the error
  names. When all six can, exactly they set the shutdown flag and \<open>SIGPIPE\<close>, reset before, has its
  default action: a closed pipe ends the process, a termination signal only stops the walk.
\<close>

theorem handlers_installed:
  "setup_interrupt_handler register (reset_sigpipe sigs) =
     (case find (\<lambda>s. register s \<noteq> Inr ()) [2, 15, 3, 1, 10, 12] of
        None \<Rightarrow> (Inr (), (\<lambda>s. if s \<in> {1, 2, 3, 10, 12, 15} then SetShutdown else if s = 13 then SigDfl else sigs s))
      | Some bad \<Rightarrow> (Inl (SignalRegister bad),
          (\<lambda>s. if s \<in> set (takeWhile (\<lambda>t. t \<noteq> bad) [2, 15, 3, 1, 10, 12]) then SetShutdown
               else if s = 13 then SigDfl else sigs s)))"
  unfolding setup_interrupt_handler_def register_all_spec reset_sigpipe_def SIGPIPE_def STOP_SIGNALS_def
  by (auto simp: fun_eq_iff Let_def)

end
