(* ===== verification/Run.thy ===== *)
theory Run
  imports Pipeline_Progress Ratelimit Interrupt Args_Correct
begin

text \<open>
  The wiring of the program: the first part of \<open>run\<close> in \<open>src/lib.rs\<close> (signals, pattern sets,
  filters, roots, limiter), \<open>run\<close> as a whole over the pipeline, \<open>raise_nofile_limit\<close>, and
  \<open>main\<close> of \<open>src/main.rs\<close>. What the options mean is stated over the parsed command line.
\<close>

section \<open>Setting up\<close>

record 'g run_env =
  env_register :: "int \<Rightarrow> int + unit"
  env_globs :: "'g globset_lib"
  env_regexes :: regex_lib
  env_clock :: SystemTime

text \<open>Building the pattern sets, in the order of the source, and the captured locals.\<close>

definition build_filters :: "'g run_env \<Rightarrow> Args \<Rightarrow> error + RunFilters \<times> (string \<Rightarrow> bool) option" where
  "build_filters env args =
     and_then (build_glob_set (env_globs env) (a_name args) (a_case_insensitive args)) (\<lambda>glob_name.
     and_then (build_regex_set (env_regexes env) (a_regex args) (a_case_insensitive args)) (\<lambda>regex_name.
     and_then (build_glob_set (env_globs env) (a_path_glob args) (a_case_insensitive args)) (\<lambda>glob_path.
     and_then (build_glob_set (env_globs env) (a_lname args) (a_case_insensitive args)) (\<lambda>glob_lname.
     and_then (build_glob_set (env_globs env) (a_exclude args) (a_case_insensitive args)) (\<lambda>exclude_set.
       Inr (\<lparr>rf_min_depth = (case a_min_depth args of Some d \<Rightarrow> d | None \<Rightarrow> 0),
             rf_filetype = filetype_new (a_file_type args),
             rf_glob_enabled = (a_name args \<noteq> None), rf_glob_name = glob_name,
             rf_regex_enabled = (a_regex args \<noteq> None), rf_regex_name = regex_name,
             rf_path_glob_enabled = (a_path_glob args \<noteq> None), rf_glob_path = glob_path,
             rf_lname_enabled = (a_lname args \<noteq> None), rf_glob_lname = glob_lname,
             rf_predicates = a_meta args, rf_meta_active = is_active (a_meta args),
             rf_meta_mask = predicates_mask (a_meta args), rf_now = now_secs (env_clock env),
             rf_access = a_access args\<rparr>,
            if a_exclude args \<noteq> None then Some exclude_set else None))))))"

definition run_setup ::
  "'g run_env \<Rightarrow> Args \<Rightarrow> (int \<Rightarrow> disposition) \<Rightarrow>
   (error + RunFilters \<times> (string \<Rightarrow> bool) option) \<times> (int \<Rightarrow> disposition)" where
  "run_setup env args sigs =
     (case setup_interrupt_handler (env_register env) sigs of
        (Inl e, sigs) \<Rightarrow> (Inl e, sigs)
      | (Inr _, sigs) \<Rightarrow> (build_filters env args, sigs))"

text \<open>
  \<open>args.path.iter().unique()\<close>: the first of each group of equal paths. \<open>Path\<close>s are compared by
  their components.
\<close>

definition path_key :: "path \<Rightarrow> bool \<times> string list" where
  "path_key p = (p \<noteq> [] \<and> hd p = CHR ''/'', path_components p)"

fun unique_by :: "('a \<Rightarrow> 'k) \<Rightarrow> 'k list \<Rightarrow> 'a list \<Rightarrow> 'a list" where
  "unique_by key seen [] = []"
| "unique_by key seen (x # xs) =
     (if key x \<in> set seen then unique_by key seen xs else x # unique_by key (key x # seen) xs)"

definition unique_paths :: "Args \<Rightarrow> path list" where
  "unique_paths args = unique_by path_key [] (a_path args)"

text \<open>\<open>max_scan_rate.and_then(NonZeroU32::new)\<close>: without a positive rate there is no limiter.\<close>

definition scan_limited :: "Args \<Rightarrow> bool" where
  "scan_limited args = (case a_max_scan_rate args of Some n \<Rightarrow> n \<noteq> 0 | None \<Rightarrow> False)"

definition run_ctx :: "Args \<Rightarrow> (string \<Rightarrow> bool) option \<Rightarrow> WalkCtx" where
  "run_ctx args exclude = \<lparr>ctx_args = args, ctx_limited = scan_limited args, ctx_exclude = exclude\<rparr>"

text \<open>
  The results \<open>run\<close> may have: the error of the setup, before anything is walked, or what the
  pipeline has written when it is done. \<open>stopped\<close>: a termination signal arrived meanwhile.
\<close>

definition run_returns ::
  "'g run_env \<Rightarrow> os_calls \<Rightarrow> 'fd platform \<Rightarrow> Args \<Rightarrow> (int \<Rightarrow> disposition) \<Rightarrow> bool \<Rightarrow> error + string \<Rightarrow> bool" where
  "run_returns env os pf args sigs stopped res =
     (case fst (run_setup env args sigs) of
        Inl e \<Rightarrow> res = Inl e
      | Inr (f, exclude) \<Rightarrow>
          (\<exists>r. pipeline_reach (run_ctx args exclude) pf f os
                 (pipeline_init (run_ctx args exclude) pf (unique_paths args)) r
             \<and> pipeline_done r \<and> pl_shutdown r = stopped \<and> res = Inr (pr_out (pl_printer r))))"

section \<open>The process\<close>

text \<open>\<open>getrlimit\<close>/\<open>setrlimit\<close>: \<open>None\<close> is no limit. \<open>setrlimit\<close> gives the limits after the call, or fails.\<close>

record Rlimit =
  rl_current :: "u64 option"
  rl_maximum :: "u64 option"

definition raise_nofile_limit :: "(Rlimit \<Rightarrow> Rlimit \<Rightarrow> int + Rlimit) \<Rightarrow> Rlimit \<Rightarrow> u64 option \<times> Rlimit" where
  "raise_nofile_limit setrlimit lim =
     (let lim' = (if rl_current lim \<noteq> rl_maximum lim then
                    (case setrlimit lim (lim\<lparr>rl_current := rl_maximum lim\<rparr>) of Inl _ \<Rightarrow> lim | Inr l \<Rightarrow> l)
                  else lim)
      in (rl_current lim', lim'))"

datatype message = Oversubscribed usize usize | NiceFailed int

record main_env =
  me_parallelism :: "usize option"
  me_setrlimit :: "Rlimit \<Rightarrow> Rlimit \<Rightarrow> int + Rlimit"
  me_setpriority :: "int \<Rightarrow> int \<Rightarrow> int \<Rightarrow> int \<times> int"

record main_state =
  ms_stderr :: "message list"
  ms_signals :: "int \<Rightarrow> disposition"
  ms_rlimit :: Rlimit

text \<open>\<open>main\<close> up to the call of \<open>run\<close>.\<close>

definition main_start :: "main_env \<Rightarrow> Args \<Rightarrow> main_state \<Rightarrow> main_state" where
  "main_start env args s =
     (let available = (case me_parallelism env of Some n \<Rightarrow> n | None \<Rightarrow> 2);
          s = (case oversubscription_warning (a_threads args) available of
                 Some (t, a) \<Rightarrow> s\<lparr>ms_stderr := ms_stderr s @ [Oversubscribed t a]\<rparr> | None \<Rightarrow> s);
          s = s\<lparr>ms_signals := reset_sigpipe (ms_signals s)\<rparr>;
          s = s\<lparr>ms_rlimit := snd (raise_nofile_limit (me_setrlimit env) (ms_rlimit s))\<rparr>
      in if a_idle args then
           (case lower_nice (me_setpriority env) of
              Inl e \<Rightarrow> s\<lparr>ms_stderr := ms_stderr s @ [NiceFailed e]\<rparr> | Inr _ \<Rightarrow> s)
         else s)"

definition main_returns ::
  "main_env \<Rightarrow> 'g run_env \<Rightarrow> os_calls \<Rightarrow> 'fd platform \<Rightarrow> Args \<Rightarrow> main_state \<Rightarrow> bool \<Rightarrow> error + string \<Rightarrow> bool" where
  "main_returns menv env os pf args s stopped res =
     run_returns env os pf args (ms_signals (main_start menv args s)) stopped res"

section \<open>Distinct roots\<close>

lemma unique_by_spec:
  "set (unique_by key seen xs) \<subseteq> set xs
   \<and> distinct (map key (unique_by key seen xs))
   \<and> set (map key (unique_by key seen xs)) = set (map key xs) - set seen"
proof (induction xs arbitrary: seen)
  case (Cons x xs)
  show ?case
    using Cons [of seen] Cons [of "key x # seen"] by auto
qed simp

lemma unique_by_keeps_first:
  "key x \<notin> set seen \<Longrightarrow> key x \<notin> set (map key ys) \<Longrightarrow> x \<in> set (unique_by key seen (ys @ x # zs))"
proof (induction ys arbitrary: seen)
  case (Cons y ys)
  then show ?case using Cons.IH [of seen] Cons.IH [of "key y # seen"] by auto
qed simp

lemma unique_by_first:
  "p \<in> set (unique_by key seen xs) \<Longrightarrow>
   \<exists>ys zs. xs = ys @ p # zs \<and> key p \<notin> set (map key ys) \<and> key p \<notin> set seen"
proof (induction xs arbitrary: seen)
  case (Cons x xs)
  have tail: ?case
    if e: "\<exists>ys zs. xs = ys @ p # zs \<and> key p \<notin> set (map key ys) \<and> key p \<notin> set seen" and ne: "key x \<noteq> key p"
  proof -
    obtain ys zs where "xs = ys @ p # zs" "key p \<notin> set (map key ys)" "key p \<notin> set seen" using e by blast
    then show ?thesis using ne by (intro exI [of _ "x # ys"] exI [of _ zs]) auto
  qed
  show ?case
  proof (cases "key x \<in> set seen")
    case True
    then have "p \<in> set (unique_by key seen xs)" using Cons.prems by simp
    note e = Cons.IH [OF this]
    have "key x \<noteq> key p" using e True by auto
    from tail [OF e this] show ?thesis .
  next
    case False
    show ?thesis
    proof (cases "p = x")
      case True
      then show ?thesis using False by (intro exI [of _ "[]"] exI [of _ xs]) simp
    next
      case ne: False
      then have "p \<in> set (unique_by key (key x # seen) xs)" using Cons.prems False by simp
      note e = Cons.IH [OF this]
      have "key x \<noteq> key p" "\<exists>ys zs. xs = ys @ p # zs \<and> key p \<notin> set (map key ys) \<and> key p \<notin> set seen"
        using e by auto
      from tail [OF this(2,1)] show ?thesis .
    qed
  qed
qed simp

text \<open>
  Every starting path is walked once: no two of the roots are equal as paths, each path of the
  command line is equal to one of them, and the one kept is its first spelling.
\<close>

theorem roots_are_distinct:
  "distinct (map path_key (unique_paths args))
   \<and> set (map path_key (unique_paths args)) = set (map path_key (a_path args))
   \<and> set (unique_paths args) = {p. \<exists>ys zs. a_path args = ys @ p # zs \<and> path_key p \<notin> set (map path_key ys)}"
proof -
  have "set (unique_paths args) = {p. \<exists>ys zs. a_path args = ys @ p # zs \<and> path_key p \<notin> set (map path_key ys)}"
  proof (intro set_eqI iffI)
    fix p assume "p \<in> set (unique_paths args)"
    then show "p \<in> {p. \<exists>ys zs. a_path args = ys @ p # zs \<and> path_key p \<notin> set (map path_key ys)}"
      using unique_by_first [of p path_key "[]" "a_path args"] by (auto simp: unique_paths_def)
  next
    fix p assume "p \<in> {p. \<exists>ys zs. a_path args = ys @ p # zs \<and> path_key p \<notin> set (map path_key ys)}"
    then show "p \<in> set (unique_paths args)"
      using unique_by_keeps_first [of path_key p "[]"] unfolding unique_paths_def by auto
  qed
  then show ?thesis using unique_by_spec [of path_key "[]" "a_path args"] by (simp add: unique_paths_def)
qed

section \<open>The descriptor limit\<close>

definition limit_le :: "u64 option \<Rightarrow> u64 option \<Rightarrow> bool" where
  "limit_le a b = (case b of None \<Rightarrow> True | Some y \<Rightarrow> (case a of None \<Rightarrow> False | Some x \<Rightarrow> x \<le> y))"

text \<open>
  The soft limit is never lowered, and it is the hard limit when the call succeeds: this rests on
  \<open>setrlimit\<close> setting what it is asked to.
\<close>

theorem nofile_limit_never_lowered:
  assumes "\<And>l l' l''. setrlimit l l' = Inr l'' \<Longrightarrow> l'' = l'"
    and "limit_le (rl_current lim) (rl_maximum lim)"
  shows "limit_le (rl_current lim) (fst (raise_nofile_limit setrlimit lim))
    \<and> (fst (raise_nofile_limit setrlimit lim) = rl_maximum lim \<or> fst (raise_nofile_limit setrlimit lim) = rl_current lim)"
proof -
  have refl: "limit_le a a" for a by (cases a) (simp_all add: limit_le_def)
  show ?thesis
    using assms(2) refl assms(1) [of lim "lim\<lparr>rl_current := rl_maximum lim\<rparr>"]
    by (cases "setrlimit lim (lim\<lparr>rl_current := rl_maximum lim\<rparr>)")
       (auto simp: raise_nofile_limit_def Let_def)
qed

theorem nofile_limit_never_lowered_witness:
  "limit_le (Some 1024) (fst (raise_nofile_limit (\<lambda>_ l. Inr l) \<lparr>rl_current = Some 1024, rl_maximum = None\<rparr>))"
  using nofile_limit_never_lowered [of "\<lambda>_ l. Inr l" "\<lparr>rl_current = Some 1024, rl_maximum = None\<rparr>"]
  by (simp add: limit_le_def)

section \<open>What the options mean\<close>

text \<open>A pattern option that is given must have compiled, and then decides.\<close>

definition glob_admits :: "'g run_env \<Rightarrow> Args \<Rightarrow> string list option \<Rightarrow> string \<Rightarrow> bool" where
  "glob_admits env args ps s =
     (case ps of None \<Rightarrow> True
      | Some _ \<Rightarrow> (case build_glob_set (env_globs env) ps (a_case_insensitive args) of Inl _ \<Rightarrow> False | Inr g \<Rightarrow> g s))"

definition regex_admits :: "'g run_env \<Rightarrow> Args \<Rightarrow> string \<Rightarrow> bool" where
  "regex_admits env args s =
     (case a_regex args of None \<Rightarrow> True
      | Some ps \<Rightarrow> (case env_regexes env ps (a_case_insensitive args) of Inl _ \<Rightarrow> False | Inr g \<Rightarrow> g s))"

lemma build_filters_fields:
  assumes "build_filters env args = Inr (f, ex)"
  shows "rf_predicates f = a_meta args" "rf_meta_active f = is_active (a_meta args)"
    "rf_meta_mask f = predicates_mask (a_meta args)" "rf_now f = now_secs (env_clock env)"
    "rf_access f = a_access args" "rf_filetype f = filetype_new (a_file_type args)"
    "rf_min_depth f = (case a_min_depth args of Some d \<Rightarrow> d | None \<Rightarrow> 0)"
    "(rf_glob_enabled f \<longrightarrow> rf_glob_name f s) = glob_admits env args (a_name args) s"
    "(rf_regex_enabled f \<longrightarrow> rf_regex_name f s) = regex_admits env args s"
    "(rf_path_glob_enabled f \<longrightarrow> rf_glob_path f s) = glob_admits env args (a_path_glob args) s"
    "(rf_lname_enabled f \<longrightarrow> rf_glob_lname f s) = glob_admits env args (a_lname args) s"
    "rf_lname_enabled f = (a_lname args \<noteq> None)"
    "(case ex of None \<Rightarrow> True | Some x \<Rightarrow> \<not> x s) = (a_exclude args = None \<or> \<not> glob_admits env args (a_exclude args) s)"
  using assms
  by (auto simp: build_filters_def and_then_Inr_iff glob_admits_def regex_admits_def build_regex_set_def
      split: option.split)

definition meets_options ::
  "'g run_env \<Rightarrow> os_calls \<Rightarrow> 'fd platform \<Rightarrow> Args \<Rightarrow> Entry \<Rightarrow> 'fd StatAt \<Rightarrow> bool" where
  "meets_options env os pf args e st \<longleftrightarrow>
     (case a_min_depth args of None \<Rightarrow> True | Some d \<Rightarrow> d \<le> e_depth e)
     \<and> admits (a_file_type args) (e_file_type e)
     \<and> (SelEmpty \<in> set (a_file_type args) \<longrightarrow>
          entry_is_empty (os_read_dir os) (os_metadata_len os) (e_path e) (e_file_type e = Dir))
     \<and> glob_admits env args (a_name args) (entry_file_name e)
     \<and> regex_admits env args (e_path e)
     \<and> glob_admits env args (a_path_glob args) (e_path e)
     \<and> (a_lname args \<noteq> None \<longrightarrow> e_file_type e = Symlink
          \<and> (\<exists>t. stat_readlink pf st = Some t \<and> glob_admits env args (a_lname args) t))
     \<and> (is_active (a_meta args) \<longrightarrow>
          (\<exists>m. stat_fetch pf st (predicates_mask (a_meta args)) = Inr m
             \<and> satisfied (a_meta args) m (now_secs (env_clock env))
             \<and> (p_nouser (a_meta args) \<longrightarrow> nss_user_exists (os_getpwuid os) (m_uid m) = Some False)
             \<and> (p_nogroup (a_meta args) \<longrightarrow> nss_group_exists (os_getgrgid os) (m_gid m) = Some False)))
     \<and> (a_access args \<noteq> 0 \<longrightarrow> stat_access pf st (a_access args))"

lemma keeps_iff_meets_options:
  assumes "build_filters env args = Inr (f, ex)"
  shows "keeps f os pf e st \<longleftrightarrow> meets_options env os pf args e st"
proof -
  note b = build_filters_fields [OF assms]
  have depth: "rf_min_depth f \<le> e_depth e \<longleftrightarrow> (case a_min_depth args of None \<Rightarrow> True | Some d \<Rightarrow> d \<le> e_depth e)"
    by (simp add: b(7) split: option.split)
  have ty: "\<not> ignore_filetype (os_read_dir os) (os_metadata_len os) (rf_filetype f) (e_file_type e) (e_path e) \<longleftrightarrow>
      admits (a_file_type args) (e_file_type e) \<and> (SelEmpty \<in> set (a_file_type args) \<longrightarrow>
        entry_is_empty (os_read_dir os) (os_metadata_len os) (e_path e) (e_file_type e = Dir))"
    using filetype_new_fields(1) [of "e_file_type e" "a_file_type args"]
      filetype_new_fields(2) [of "a_file_type args"] by (auto simp: ignore_filetype_def b(6))
  have lname: "rf_glob_lname f t = glob_admits env args (a_lname args) t" if "a_lname args \<noteq> None" for t
    using b(11) [of t] b(12) that by simp
  have meta: "meta_ok f os pf st \<longleftrightarrow> (\<exists>m. stat_fetch pf st (predicates_mask (a_meta args)) = Inr m
      \<and> satisfied (a_meta args) m (now_secs (env_clock env))
      \<and> (p_nouser (a_meta args) \<longrightarrow> nss_user_exists (os_getpwuid os) (m_uid m) = Some False)
      \<and> (p_nogroup (a_meta args) \<longrightarrow> nss_group_exists (os_getgrgid os) (m_gid m) = Some False))"
    by (simp add: meta_ok_def owner_ok_def b(1,3,4) split: sum.split)
  show ?thesis
    unfolding keeps_def meets_options_def depth ty meta b(2,5,8-10) b(12)
    using lname by blast
qed

text \<open>
  C6. One call of the visitor, while no signal was seen and the channel is open: the entry is added to
  what the worker sends exactly when it meets every option of the command line, otherwise nothing
  changes but the account memo; the walk goes on; and neither the memo nor the order of the cheap and
  the expensive tests has an influence on the verdict.
\<close>

theorem visitor_applies_every_option:
  assumes "build_filters env args = Inr (f, ex)" "wf_predicates (a_meta args)" "lookups_answer os"
    and "nss_ok os (rs_nss v)"
  shows "\<exists>v'. run_visitor f os pf False True v e st = (WalkContinue, v') \<and> nss_ok os (rs_nss v')
    \<and> concat (bs_tx (rs_batch v')) @ bs_buf (rs_batch v')
      = concat (bs_tx (rs_batch v)) @ bs_buf (rs_batch v) @ (if meets_options env os pf args e st then [e] else [])"
proof -
  have wf: "wf_predicates (rf_predicates f)" using assms(2) build_filters_fields(1) [OF assms(1)] by simp
  obtain nss where n: "entry_filter f os pf e st (rs_nss v) = Some (meets_options env os pf args e st, nss)" "nss_ok os nss"
    using entry_filter_decides [OF wf assms(3,4), of pf e st] unfolding keeps_iff_meets_options [OF assms(1)] by blast
  obtain ok b where b: "batch_push True e (rs_batch v) = (ok, b)" by (cases "batch_push True e (rs_batch v)")
  show ?thesis
    using n b batching.push_alive [of e "rs_batch v"]
    by (cases "meets_options env os pf args e st") (simp_all add: run_visitor_def)
qed

section \<open>A whole run\<close>

definition matching :: "'g run_env \<Rightarrow> os_calls \<Rightarrow> 'fd platform \<Rightarrow> Args \<Rightarrow> (Entry \<times> 'fd StatAt) multiset \<Rightarrow> Entry multiset" where
  "matching env os pf args M = image_mset fst (filter_mset (\<lambda>ev. meets_options env os pf args (fst ev) (snd ev)) M)"

lemma kept_matching: "build_filters env args = Inr (f, ex) \<Longrightarrow> kept f os pf M = matching env os pf args M"
  by (simp add: kept_def matching_def keeps_iff_meets_options)

lemma setup_filters: "fst (run_setup env args sigs) = Inr (f, ex) \<Longrightarrow> build_filters env args = Inr (f, ex)"
  by (auto simp: run_setup_def split: prod.splits sum.splits)

lemma accepted_filters_ok:
  assumes "args_ok penv args" "build_filters env args = Inr (f, ex)" "lookups_answer os"
  shows "filters_ok f os"
  using assms build_filters_fields(1) [OF assms(2)] by (simp add: filters_ok_def args_ok_def)

lemma run_returns_Inr:
  assumes "run_returns env os pf args sigs stopped (Inr out)" "fst (run_setup env args sigs) = Inr (f, ex)"
  obtains r where "pipeline_reach (run_ctx args ex) pf f os (pipeline_init (run_ctx args ex) pf (unique_paths args)) r"
    "pipeline_done r" "pl_shutdown r = stopped" "out = pr_out (pl_printer r)"
  using assms by (auto simp: run_returns_def)

lemma whole_run:
  assumes "args_ok penv args" "lookups_answer os"
    and "fst (run_setup env args sigs) = Inr (f, ex)"
    and "run_returns env os pf args sigs stopped (Inr out)"
    and "roots_fit (run_ctx args ex) pf k (unique_paths args)"
  shows "\<exists>es. out = concat (map (output_line (print_separator args)) es)
    \<and> mset es \<subseteq># matching env os pf args (roots_tree (run_ctx args ex) pf k (unique_paths args))
    \<and> (\<not> stopped \<longrightarrow> length es = (case max_results_cap args of
          None \<Rightarrow> size (matching env os pf args (roots_tree (run_ctx args ex) pf k (unique_paths args)))
        | Some n \<Rightarrow> min (unat n) (size (matching env os pf args (roots_tree (run_ctx args ex) pf k (unique_paths args))))))"
proof -
  note b = setup_filters [OF assms(3)]
  obtain r where r: "pipeline_reach (run_ctx args ex) pf f os (pipeline_init (run_ctx args ex) pf (unique_paths args)) r"
    "pipeline_done r" "pl_shutdown r = stopped" "out = pr_out (pl_printer r)"
    by (rule run_returns_Inr [OF assms(4,3)])
  note inv = run_invariant [OF r(1) assms(5) accepted_filters_ok [OF assms(1) b assms(2)]]
  have c: "ctx_args (run_ctx args ex) = args" by (simp add: run_ctx_def)
  note out = run_output [OF inv, unfolded c]
    and sub = printed_in_tree [OF inv, unfolded kept_matching [OF b]]
    and len = finished_size [OF inv r(2), unfolded r(3) c kept_matching [OF b]]
  show ?thesis unfolding r(4) using out sub len by blast
qed

lemma run_exists:
  assumes "args_ok penv args" "lookups_answer os"
    and "fst (run_setup env args sigs) = Inr (f, ex)"
    and "roots_fit (run_ctx args ex) pf k (unique_paths args)"
  shows "\<exists>out. run_returns env os pf args sigs False (Inr out)"
proof -
  note ok = accepted_filters_ok [OF assms(1) setup_filters [OF assms(3)] assms(2)]
  from pipeline_can_finish [OF pipeline_inv_init [OF assms(4)] ok]
  obtain r where "pipeline_reach (run_ctx args ex) pf f os (pipeline_init (run_ctx args ex) pf (unique_paths args)) r"
    "pl_shutdown r = pl_shutdown (pipeline_init (run_ctx args ex) pf (unique_paths args))" "pipeline_done r"
    by blast
  then show ?thesis using assms(3) by (auto simp: run_returns_def pipeline_init_def)
qed

end
