(* ===== verification/Tuning.thy ===== *)
theory Tuning
  imports Run
begin

text \<open>
  The options that only change how a run goes about its work, and the errors it can end with before
  any work is done.
\<close>

section \<open>What the tree depends on\<close>

text \<open>
  The options of speed and of presentation: the number of threads, \<open>--idle\<close>, the scan rate, and the
  separator. They are what two command lines may differ in here.
\<close>

definition retuned :: "Args \<Rightarrow> usize \<Rightarrow> bool \<Rightarrow> 32 word option \<Rightarrow> bool \<Rightarrow> Args" where
  "retuned args n idle rate null =
     args\<lparr>a_threads := n, a_idle := idle, a_max_scan_rate := rate, a_null := null\<rparr>"

lemma retuned_fields [simp]:
  "a_max_depth (retuned args n i r z) = a_max_depth args" "a_min_depth (retuned args n i r z) = a_min_depth args"
  "a_follow_symlinks (retuned args n i r z) = a_follow_symlinks args"
  "a_one_filesystem (retuned args n i r z) = a_one_filesystem args"
  "a_max_results (retuned args n i r z) = a_max_results args" "a_path (retuned args n i r z) = a_path args"
  "a_name (retuned args n i r z) = a_name args" "a_regex (retuned args n i r z) = a_regex args"
  "a_path_glob (retuned args n i r z) = a_path_glob args" "a_lname (retuned args n i r z) = a_lname args"
  "a_exclude (retuned args n i r z) = a_exclude args" "a_access (retuned args n i r z) = a_access args"
  "a_meta (retuned args n i r z) = a_meta args" "a_file_type (retuned args n i r z) = a_file_type args"
  "a_case_insensitive (retuned args n i r z) = a_case_insensitive args" "a_null (retuned args n i r z) = z"
  by (simp_all add: retuned_def)

lemma retuned_children:
  fixes pf :: "'f platform" and t :: "'f Task"
  shows "task_children (run_ctx (retuned args n i r z) ex) pf t = task_children (run_ctx args ex) pf t"
  "own_visit (run_ctx (retuned args n i r z) ex) t = own_visit (run_ctx args ex) t"
  "root_tasks (ctx_args (run_ctx (retuned args n i r z) ex)) pf roots = root_tasks (ctx_args (run_ctx args ex)) pf roots"
proof -
  let ?c = "run_ctx (retuned args n i r z) ex" and ?d = "run_ctx args ex"
  have a: "ctx_args ?c = retuned args n i r z" "ctx_args ?d = args" "ctx_exclude ?c = ctx_exclude ?d"
    by (simp_all add: run_ctx_def)
  have into: "descends_into ty (ctx_args ?c) = descends_into ty (ctx_args ?d)" for ty
    by (cases ty) (simp_all add: descends_into_def a)
  have "descend_open ?c pf t True = descend_open ?d pf t True"
    unfolding descend_open_def a retuned_fields by simp
  moreover have "visits ?c d xs = visits ?d d xs" for d :: "'f descent" and xs
    using into by (simp add: visits_def child_visit_def child_task_def excluded_def a fun_eq_iff)
  ultimately show "task_children ?c pf t = task_children ?d pf t" by (simp add: task_children_def split: option.split)
  show "own_visit ?c t = own_visit ?d t" by (simp add: own_visit_def root_visit_def a)
  have "root_task (ctx_args ?c) pf = root_task (ctx_args ?d) pf"
    by (simp add: root_task_def fun_eq_iff a)
  then show "root_tasks (ctx_args ?c) pf roots = root_tasks (ctx_args ?d) pf roots"
    by (simp only: root_tasks_def)
qed

lemma retuned_tree:
  "roots_tree (run_ctx (retuned args n i r z) ex) pf k roots = roots_tree (run_ctx args ex) pf k roots"
proof -
  have "walk_tree (run_ctx (retuned args n i r z) ex) pf k = walk_tree (run_ctx args ex) pf k"
  proof (induction k)
    case (Suc k)
    show ?case by (rule ext) (simp only: walk_tree.simps retuned_children Suc)
  qed (simp add: fun_eq_iff)
  then show ?thesis by (simp add: roots_tree_def retuned_children)
qed

lemma retuned_fits:
  "roots_fit (run_ctx (retuned args n i r z) ex) pf k roots = roots_fit (run_ctx args ex) pf k roots"
proof -
  have "fits (run_ctx (retuned args n i r z) ex) pf k = fits (run_ctx args ex) pf k"
  proof (induction k)
    case (Suc k)
    show ?case by (rule ext) (simp only: fits.simps retuned_children Suc)
  qed (simp add: fun_eq_iff)
  then show ?thesis by (simp add: roots_fit_def retuned_children)
qed

lemma retuned_filters: "build_filters env (retuned args n i r z) = build_filters env args"
  by (simp add: build_filters_def)

lemma retuned_matching: "matching env os pf (retuned args n i r z) M = matching env os pf args M"
proof -
  have "glob_admits env (retuned args n i r z) = glob_admits env args"
    "regex_admits env (retuned args n i r z) = regex_admits env args"
    unfolding fun_eq_iff glob_admits_def regex_admits_def retuned_fields by simp_all
  then show ?thesis unfolding matching_def meets_options_def retuned_fields by simp
qed


section \<open>How a run can fail\<close>

definition error_of :: "error + 'a \<Rightarrow> error list" where
  "error_of r = (case r of Inl e \<Rightarrow> [e] | Inr _ \<Rightarrow> [])"

lemma error_of_simps [simp]: "error_of (Inl e) = [e]" "error_of (Inr x) = []"
  by (simp_all add: error_of_def)

text \<open>What can go wrong, in the order in which \<open>run\<close> tries it.\<close>

definition pattern_errors :: "'g run_env \<Rightarrow> Args \<Rightarrow> error list" where
  "pattern_errors env args =
     (let globs = (\<lambda>ps. error_of (build_glob_set (env_globs env) ps (a_case_insensitive args))) in
      globs (a_name args)
      @ error_of (build_regex_set (env_regexes env) (a_regex args) (a_case_insensitive args))
      @ globs (a_path_glob args) @ globs (a_lname args) @ globs (a_exclude args))"

definition setup_errors :: "'g run_env \<Rightarrow> Args \<Rightarrow> (int \<Rightarrow> disposition) \<Rightarrow> error list" where
  "setup_errors env args sigs =
     error_of (fst (setup_interrupt_handler (env_register env) sigs)) @ pattern_errors env args"

abbreviation starts_with :: "'a list \<Rightarrow> 'a \<Rightarrow> bool" where
  "starts_with xs x \<equiv> xs \<noteq> [] \<and> hd xs = x"

lemma build_filters_error: "build_filters env args = Inl e \<longleftrightarrow> starts_with (pattern_errors env args) e"
proof -
  let ?g = "\<lambda>ps. build_glob_set (env_globs env) ps (a_case_insensitive args)"
  let ?r = "build_regex_set (env_regexes env) (a_regex args) (a_case_insensitive args)"
  show ?thesis
    unfolding build_filters_def pattern_errors_def Let_def
    by (cases "?g (a_name args)"; cases ?r; cases "?g (a_path_glob args)"; cases "?g (a_lname args)";
        cases "?g (a_exclude args)") simp_all
qed

lemma run_setup_error: "fst (run_setup env args sigs) = Inl e \<longleftrightarrow> starts_with (setup_errors env args sigs) e"
proof (cases "setup_interrupt_handler (env_register env) sigs")
  case (Pair r sigs')
  then show ?thesis by (cases r) (simp_all add: run_setup_def setup_errors_def build_filters_error)
qed

text \<open>
  C26. How \<open>run\<close> can fail. It has an error exactly when something of its setup has one, and then it is the
  first: of the six signals, in their order, the one that cannot be registered, and then of the patterns those of
  \<open>--name\<close>, \<open>--regex\<close>, \<open>--path\<close>, \<open>--lname\<close>, \<open>--exclude\<close>, in that order. So a run that has begun to walk has no
  error to return, and a run that has an error has not printed anything.
\<close>

theorem run_fails_in_setup_only:
  "run_returns env os pf args sigs stopped (Inl e) \<longleftrightarrow>
     (let globs = (\<lambda>ps. error_of (build_glob_set (env_globs env) ps (a_case_insensitive args)));
          errors = map SignalRegister (filter (\<lambda>s. env_register env s \<noteq> Inr ()) [2, 15, 3, 1, 10, 12])
            @ globs (a_name args)
            @ error_of (build_regex_set (env_regexes env) (a_regex args) (a_case_insensitive args))
            @ globs (a_path_glob args) @ globs (a_lname args) @ globs (a_exclude args)
      in errors \<noteq> [] \<and> hd errors = e)"
proof -
  have signals: "error_of (fst (register_all reg ss d)) = take 1 (map SignalRegister (filter (\<lambda>s. reg s \<noteq> Inr ()) ss))"
    for reg :: "int \<Rightarrow> int + unit" and ss d
  proof (induction ss arbitrary: d)
    case (Cons s ss)
    then show ?case by (cases "reg s") simp_all
  qed simp
  have "run_returns env os pf args sigs stopped (Inl e) \<longleftrightarrow> fst (run_setup env args sigs) = Inl e"
    by (auto simp: run_returns_def split: sum.split)
  then show ?thesis
    by (cases "filter (\<lambda>s. env_register env s \<noteq> Inr ()) STOP_SIGNALS")
       (simp_all add: run_setup_error setup_errors_def pattern_errors_def Let_def setup_interrupt_handler_def signals
          STOP_SIGNALS_def [symmetric])
qed

end
