(* ===== verification/Run_Example.thy ===== *)
theory Run_Example
  imports Run Quitting Paths Tuning Walk_Example
begin

text \<open>
  Concrete runs on which the theorems about the pipeline are instantiated: the file system and command
  line of \<open>Walk_Example\<close> with a visitor that keeps everything, and a whole command line
  \<open>minifind -type f .\<close> over a small tree. Finished runs exist by \<open>run_exists\<close>.
\<close>

definition quiet_os :: os_calls where
  "quiet_os =
     \<lparr>os_read_dir = (\<lambda>_. Inl 2), os_metadata_len = (\<lambda>_. Inl 2),
      os_getpwuid = (\<lambda>_ _. (0, None)), os_getgrgid = (\<lambda>_ _. (0, None))\<rparr>"

lemma quiet_lookups: "lookups_answer quiet_os"
  by (simp add: lookups_answer_def quiet_os_def nss_user_exists_def nss_group_exists_def nss_retry_round_0 ERANGE_def)

definition demo_env :: "string run_env" where
  "demo_env =
     \<lparr>env_register = (\<lambda>_. Inr ()), env_globs = literal_globs, env_regexes = (\<lambda>_ _. Inr (\<lambda>_. False)),
      env_clock = \<lparr>st_secs = 100, st_nanos = 0\<rparr>\<rparr>"

section \<open>Everything kept\<close>

definition capped_args :: Args where
  "capped_args = demo_args\<lparr>a_max_results := Some 2\<rparr>"

definition keep_all :: RunFilters where
  "keep_all =
     \<lparr>rf_min_depth = 0, rf_filetype = filetype_new [SelDirectory, SelFile, SelSymlink],
      rf_glob_enabled = False, rf_glob_name = (\<lambda>_. False), rf_regex_enabled = False, rf_regex_name = (\<lambda>_. False),
      rf_path_glob_enabled = False, rf_glob_path = (\<lambda>_. False), rf_lname_enabled = False,
      rf_glob_lname = (\<lambda>_. False), rf_predicates = default_predicates, rf_meta_active = False,
      rf_meta_mask = 0, rf_now = 0, rf_access = 0\<rparr>"

lemma keep_all_ok: "filters_ok keep_all quiet_os"
  by (simp add: filters_ok_def keep_all_def quiet_lookups)

lemma keep_all_keeps: "e_file_type e \<in> {Dir, File, Symlink} \<Longrightarrow> keeps keep_all quiet_os pf e st"
  using filetype_new_fields(1) [of "e_file_type e" "[SelDirectory, SelFile, SelSymlink]"]
    filetype_new_fields(2) [of "[SelDirectory, SelFile, SelSymlink]"]
  by (auto simp: keeps_def keep_all_def ignore_filetype_def admits_def)

definition capped_ctx :: WalkCtx where
  "capped_ctx = run_ctx capped_args None"

lemma capped_ctx_eq: "capped_ctx = demo_ctx\<lparr>ctx_args := capped_args\<rparr>"
  by (simp add: capped_ctx_def run_ctx_def demo_ctx_def scan_limited_def capped_args_def demo_args_def)

lemmas capped_eval = demo_eval capped_ctx_eq capped_args_def

lemma capped_roots: "root_tasks (ctx_args capped_ctx) demo_pf [''r''] =
    [\<lparr>t_path = ''r'', t_parent = None, t_follow = True, t_depth = 0, t_root_dev = 1, t_ancestors = None\<rparr>]"
  by (simp add: root_tasks_def root_task_def demo_defs capped_ctx_eq capped_args_def List.map_filter_def)

lemma capped_fits: "roots_fit capped_ctx demo_pf 3 [''r'']"
  unfolding roots_fit_def capped_roots by (simp add: capped_eval eval_nat_numeral)

lemma capped_tree: "roots_tree capped_ctx demo_pf 3 [''r''] =
    {#demo_root ''r'', demo_child ''r'' ''f'' File 1, demo_child ''r'' ''d'' Dir 1,
      demo_child ''r/d'' ''g'' File 2, demo_child ''r/d'' ''l'' Symlink 2#}"
  unfolding roots_tree_def capped_roots by (simp add: capped_eval eval_nat_numeral)

lemma capped_kept: "size (kept keep_all quiet_os demo_pf (roots_tree capped_ctx demo_pf 3 [''r''])) = 5"
  unfolding capped_tree by (simp add: keep_all_keeps)

lemma capped_run:
  obtains r where "pipeline_reach capped_ctx demo_pf keep_all quiet_os (pipeline_init capped_ctx demo_pf [''r'']) r"
    "pipeline_done r" "\<not> pl_shutdown r"
  using pipeline_can_finish [OF pipeline_inv_init [OF capped_fits] keep_all_ok]
  by (auto simp: pipeline_init_def)

theorem capped_run_prints_enough_witness:
  "\<exists>r es. pipeline_reach capped_ctx demo_pf keep_all quiet_os (pipeline_init capped_ctx demo_pf [''r'']) r
    \<and> pipeline_done r \<and> pr_out (pl_printer r) = concat (map (\<lambda>e. e_path e @ [CHR 0x0A]) (es :: Entry list))
    \<and> length es = 2"
proof -
  obtain r where r: "pipeline_reach capped_ctx demo_pf keep_all quiet_os (pipeline_init capped_ctx demo_pf [''r'']) r"
    "pipeline_done r" "\<not> pl_shutdown r" by (rule capped_run)
  have c: "a_max_results (ctx_args capped_ctx) = Some 2" "print_separator (ctx_args capped_ctx) = CHR 0x0A"
    by (simp_all add: capped_ctx_eq capped_args_def print_separator_def demo_args_def)
  have pos: "(0 :: usize) < 2" by simp
  obtain es :: "Entry list" where "pr_out (pl_printer r) = concat (map (\<lambda>e. e_path e @ [CHR 0x0A]) es)" "length es = min (unat (2 :: usize)) 5"
    using capped_run_prints_enough [OF r c(1) pos capped_fits keep_all_ok] unfolding capped_kept c(2) by blast
  moreover have "min (unat (2 :: usize)) 5 = 2" by simp
  ultimately show ?thesis using r(1,2) by metis
qed

theorem output_is_always_matches_witness:
  "\<exists>r es. pipeline_reach capped_ctx demo_pf keep_all quiet_os (pipeline_init capped_ctx demo_pf [''r'']) r
    \<and> pipeline_done r \<and> pr_out (pl_printer r) = concat (map (\<lambda>e. e_path e @ [CHR 0x0A]) es)
    \<and> mset es \<subseteq># {#fst (demo_root ''r''), fst (demo_child ''r'' ''f'' File 1), fst (demo_child ''r'' ''d'' Dir 1),
        fst (demo_child ''r/d'' ''g'' File 2), fst (demo_child ''r/d'' ''l'' Symlink 2)#}"
proof -
  obtain r where r: "pipeline_reach capped_ctx demo_pf keep_all quiet_os (pipeline_init capped_ctx demo_pf [''r'']) r"
    "pipeline_done r" "\<not> pl_shutdown r" by (rule capped_run)
  have sep: "print_separator (ctx_args capped_ctx) = CHR 0x0A"
    by (simp add: capped_ctx_eq capped_args_def print_separator_def demo_args_def)
  from output_is_always_matches [OF r(1) capped_fits keep_all_ok] obtain es where
    "pr_out (pl_printer r) = concat (map (\<lambda>e. e_path e @ [CHR 0x0A]) es)"
    "mset es \<subseteq># kept keep_all quiet_os demo_pf (roots_tree capped_ctx demo_pf 3 [''r''])" unfolding sep by blast
  with r show ?thesis unfolding capped_tree by (auto simp: keep_all_keeps)
qed

theorem memory_is_bounded_witness:
  "\<exists>r. pipeline_reach capped_ctx demo_pf keep_all quiet_os (pipeline_init capped_ctx demo_pf [''r'']) r
    \<and> pipeline_done r \<and> length (pl_queue r) \<le> 8"
proof -
  obtain r where r: "pipeline_reach capped_ctx demo_pf keep_all quiet_os (pipeline_init capped_ctx demo_pf [''r'']) r"
    "pipeline_done r" "\<not> pl_shutdown r" by (rule capped_run)
  have "chan_capacity (ctx_args capped_ctx) = 8"
    by (simp add: chan_capacity_def CHAN_MULT_def capped_ctx_eq capped_args_def demo_args_def)
  then have "length (pl_queue r) \<le> 8" using memory_is_bounded [OF r(1)] by simp
  with r show ?thesis by blast
qed

theorem run_can_always_return_witness:
  "\<exists>r. pipeline_reach capped_ctx demo_pf keep_all quiet_os (pipeline_init capped_ctx demo_pf [''r'']) r \<and> pipeline_done r"
  by (rule run_can_always_return [OF pl_start capped_fits keep_all_ok])

text \<open>A limit of 2 with 5 matches: all 5 entries are visited.\<close>

theorem few_results_walk_everything_witness:
  "\<exists>r. pipeline_reach capped_ctx demo_pf keep_all quiet_os (pipeline_init capped_ctx demo_pf [''r'']) r
    \<and> pipeline_done r \<and> max_results_cap (ctx_args capped_ctx) = Some 2 \<and> length (ws_log (pl_walk r)) = 5"
proof -
  obtain r where r: "pipeline_reach capped_ctx demo_pf keep_all quiet_os (pipeline_init capped_ctx demo_pf [''r'']) r"
    "pipeline_done r" "\<not> pl_shutdown r" by (rule capped_run)
  have few: "size (kept keep_all quiet_os demo_pf (roots_tree capped_ctx demo_pf 3 [''r''])) < 256"
    unfolding capped_kept by simp
  have "size (mset (ws_log (pl_walk r))) = 5"
    unfolding few_results_walk_everything [OF r capped_fits keep_all_ok few] capped_tree by simp
  moreover have "max_results_cap (ctx_args capped_ctx) = Some 2"
    by (simp add: max_results_cap_def capped_ctx_eq capped_args_def)
  ultimately show ?thesis using r(1,2) by auto
qed

text \<open>A signal before the first step: the walk returns after the root at most.\<close>

theorem shutdown_is_prompt_witness:
  "\<exists>s. walk_reach capped_ctx demo_pf (run_visitor keep_all quiet_os demo_pf True True) 2
        (pl_walk (pipeline_init capped_ctx demo_pf [''r''])) s
    \<and> walk_returned 2 s \<and> length (ws_log s) \<le> 1"
proof -
  let ?r = "pipeline_init capped_ctx demo_pf [''r'']" and ?v = "run_visitor keep_all quiet_os demo_pf True True"
  have n: "n_workers (ctx_args capped_ctx) = 2"
    by (simp add: n_workers_def capped_ctx_eq capped_args_def demo_args_def)
  have ok: "walk_ok capped_ctx demo_pf 3 (roots_tree capped_ctx demo_pf 3 [''r'']) (pl_walk ?r)"
    unfolding pipeline_init_def by (simp add: walk_ok_init [OF capped_fits])
  obtain s where s: "walk_reach capped_ctx demo_pf ?v (n_workers (ctx_args capped_ctx)) (pl_walk ?r) s" "walk_returned 2 s"
    using can_finish [where n = 2 and ctx = capped_ctx and s = "pl_walk ?r" and visitor = ?v] ok
    unfolding walk_ok_def n by fastforce
  have "ws_log (pl_walk ?r) = []" "ws_pending (pl_walk ?r) = 1"
    unfolding pipeline_init_def walk_init_def capped_roots by simp_all
  then have "length (ws_log s) \<le> 1"
    using shutdown_is_prompt [OF pl_start capped_fits keep_all_ok s(1)] by simp
  with s n show ?thesis by auto
qed

text \<open>The system calls of \<open>Unix\<close>: the root and the entries of its stream, each printed once.\<close>

theorem no_path_printed_twice_witness:
  "\<exists>r es. pipeline_reach demo_unix_ctx (unix_platform demo_sys) keep_all quiet_os
        (pipeline_init demo_unix_ctx (unix_platform demo_sys) [''r'']) r
    \<and> pipeline_done r \<and> distinct (map e_path (es :: Entry list))
    \<and> pr_out (pl_printer r) = concat (map (\<lambda>e. e_path e @ [CHR 0x0A]) es)"
proof -
  let ?pf = "unix_platform demo_sys"
  have fit: "roots_fit demo_unix_ctx ?pf (Suc (unat (1 :: usize))) [''r'']"
    by (rule roots_fit_max_depth) (simp add: demo_unix_ctx_def)
  have once: "names_once demo_sys"
    by (auto simp: names_once_def demo_sys_def)
  have sep: "print_separator (ctx_args demo_unix_ctx) = CHR 0x0A"
    by (simp add: demo_unix_ctx_def print_separator_def)
  obtain r where r: "pipeline_reach demo_unix_ctx ?pf keep_all quiet_os (pipeline_init demo_unix_ctx ?pf [''r'']) r"
    "pipeline_done r"
    using pipeline_can_finish [OF pipeline_inv_init [OF fit] keep_all_ok] by blast
  from no_path_printed_twice [OF r(1) fit keep_all_ok once, unfolded sep] r show ?thesis by blast
qed

section \<open>Output that can be taken apart\<close>

definition null_args :: Args where
  "null_args = demo_args\<lparr>a_null := True, a_max_results := Some 2\<rparr>"

theorem null_output_splits_back_witness:
  "split_on (CHR 0x00) (pr_out (snd (print_thread (print_separator null_args) (max_results_cap null_args)
      [[\<lparr>e_path = [CHR ''a'', CHR 0x0A], e_file_type = File, e_depth = 1\<rparr>],
       [\<lparr>e_path = ''b'', e_file_type = File, e_depth = 1\<rparr>, \<lparr>e_path = ''c'', e_file_type = File, e_depth = 1\<rparr>]]
      printer_start))) = [[CHR ''a'', CHR 0x0A], ''b'', []]"
proof -
  have "a_null null_args" "max_results_cap null_args = Some 2"
    by (simp_all add: null_args_def max_results_cap_def)
  then show ?thesis by (subst null_output_splits_back) (simp_all add: first_results_def)
qed

section \<open>A command line\<close>

definition work_argv :: "osstring list" where
  "work_argv = [''minifind'', ''-type'', ''f'', ''.'']"

definition work_args :: Args where
  "work_args =
     \<lparr>a_follow_symlinks = False, a_one_filesystem = True, a_threads = 8, a_idle = False,
      a_max_depth = None, a_min_depth = None, a_max_scan_rate = None, a_max_results = None,
      a_name = None, a_regex = None, a_case_insensitive = False, a_file_type = [SelFile],
      a_meta = default_predicates, a_path_glob = None, a_lname = None, a_access = 0,
      a_exclude = None, a_null = False, a_path = [''/work'']\<rparr>"

lemma work_parse: "parse_inner simple_lexopt simple_env work_argv = Some (Some (Inr (Run work_args)))"
  by (simp add: work_argv_def parse_inner_def parse_loop.simps [of simple_lexopt] simple_env_def
      normalize_arg_def find_aliases_def handle_arg_def classify_def arm_table_def with_str_def
      val_str_def lx_val_def parse_file_type_def parse_paths_def initial_locals_def finish_def
      work_args_def default_threads_def then_some_def)

definition work_pf :: "string platform" where
  "work_pf =
     \<lparr>pf_path_id = (\<lambda>p. if p = ''/work'' then Inr (1, 1) else Inl 2),
      pf_open_root = (\<lambda>p _. Inr p), pf_open_child = (\<lambda>_ _ p _. Inr p),
      pf_dir_id = (\<lambda>fd. if fd = ''/work'' then Inr (1, 1) else Inr (1, 2)),
      pf_for_each_entry = (\<lambda>fd p.
        if fd = ''/work'' then [(''/work/a'', ''a'', File), (''/work/d'', ''d'', Dir)]
        else if fd = ''/work/d'' then [(''/work/d/b'', ''b'', File)] else []),
      pf_stat_at = (\<lambda>_ _ _ _. Inl 2), pf_stat_root = (\<lambda>_ _ _. Inl 2),
      pf_access_at = (\<lambda>_ _ _. True), pf_access_root = (\<lambda>_ _. True),
      pf_readlink_at = (\<lambda>_ _. None), pf_readlink_root = (\<lambda>_. None)\<rparr>"

lemma work_setup: "\<exists>f. fst (run_setup demo_env work_args (\<lambda>_. SigDfl)) = Inr (f, None)"
  by (simp add: run_setup_def setup_interrupt_handler_def STOP_SIGNALS_def demo_env_def build_filters_def
      build_glob_set_def build_regex_set_def literal_globs_def work_args_def)

lemma work_unique: "unique_paths work_args = [''/work'']"
  by (simp add: unique_paths_def work_args_def)

lemmas work_eval = work_pf_def work_args_def run_ctx_def task_children_def descend_open_def open_task_def visits_def
  excluded_def child_task_def child_entry_def descends_into_def own_visit_def root_entry_def
  root_visit_def child_visit_def scan_limited_def

lemma work_roots: "root_tasks work_args work_pf [''/work''] =
    [\<lparr>t_path = ''/work'', t_parent = None, t_follow = True, t_depth = 0, t_root_dev = 1, t_ancestors = None\<rparr>]"
  by (simp add: root_tasks_def root_task_def work_pf_def work_args_def List.map_filter_def)

lemma work_fits: "roots_fit (run_ctx work_args None) work_pf 3 (unique_paths work_args)"
proof -
  have c: "ctx_args (run_ctx work_args None) = work_args" by (simp add: run_ctx_def)
  show ?thesis unfolding roots_fit_def work_unique c work_roots by (simp add: work_eval eval_nat_numeral)
qed

abbreviation work_entry :: "path \<Rightarrow> EntryType \<Rightarrow> usize \<Rightarrow> Entry" where
  "work_entry p ty d \<equiv> \<lparr>e_path = p, e_file_type = ty, e_depth = d\<rparr>"

lemma work_tree: "roots_tree (run_ctx work_args None) work_pf 3 (unique_paths work_args) =
    {#(work_entry ''/work'' Dir 0, stat_root ''/work'' False),
      (work_entry ''/work/a'' File 1, stat_child ''/work'' ''a'' False),
      (work_entry ''/work/d'' Dir 1, stat_child ''/work'' ''d'' False),
      (work_entry ''/work/d/b'' File 2, stat_child ''/work/d'' ''b'' False)#}"
proof -
  have c: "ctx_args (run_ctx work_args None) = work_args" by (simp add: run_ctx_def)
  show ?thesis unfolding roots_tree_def work_unique c work_roots by (simp add: work_eval eval_nat_numeral)
qed

lemma work_meets: "meets_options demo_env quiet_os work_pf work_args e st \<longleftrightarrow> e_file_type e = File"
  by (cases "e_file_type e")
     (simp_all add: meets_options_def work_args_def glob_admits_def regex_admits_def admits_def is_active_def
        default_predicates_def)

lemma work_matching: "matching demo_env quiet_os work_pf work_args
      (roots_tree (run_ctx work_args None) work_pf 3 (unique_paths work_args)) =
    {#work_entry ''/work/a'' File 1, work_entry ''/work/d/b'' File 2#}"
  unfolding work_tree matching_def work_meets by simp

theorem visitor_applies_every_option_witness:
  "\<exists>f v'. build_filters demo_env work_args = Inr (f, None)
    \<and> run_visitor f quiet_os work_pf False True make_run_state (work_entry ''/work/a'' File 1)
        (stat_child ''/work'' ''a'' False) = (WalkContinue, v')
    \<and> bs_buf (rs_batch v') = [work_entry ''/work/a'' File 1]"
proof -
  obtain f where "fst (run_setup demo_env work_args (\<lambda>_. SigDfl)) = Inr (f, None)" using work_setup by blast
  then have b: "build_filters demo_env work_args = Inr (f, None)" by (rule setup_filters)
  have wf: "wf_predicates (a_meta work_args)" by (simp add: work_args_def)
  have ok: "nss_ok quiet_os (rs_nss make_run_state)" by (simp add: make_run_state_def)
  let ?e = "work_entry ''/work/a'' File 1" and ?st = "stat_child ''/work'' ''a'' False :: string StatAt"
  obtain v' where v: "run_visitor f quiet_os work_pf False True make_run_state ?e ?st = (WalkContinue, v')"
    "concat (bs_tx (rs_batch v')) @ bs_buf (rs_batch v') = [?e]"
    using visitor_applies_every_option [OF b wf quiet_lookups ok, of work_pf ?e ?st]
    by (auto simp: work_meets make_run_state_def batch_new_def)
  have "bs_tx (rs_batch v') = []"
    using v(1) by (auto simp: run_visitor_def make_run_state_def batch_new_def batch_push_def BATCH_SIZE_def Let_def
        split: option.splits prod.splits bool.splits)
  then show ?thesis using b v by simp
qed

text \<open>The same command line with \<open>-x 4 -0\<close>: the same two files, on 4 threads, with NUL bytes.\<close>

definition fast_argv :: "osstring list" where
  "fast_argv = [''minifind'', ''-type'', ''f'', ''-x'', ''4'', ''-0'', ''.'']"

lemma fast_parse:
  "parse_inner simple_lexopt simple_env fast_argv = Some (Some (Inr (Run (retuned work_args 4 False None True))))"
  by (simp add: fast_argv_def parse_inner_def parse_loop.simps [of simple_lexopt] simple_env_def
      normalize_arg_def find_aliases_def handle_arg_def classify_def arm_table_def with_str_def
      val_str_def lx_val_def parse_file_type_def parse_paths_def initial_locals_def finish_def
      work_args_def default_threads_def then_some_def retuned_def parse_threads_def parse_usize_def
      from_str_radix_def parse_digits.simps to_digit_def)


end
