(* ===== verification/Help.thy ===== *)
theory Help
  imports Args
begin

text \<open>
  The help text of \<open>src/args.rs\<close> and what \<open>Args::parse\<close> prints. The text is the line list of \<open>HELP\<close>; it is
  taken apart here to compare what it documents with what the parser accepts.
\<close>

section \<open>The text\<close>

definition help_lines :: "string list" where
  "help_lines =
    [''minimal find reimplementation'',
     '''',
     ''Usage: minifind [OPTIONS] <PATH>...'',
     '''',
     ''Arguments:'',
     ''  <PATH>...  Paths to traverse (must be existing directories)'',
     '''',
     ''Options:'',
     ''  -f, --follow-symlinks    Follow symlinks [aliases: -L, -follow]'',
     ''  -o, --one-filesystem     Do not cross mount points (default) [aliases: --xdev, -xdev, -mount]'',
     ''      --no-one-filesystem  Cross mount points [alias: --cross-filesystem]'',
     ''  -x, --threads <N>        Number of worker threads [default: logical CPU count]'',
     ''  -d, --max-depth <N>      Maximum depth to traverse [alias: -maxdepth]'',
     ''      --min-depth <N>      Minimum depth to emit (shallower entries are skipped) [alias: -mindepth]'',
     ''  -s, --max-scan-rate <N>  Max directories scanned per second (0 = unlimited)'',
     ''      --max-results <N>    Stop after the first N results (0 = unlimited)'',
     ''  -n, --name <GLOB>        File-name globbing pattern (repeatable; conflicts with --regex) [aliases: -name; -iname adds -i]'',
     ''  -r, --regex <RE>         Full-path regular expression (repeatable; conflicts with --name) [aliases: -regex; -iregex adds -i]'',
     ''  -i, --case-insensitive   Case-insensitive glob/regex matching'',
     ''  -E, --exclude <GLOB>     Exclude entries whose name matches GLOB; matched directories are pruned (repeatable)'',
     ''  -0, --null               Terminate each path with NUL instead of newline [aliases: -print0, --print0]'',
     ''  -t, --file-type <TYPE>   Filter matches by type (repeatable) [default: directory file symlink] [alias: -type]'',
     ''                           values: empty, block-device, char-device, directory, pipe, file, socket, symlink'',
     ''                           aliases: e, b, c, d, p, f, s, l'',
     ''      --empty              Match empty files and directories (= --file-type empty) [alias: -empty]'',
     ''      --size <[+-]N(c|k|M|G|T)>  Filter by size; unit required (c=bytes, k/M/G/T = 1024-based); +N greater, -N less [alias: -size]'',
     ''      --mtime, --ctime, --atime <[+-]N>  Filter by modify/change/access time, in days [aliases: -mtime/-ctime/-atime]'',
     ''      --mmin, --cmin, --amin <[+-]N>     Filter by modify/change/access time, in minutes [aliases: -mmin/-cmin/-amin]'',
     ''      --perm <[/-]MODE>    Filter by permission bits, octal or symbolic; -MODE all set, /MODE any set, MODE exact [alias: -perm]'',
     ''      --uid, --gid <[+-]N> Filter by numeric owner/group id [aliases: -uid/-gid]'',
     ''      --user, --group <NAME>  Filter by owner/group name (or numeric id) [aliases: -user/-group]'',
     ''      --links <[+-]N>      Filter by hard-link count [alias: -links]'',
     ''      --inum <[+-]N>       Filter by inode number [alias: -inum]'',
     ''      --newer, --anewer, --cnewer <FILE>  Entry's m/a/c-time is newer than FILE's mtime [aliases: -newer/-anewer/-cnewer]'',
     ''      --nouser, --nogroup  Owner uid/gid resolves to no passwd/group entry [aliases: -nouser/-nogroup]'',
     ''      --path, --wholename <GLOB>  Glob over the full path (* crosses /) [aliases: -path/-wholename; -ipath/-iwholename add -i]'',
     ''      --lname <GLOB>       Glob over a symlink's target [alias: -lname; -ilname adds -i]'',
     ''      --readable, --writable, --executable  Filter by access (real uid/gid) [aliases: -readable/-writable/-executable]'',
     ''      --quit               Stop after the first match (= --max-results 1) [alias: -quit]'',
     ''      --idle               Run unobtrusively: idle CPU + I/O scheduling, nice +19, 2 threads (Linux)'',
     ''  -h, --help               Print help'',
     ''  -V, --version            Print version'']"

definition HELP :: string where
  "HELP = concat (map (\<lambda>l. l @ [CHR 0x0A]) help_lines)"

text \<open>
  What ends the process in \<open>Args::parse\<close>: standard output and the exit status. The package name and
  version are \<open>env!\<close> constants of the build.
\<close>

definition parse_exit :: "string \<Rightarrow> string \<Rightarrow> parsed \<Rightarrow> (string \<times> int) option" where
  "parse_exit pkg_name pkg_version r =
     (case r of
        RunWith _ \<Rightarrow> None
      | Exit0Help \<Rightarrow> Some (HELP, 0)
      | Exit0Version \<Rightarrow> Some (pkg_name @ '' '' @ pkg_version @ [CHR 0x0A], 0)
      | Exit2 _ \<Rightarrow> Some ([], 2))"

section \<open>What it documents\<close>

definition word_break :: "char \<Rightarrow> bool" where
  "word_break c \<longleftrightarrow> c = CHR '' '' \<or> c = CHR '','' \<or> c = CHR ''/'' \<or> c = CHR '':'' \<or> c = CHR '']''"

fun split_words :: "string \<Rightarrow> string \<Rightarrow> string list" where
  "split_words acc [] = [rev acc]"
| "split_words acc (c # cs) =
     (if word_break c then rev acc # split_words [] cs else split_words (c # acc) cs)"

fun option_word :: "string \<Rightarrow> bool" where
  "option_word (c # d # cs) = (c = CHR ''-'')"
| "option_word _ = False"

definition option_words :: "string \<Rightarrow> string list" where
  "option_words s = filter option_word (split_words [] s)"

text \<open>
  The synopsis of a line ends at the first double space; the aliases stand in brackets, those that
  also set \<open>-i\<close> after a semicolon.
\<close>

fun until_gap :: "string \<Rightarrow> string" where
  "until_gap (c # d # cs) =
     (if c = CHR '' '' \<and> d = CHR '' '' then [] else c # until_gap (d # cs))"
| "until_gap s = s"

fun after_alias :: "string \<Rightarrow> string" where
  "after_alias [] = []"
| "after_alias (c # cs) =
     (if c = CHR ''['' \<and> take 5 cs = ''alias'' then takeWhile (\<lambda>d. d \<noteq> CHR '']'') cs else after_alias cs)"

definition line_options :: "string \<Rightarrow> string list" where
  "line_options l = option_words (until_gap (dropWhile (\<lambda>c. c = CHR '' '') l))"

definition line_aliases :: "string \<Rightarrow> string list" where
  "line_aliases l = option_words (takeWhile (\<lambda>c. c \<noteq> CHR '';'') (after_alias l))"

definition line_i_aliases :: "string \<Rightarrow> string list" where
  "line_i_aliases l = option_words (dropWhile (\<lambda>c. c \<noteq> CHR '';'') (after_alias l))"

text \<open>The arm that a word of the command line selects.\<close>

definition spelling_arm :: "string \<Rightarrow> arm option" where
  "spelling_arm w =
     (let v = normalize_arg w in
      if take 2 v = ''--'' then classify (Long (drop 2 v))
      else if length v = 2 \<and> hd v = CHR ''-'' then classify (Short (v ! 1))
      else None)"

text \<open>What each line documents: options, aliases, and aliases that add \<open>-i\<close>; all of it; and all the
  spellings that select an arm.\<close>

definition line_words :: "string \<Rightarrow> string list \<times> string list \<times> string list" where
  "line_words l = (line_options l, line_aliases l, line_i_aliases l)"

definition help_words :: "(string list \<times> string list \<times> string list) list" where
  "help_words = filter (\<lambda>x. x \<noteq> ([], [], [])) (map line_words help_lines)"

definition documented :: "string list" where
  "documented = concat (map (\<lambda>(ws, as, is). ws @ as @ is) help_words)"

definition option_spellings :: "string list" where
  "option_spellings =
     concat (map (\<lambda>(shorts, longs, m). map (\<lambda>c. [CHR ''-'', c]) shorts @ map (\<lambda>l. ''--'' @ l) longs) arm_table)"

definition accepted_spellings :: "string list" where
  "accepted_spellings = option_spellings @ map fst find_aliases"

text \<open>The values of \<open>--file-type\<close> are listed on a line of their own, their aliases on the next.\<close>

definition listed_values :: "string \<Rightarrow> string list" where
  "listed_values l = tl (filter (\<lambda>w. w \<noteq> []) (split_words [] (dropWhile (\<lambda>c. c = CHR '' '') l)))"

section \<open>It documents what the parser accepts\<close>

text \<open>The variants that also set \<open>-i\<close>.\<close>

fun plain_arm :: "arm \<Rightarrow> arm option" where
  "plain_arm ArmIname = Some ArmName"
| "plain_arm ArmIregex = Some ArmRegex"
| "plain_arm ArmIpath = Some ArmPath"
| "plain_arm ArmIlname = Some ArmLname"
| "plain_arm _ = None"

definition words_correct :: "string list \<times> string list \<times> string list \<Rightarrow> bool" where
  "words_correct x \<longleftrightarrow>
     (case x of (ws, as, is) \<Rightarrow>
        (let arms = map spelling_arm ws in
         None \<notin> set arms
         \<and> list_all (\<lambda>a. spelling_arm a \<in> set arms) as
         \<and> list_all (\<lambda>a. a = ''-i'' \<or> Option.bind (spelling_arm a) plain_arm \<in> set arms) is))"

lemma first_help_words:
  "map line_words (take 24 help_lines) =
    [([], [], []),
     ([], [], []),
     ([], [], []),
     ([], [], []),
     ([], [], []),
     ([], [], []),
     ([], [], []),
     ([], [], []),
     ([''-f'', ''--follow-symlinks''], [''-L'', ''-follow''], []),
     ([''-o'', ''--one-filesystem''], [''--xdev'', ''-xdev'', ''-mount''], []),
     ([''--no-one-filesystem''], [''--cross-filesystem''], []),
     ([''-x'', ''--threads''], [], []),
     ([''-d'', ''--max-depth''], [''-maxdepth''], []),
     ([''--min-depth''], [''-mindepth''], []),
     ([''-s'', ''--max-scan-rate''], [], []),
     ([''--max-results''], [], []),
     ([''-n'', ''--name''], [''-name''], [''-iname'', ''-i'']),
     ([''-r'', ''--regex''], [''-regex''], [''-iregex'', ''-i'']),
     ([''-i'', ''--case-insensitive''], [], []),
     ([''-E'', ''--exclude''], [], []),
     ([''-0'', ''--null''], [''-print0'', ''--print0''], []),
     ([''-t'', ''--file-type''], [''-type''], []),
     ([], [], []),
     ([], [], [])]"
  by code_simp

lemma last_help_words:
  "map line_words (drop 24 help_lines) =
    [([''--empty''], [''-empty''], []),
     ([''--size''], [''-size''], []),
     ([''--mtime'', ''--ctime'', ''--atime''], [''-mtime'', ''-ctime'', ''-atime''], []),
     ([''--mmin'', ''--cmin'', ''--amin''], [''-mmin'', ''-cmin'', ''-amin''], []),
     ([''--perm''], [''-perm''], []),
     ([''--uid'', ''--gid'', ''-uid'', ''-gid''], [''-uid'', ''-gid''], []),
     ([''--user'', ''--group''], [''-user'', ''-group''], []),
     ([''--links''], [''-links''], []),
     ([''--inum''], [''-inum''], []),
     ([''--newer'', ''--anewer'', ''--cnewer''], [''-newer'', ''-anewer'', ''-cnewer''], []),
     ([''--nouser'', ''--nogroup''], [''-nouser'', ''-nogroup''], []),
     ([''--path'', ''--wholename''], [''-path'', ''-wholename''], [''-ipath'', ''-iwholename'', ''-i'']),
     ([''--lname''], [''-lname''], [''-ilname'', ''-i'']),
     ([''--readable'', ''--writable'', ''--executable''], [''-readable'', ''-writable'', ''-executable''], []),
     ([''--quit''], [''-quit''], []),
     ([''--idle''], [], []),
     ([''-h'', ''--help''], [], []),
     ([''-V'', ''--version''], [], [])]"
  by code_simp

lemma help_words_eval:
  "help_words =
    [([''-f'', ''--follow-symlinks''], [''-L'', ''-follow''], []),
     ([''-o'', ''--one-filesystem''], [''--xdev'', ''-xdev'', ''-mount''], []),
     ([''--no-one-filesystem''], [''--cross-filesystem''], []),
     ([''-x'', ''--threads''], [], []),
     ([''-d'', ''--max-depth''], [''-maxdepth''], []),
     ([''--min-depth''], [''-mindepth''], []),
     ([''-s'', ''--max-scan-rate''], [], []),
     ([''--max-results''], [], []),
     ([''-n'', ''--name''], [''-name''], [''-iname'', ''-i'']),
     ([''-r'', ''--regex''], [''-regex''], [''-iregex'', ''-i'']),
     ([''-i'', ''--case-insensitive''], [], []),
     ([''-E'', ''--exclude''], [], []),
     ([''-0'', ''--null''], [''-print0'', ''--print0''], []),
     ([''-t'', ''--file-type''], [''-type''], []),
     ([''--empty''], [''-empty''], []),
     ([''--size''], [''-size''], []),
     ([''--mtime'', ''--ctime'', ''--atime''], [''-mtime'', ''-ctime'', ''-atime''], []),
     ([''--mmin'', ''--cmin'', ''--amin''], [''-mmin'', ''-cmin'', ''-amin''], []),
     ([''--perm''], [''-perm''], []),
     ([''--uid'', ''--gid'', ''-uid'', ''-gid''], [''-uid'', ''-gid''], []),
     ([''--user'', ''--group''], [''-user'', ''-group''], []),
     ([''--links''], [''-links''], []),
     ([''--inum''], [''-inum''], []),
     ([''--newer'', ''--anewer'', ''--cnewer''], [''-newer'', ''-anewer'', ''-cnewer''], []),
     ([''--nouser'', ''--nogroup''], [''-nouser'', ''-nogroup''], []),
     ([''--path'', ''--wholename''], [''-path'', ''-wholename''], [''-ipath'', ''-iwholename'', ''-i'']),
     ([''--lname''], [''-lname''], [''-ilname'', ''-i'']),
     ([''--readable'', ''--writable'', ''--executable''], [''-readable'', ''-writable'', ''-executable''], []),
     ([''--quit''], [''-quit''], []),
     ([''--idle''], [], []),
     ([''-h'', ''--help''], [], []),
     ([''-V'', ''--version''], [], [])]"
  using arg_cong2 [OF first_help_words last_help_words, of append]
  unfolding map_append [symmetric] append_take_drop_id
  by (simp add: help_words_def)

lemma three_parts: "xs = take m xs @ take n (drop m xs) @ drop (m + n) xs"
  by (metis append_take_drop_id drop_drop add.commute)

lemma first_lines_correct: "list_all words_correct (take 11 help_words)"
  unfolding help_words_eval by code_simp

lemma middle_lines_correct: "list_all words_correct (take 10 (drop 11 help_words))"
  unfolding help_words_eval by code_simp

lemma last_lines_correct: "list_all words_correct (drop 21 help_words)"
  unfolding help_words_eval by code_simp

lemma lines_correct: "list_all words_correct help_words"
  by (subst three_parts [of _ 11 10])
     (simp add: first_lines_correct middle_lines_correct last_lines_correct)

lemma first_options_documented:
  "filter (\<lambda>w. w \<notin> set documented) (take 25 option_spellings) = []"
  unfolding documented_def help_words_eval by code_simp

lemma middle_options_documented:
  "filter (\<lambda>w. w \<notin> set documented) (take 25 (drop 25 option_spellings)) = [''--iname'', ''--iregex'']"
  unfolding documented_def help_words_eval by code_simp

lemma last_options_documented:
  "filter (\<lambda>w. w \<notin> set documented) (drop 50 option_spellings) =
     [''--ipath'', ''--iwholename'', ''--ilname'', ''--print'', ''--ignore-readdir-race'', ''--noignore-readdir-race'']"
  unfolding documented_def help_words_eval by code_simp

lemma undocumented_options:
  "filter (\<lambda>w. w \<notin> set documented) option_spellings =
     [''--iname'', ''--iregex'', ''--ipath'', ''--iwholename'', ''--ilname'', ''--print'',
      ''--ignore-readdir-race'', ''--noignore-readdir-race'']"
  by (subst (2) three_parts [of _ 25 25])
     (simp add: first_options_documented middle_options_documented last_options_documented)

lemma undocumented_find_spellings:
  "filter (\<lambda>w. w \<notin> set documented) (map fst find_aliases) =
     [''-print'', ''-ignore_readdir_race'', ''-noignore_readdir_race'']"
  unfolding documented_def help_words_eval by code_simp

lemma listed_file_types:
  "map parse_file_type (listed_values (help_lines ! 22)) =
     map Inr [SelEmpty, SelBlockDevice, SelCharDevice, SelDirectory, SelPipe, SelFile, SelSocket, SelSymlink]
   \<and> map parse_file_type (listed_values (help_lines ! 23)) = map parse_file_type (listed_values (help_lines ! 22))"
  by code_simp

lemma plain_arm_sets_icase:
  "plain_arm m = Some b \<Longrightarrow> run_arm lx env m l p = run_arm lx env b (l\<lparr>l_case_insensitive := True\<rparr>) p"
  by (cases m) auto

text \<open>
  C30. The help text against the parser. Every option it names is accepted; an alias it gives selects the
  same arm as an option of its line, and one that "adds -i" acts as that option with \<open>-i\<close> set;
  the listed file types and their letters are those of the parser, in order; and the only
  spellings accepted without being documented are the double-dash forms of the \<open>-i\<close> variants and
  the options that do nothing.
\<close>

theorem help_matches_the_parser:
  "list_all words_correct help_words
   \<and> (\<forall>m. case plain_arm m of None \<Rightarrow> True
        | Some b \<Rightarrow> run_arm lx env m l p = run_arm lx env b (l\<lparr>l_case_insensitive := True\<rparr>) p)
   \<and> map parse_file_type (listed_values (help_lines ! 22)) =
       map Inr [SelEmpty, SelBlockDevice, SelCharDevice, SelDirectory, SelPipe, SelFile, SelSocket, SelSymlink]
   \<and> map parse_file_type (listed_values (help_lines ! 23)) = map parse_file_type (listed_values (help_lines ! 22))
   \<and> filter (\<lambda>w. w \<notin> set documented) accepted_spellings =
       [''--iname'', ''--iregex'', ''--ipath'', ''--iwholename'', ''--ilname'', ''--print'',
        ''--ignore-readdir-race'', ''--noignore-readdir-race'', ''-print'', ''-ignore_readdir_race'',
        ''-noignore_readdir_race'']"
  using lines_correct plain_arm_sets_icase [of _ _ lx env l p] listed_file_types
    undocumented_options undocumented_find_spellings
  by (auto simp: accepted_spellings_def split: option.split)

end
