(* ===== verification/Process.thy ===== *)
theory Process
  imports Run_Example Help
begin

text \<open>
  The process as a whole, from \<open>argv\<close> to the exit status: \<open>Args::parse\<close> of \<open>src/args.rs\<close>, then \<open>main\<close>
  of \<open>src/main.rs\<close> and the \<open>run\<close> it calls. A \<open>main\<close> that returns an error is reported by the standard library on
  standard error, with status 1; a panic of the main thread has status 101.
\<close>

datatype complaint = UsageError error | Startup message | RunError error | Panicked

record ending =
  end_out :: string
  end_err :: "complaint list"
  end_status :: int

text \<open>How \<open>main\<close> ends with the result of \<open>run\<close>, after what it has put on standard error before.\<close>

definition main_end :: "main_state \<Rightarrow> error + string \<Rightarrow> ending" where
  "main_end s res =
     (case res of
        Inl e \<Rightarrow> \<lparr>end_out = [], end_err = map Startup (ms_stderr s) @ [RunError e], end_status = 1\<rparr>
      | Inr out \<Rightarrow> \<lparr>end_out = out, end_err = map Startup (ms_stderr s), end_status = 0\<rparr>)"

text \<open>The endings \<open>argv\<close> may have; \<open>stopped\<close>: a termination signal arrived during the walk.\<close>

definition process_ends ::
  "string \<times> string \<Rightarrow> 'p lexopt \<Rightarrow> parse_env \<Rightarrow> main_env \<Rightarrow> 'g run_env \<Rightarrow> os_calls \<Rightarrow> 'fd platform \<Rightarrow>
   main_state \<Rightarrow> osstring list \<Rightarrow> bool \<Rightarrow> ending \<Rightarrow> bool" where
  "process_ends pkg lx penv menv env os pf s argv stopped fin =
     (case args_parse lx penv argv of
        None \<Rightarrow> False
      | Some None \<Rightarrow> fin = \<lparr>end_out = [], end_err = map Startup (ms_stderr s) @ [Panicked], end_status = 101\<rparr>
      | Some (Some r) \<Rightarrow>
          (case parse_exit (fst pkg) (snd pkg) r of
             Some (out, code) \<Rightarrow>
               fin = \<lparr>end_out = out,
                      end_err = map Startup (ms_stderr s) @ (case r of Exit2 e \<Rightarrow> [UsageError e] | _ \<Rightarrow> []),
                      end_status = code\<rparr>
           | None \<Rightarrow>
               (case r of
                  RunWith args \<Rightarrow>
                    (\<exists>res. main_returns menv env os pf args s stopped res \<and> fin = main_end (main_start menv args s) res)
                | _ \<Rightarrow> False)))"

section \<open>What the exit status tells\<close>

text \<open>What a command line and the setup say about the exit status, without a walk.\<close>

definition expected_status :: "'g run_env \<Rightarrow> (error + Outcome) option \<Rightarrow> int" where
  "expected_status env r =
     (case r of
        None \<Rightarrow> 101
      | Some (Inl _) \<Rightarrow> 2
      | Some (Inr (Run args)) \<Rightarrow>
          if (\<forall>sig \<in> set STOP_SIGNALS. env_register env sig = Inr ()) \<and> pattern_errors env args = [] then 0 else 1
      | Some (Inr _) \<Rightarrow> 0)"

lemma all_registered: "error_of (fst (register_all reg ss d)) = [] \<longleftrightarrow> (\<forall>s \<in> set ss. reg s = Inr ())"
proof (induction ss arbitrary: d)
  case (Cons s ss)
  then show ?case by (cases "reg s") simp_all
qed simp

lemma no_setup_errors:
  "setup_errors env args sigs = [] \<longleftrightarrow>
     (\<forall>sig \<in> set STOP_SIGNALS. env_register env sig = Inr ()) \<and> pattern_errors env args = []"
  by (simp add: setup_errors_def setup_interrupt_handler_def all_registered)

lemma run_result:
  assumes "run_returns env os pf args sigs stopped res"
  shows "(\<exists>e. res = Inl e) \<longleftrightarrow> setup_errors env args sigs \<noteq> []"
proof (cases "fst (run_setup env args sigs)")
  case (Inl e)
  then show ?thesis using assms run_setup_error [of env args sigs e] by (simp add: run_returns_def)
next
  case (Inr x)
  then have "setup_errors env args sigs = []"
    using run_setup_error [of env args sigs "hd (setup_errors env args sigs)"] by auto
  then show ?thesis using assms Inr by (auto simp: run_returns_def)
qed

lemma main_end_status:
  assumes "main_returns menv env os pf args s stopped res"
  shows "end_status (main_end s' res) = expected_status env (Some (Inr (Run args)))"
  using run_result [OF assms [unfolded main_returns_def]]
  by (cases res) (simp_all add: main_end_def expected_status_def no_setup_errors)

lemma main_can_return:
  assumes "args_ok penv args" "lookups_answer os"
    and "\<And>f ex. build_filters env args = Inr (f, ex) \<Longrightarrow> \<exists>k. roots_fit (run_ctx args ex) pf k (unique_paths args)"
  shows "\<exists>res. main_returns menv env os pf args s False res"
proof -
  let ?sigs = "ms_signals (main_start menv args s)"
  show ?thesis
  proof (cases "fst (run_setup env args ?sigs)")
    case (Inl e)
    then show ?thesis by (auto simp: main_returns_def run_returns_def)
  next
    case (Inr x)
    obtain f ex where x: "x = (f, ex)" by (cases x)
    note set_up = Inr [unfolded x]
    obtain k where "roots_fit (run_ctx args ex) pf k (unique_paths args)" using assms(3) [OF setup_filters [OF set_up]] by blast
    from run_exists [OF assms(1,2) set_up this] show ?thesis unfolding main_returns_def by blast
  qed
qed


text \<open>A process with one processor, whose \<open>setpriority\<close> fails.\<close>

definition small_machine :: main_env where
  "small_machine = \<lparr>me_parallelism = Some 1, me_setrlimit = (\<lambda>_ l. Inr l), me_setpriority = (\<lambda>_ _ _. (- 1, 13))\<rparr>"

definition fresh_process :: main_state where
  "fresh_process = \<lparr>ms_stderr = [], ms_signals = (\<lambda>_. SigDfl), ms_rlimit = \<lparr>rl_current = Some 1024, rl_maximum = None\<rparr>\<rparr>"


end
