(* ===== verification/Changing.thy ===== *)
theory Changing
  imports Walk_Progress "HOL-Library.Multiset_Order"
begin

text \<open>
  The parallel walk of \<open>src/walk.rs\<close> over a file system that other processes change while it is walked.
  Every step sees the file system as it is at that moment: one platform out of the set \<open>W\<close> of those it may be
  in, with the visitor as it behaves then. What the engine guarantees by itself (accounting, the cuts, an end)
  does not rest on a tree that stands still.
\<close>

section \<open>A walk over a changing file system\<close>

type_synonym ('fd, 'v) moment = "'fd platform \<times> ('fd, 'v) visitor"

inductive changing_reach ::
  "WalkCtx \<Rightarrow> ('fd, 'v) moment set \<Rightarrow> nat \<Rightarrow> ('fd, 'v) walk_state \<Rightarrow> ('fd, 'v) walk_state \<Rightarrow> bool"
  for ctx W n s where
  changing_start: "changing_reach ctx W n s s"
| changing_next: "\<lbrakk>changing_reach ctx W n s s'; (pf, visitor) \<in> W; walk_step ctx pf visitor n w s' s''\<rbrakk> \<Longrightarrow>
    changing_reach ctx W n s s''"

text \<open>A file system that stands still is the special case of one moment.\<close>

lemma standing_still: "(pf, visitor) \<in> W \<Longrightarrow> walk_reach ctx pf visitor n s s' \<Longrightarrow> changing_reach ctx W n s s'"
  by (rotate_tac, induction rule: walk_reach.induct) (blast intro: changing_start changing_next)+

lemma changing_invariant:
  assumes "changing_reach ctx W n s s'" "I s"
    and "\<And>pf visitor w u u'. (pf, visitor) \<in> W \<Longrightarrow> I u \<Longrightarrow> walk_step ctx pf visitor n w u u' \<Longrightarrow> I u'"
  shows "I s'"
  using assms(1) by (induction rule: changing_reach.induct) (blast intro: assms(2,3))+

definition counted :: "nat \<Rightarrow> ('fd, 'v) walk_state \<Rightarrow> bool" where
  "counted n s \<longleftrightarrow> ws_pending s = task_count n s \<and> exit_ok n s"

lemma counted_init: "counted n (walk_init ctx pf roots mv)"
  unfolding counted_def using pending_init exit_ok_reach [OF reach_start] by blast

lemma counted_step: "counted n s \<Longrightarrow> walk_step ctx pf visitor n w s s' \<Longrightarrow> counted n s'"
  unfolding counted_def using pending_step exit_ok_step by blast

lemma counted_changing: "changing_reach ctx W n s s' \<Longrightarrow> counted n s \<Longrightarrow> counted n s'"
  by (rule changing_invariant) (blast intro: counted_step)+

text \<open>
  C10. Termination detection does not rest on a tree that stands still. However the file system is changed
  between any two steps, \<open>pending\<close> is at every moment the number of queued tasks plus those in the hands of
  workers; so unless the walk was told to quit, a worker that has left its loop proves that no task is left anywhere.
\<close>

theorem exit_means_no_work_changing:
  assumes "changing_reach ctx W n (walk_init ctx pf roots make_visitor) s"
  shows "ws_pending s = length (ws_injector s) + (\<Sum>w<n. length (ws_local s w) + held (ws_phase s w))
    \<and> (w < n \<and> ws_phase s w = Exited \<and> \<not> ws_quit s \<longrightarrow>
        ws_injector s = [] \<and> (\<forall>v < n. ws_local s v = [] \<and> held (ws_phase s v) = 0))"
  using counted_changing [OF assms counted_init]
  by (auto simp: counted_def exit_ok_def nothing_left_def outstanding_def sum_list_triv)

section \<open>What holds of tasks, directories and visits\<close>

text \<open>
  An invariant of the walk by its parts: \<open>P\<close> of every task, \<open>R\<close> of every opened directory with the entries still
  to be read, \<open>Q\<close> of every visit.
\<close>

fun phase_all :: "('fd Task \<Rightarrow> bool) \<Rightarrow> ('fd descent \<Rightarrow> (path \<times> string \<times> EntryType) list \<Rightarrow> bool) \<Rightarrow> 'fd phase \<Rightarrow> bool" where
  "phase_all P R (Begin t) = P t"
| "phase_all P R (Descending t) = P t"
| "phase_all P R (Reading d xs) = R d xs"
| "phase_all P R (Queueing t d xs) = (P t \<and> R d xs)"
| "phase_all P R _ = True"

definition tasks_all ::
  "('fd Task \<Rightarrow> bool) \<Rightarrow> ('fd descent \<Rightarrow> (path \<times> string \<times> EntryType) list \<Rightarrow> bool) \<Rightarrow> (Entry \<times> 'fd StatAt \<Rightarrow> bool) \<Rightarrow>
   nat \<Rightarrow> ('fd, 'v) walk_state \<Rightarrow> bool" where
  "tasks_all P R Q n s \<longleftrightarrow>
     list_all P (ws_injector s) \<and> (\<forall>w < n. list_all P (ws_local s w) \<and> phase_all P R (ws_phase s w))
     \<and> list_all Q (ws_log s)"

locale while_changing =
  fixes ctx :: WalkCtx and Pfs :: "'fd platform set"
    and P :: "'fd Task \<Rightarrow> bool" and R :: "'fd descent \<Rightarrow> (path \<times> string \<times> EntryType) list \<Rightarrow> bool"
    and Q :: "Entry \<times> 'fd StatAt \<Rightarrow> bool"
  assumes opened: "pf \<in> Pfs \<Longrightarrow> P t \<Longrightarrow> descend_open ctx pf t True = Some d \<Longrightarrow> R d (pf_for_each_entry pf (d_dir d) (t_path t))"
    and later: "R d (x # xs) \<Longrightarrow> R d xs"
    and found: "R d (x # xs) \<Longrightarrow> \<not> excluded ctx (fst (snd x)) \<Longrightarrow>
      Q (child_visit ctx d x) \<and> (\<forall>u. child_task ctx d x = Some u \<longrightarrow> P u)"
    and root_seen: "P t \<Longrightarrow> t_parent t = None \<Longrightarrow> Q (root_visit ctx t)"
begin

lemma begin_all:
  assumes "P t" "list_all Q (ws_log s)"
  shows "phase_all P R (ws_phase (begin_task ctx visitor w t s) w)" "list_all Q (ws_log (begin_task ctx visitor w t s))"
  using assms root_seen [OF assms(1)]
  by (auto simp: begin_task_def begin_root_def visit_effect_def split: WalkState.split prod.split)

lemma open_all: "pf \<in> Pfs \<Longrightarrow> P t \<Longrightarrow> phase_all P R (descend_phase ctx pf t a)"
  using opened [OF _ _ descend_open_token] by (auto simp: descend_phase_def split: option.split)

lemma read_all:
  assumes "R d (x # xs)" "list_all Q (ws_log s)"
  shows "phase_all P R (ws_phase (read_one ctx visitor w d x xs s) w)" "list_all Q (ws_log (read_one ctx visitor w d x xs s))"
proof -
  obtain r v' where r: "read_entry ctx visitor d x (ws_visitor s w) = (r, v')"
    by (cases "read_entry ctx visitor d x (ws_visitor s w)")
  show "phase_all P R (ws_phase (read_one ctx visitor w d x xs s) w)" "list_all Q (ws_log (read_one ctx visitor w d x xs s))"
    using read_entry_cases [OF r] r assms later [OF assms(1)] found [OF assms(1)]
    by (auto simp: read_one_def visit_effect_def split: if_splits option.split)
qed

lemma tasks_all_working:
  assumes st: "walk_step ctx pf visitor n w s s'" and wk: "working (ws_phase s w)" and inv: "tasks_all P R Q n s"
    and new: "phase_all P R (ws_phase s' w)" "list_all Q (ws_log s')"
  shows "tasks_all P R Q n s'"
proof -
  have "phase_all P R (ws_phase s' v)" if "v < n" for v
  proof (cases "v = w")
    case False
    then have "ws_phase s' v = ws_phase s v" using working_frame [OF st wk] by (metis fun_upd_other)
    then show ?thesis using inv that by (simp add: tasks_all_def)
  qed (simp add: new(1))
  then show ?thesis using inv new(2) working_frame [OF st wk] by (simp add: tasks_all_def)
qed

lemma tasks_all_step:
  assumes st: "walk_step ctx pf visitor n w s s'" and pf: "pf \<in> Pfs" and inv: "tasks_all P R Q n s"
  shows "tasks_all P R Q n s'"
proof -
  have w: "w < n" by (rule step_worker [OF st])
  have ph: "phase_all P R (ws_phase s w)" and loc: "list_all P (ws_local s w)" and log: "list_all Q (ws_log s)"
    using inv w by (simp_all add: tasks_all_def)
  note work = tasks_all_working [OF st _ inv]
  show ?thesis
    using st
  proof cases
    case (steal_injector t batch rest kept)
    then have "list_all P batch = list_all P kept" by (metis list_all_iff mset_eq_setD)
    then show ?thesis using steal_injector inv by (auto simp: tasks_all_def)
  next
    case (begin_process t)
    then have "P t" using ph by simp
    from begin_all [OF this log] show ?thesis using begin_process by (intro work) auto
  next
    case (open_dir t a)
    then show ?thesis using ph log open_all [OF pf, of t a] by (intro work) auto
  next
    case (read_next d x xs)
    then have "R d (x # xs)" using ph by simp
    from read_all [OF this log] show ?thesis using read_next by (intro work) auto
  qed (use inv ph loc in \<open>auto simp: tasks_all_def\<close>)
qed

lemma tasks_all_changing:
  assumes "changing_reach ctx W n s s'" "fst ` W \<subseteq> Pfs" "tasks_all P R Q n s"
  shows "tasks_all P R Q n s'"
proof (rule changing_invariant [where I = "tasks_all P R Q n", OF assms(1,3)])
  fix pf visitor w u u'
  assume w: "(pf, visitor) \<in> W" and u: "tasks_all P R Q n u" and st: "walk_step ctx pf visitor n w u u'"
  have "pf \<in> Pfs" using assms(2) image_eqI [OF _ w, of pf fst] by auto
  then show "tasks_all P R Q n u'" by (rule tasks_all_step [OF st _ u])
qed

lemma tasks_all_init:
  assumes "\<And>t. t \<in> set (root_tasks (ctx_args ctx) pf roots) \<Longrightarrow> P t"
  shows "tasks_all P R Q n (walk_init ctx pf roots mv)"
  using assms by (simp add: tasks_all_def walk_init_def list_all_iff)

end

section \<open>The cuts\<close>

text \<open>
  The tasks there can be: one for a starting path that could be identified, and one for an entry listed, at some
  moment, in a directory that was opened, at that moment, for a task.
\<close>

inductive admitted :: "WalkCtx \<Rightarrow> 'fd platform set \<Rightarrow> path list \<Rightarrow> 'fd Task \<Rightarrow> bool"
  for ctx Pfs roots where
  admitted_root: "\<lbrakk>pf \<in> Pfs; root \<in> set roots; root_task (ctx_args ctx) pf root = Some t\<rbrakk> \<Longrightarrow> admitted ctx Pfs roots t"
| admitted_child: "\<lbrakk>admitted ctx Pfs roots t; pf \<in> Pfs; descend_open ctx pf t True = Some d;
    x \<in> set (pf_for_each_entry pf (d_dir d) (t_path t)); \<not> excluded ctx (fst (snd x)); child_task ctx d x = Some u\<rbrakk> \<Longrightarrow>
    admitted ctx Pfs roots u"

definition opened_for ::
  "WalkCtx \<Rightarrow> 'fd platform set \<Rightarrow> path list \<Rightarrow> 'fd Task \<Rightarrow> 'fd descent \<Rightarrow> (path \<times> string \<times> EntryType) list \<Rightarrow> bool" where
  "opened_for ctx Pfs roots t d xs \<longleftrightarrow>
     admitted ctx Pfs roots t \<and> (\<exists>pf \<in> Pfs. descend_open ctx pf t True = Some d
       \<and> set xs \<subseteq> set (pf_for_each_entry pf (d_dir d) (t_path t)))"

definition visited_for :: "WalkCtx \<Rightarrow> 'fd platform set \<Rightarrow> path list \<Rightarrow> Entry \<times> 'fd StatAt \<Rightarrow> bool" where
  "visited_for ctx Pfs roots ev \<longleftrightarrow>
     (\<exists>t. admitted ctx Pfs roots t \<and> t_parent t = None \<and> ev = root_visit ctx t)
     \<or> (\<exists>t d x. opened_for ctx Pfs roots t d [x] \<and> \<not> excluded ctx (fst (snd x)) \<and> ev = child_visit ctx d x)"

interpretation admission: while_changing ctx Pfs "admitted ctx Pfs roots"
    "\<lambda>d xs. \<exists>t. opened_for ctx Pfs roots t d xs" "visited_for ctx Pfs roots"
  for ctx Pfs roots
proof
  fix d x xs
  assume "\<exists>t. opened_for ctx Pfs roots t d (x # xs)" and ex: "\<not> excluded ctx (fst (snd x))"
  then obtain t where t: "opened_for ctx Pfs roots t d (x # xs)" by blast
  then have "opened_for ctx Pfs roots t d [x]" by (auto simp: opened_for_def)
  moreover have "admitted ctx Pfs roots u" if "child_task ctx d x = Some u" for u
    using t ex that by (auto simp: opened_for_def intro: admitted_child)
  ultimately show "visited_for ctx Pfs roots (child_visit ctx d x)
      \<and> (\<forall>u. child_task ctx d x = Some u \<longrightarrow> admitted ctx Pfs roots u)"
    unfolding visited_for_def using ex by blast
qed (auto simp: opened_for_def visited_for_def)

lemma root_tasks_admitted:
  "t \<in> set (root_tasks (ctx_args ctx) pf roots) \<Longrightarrow> pf \<in> Pfs \<Longrightarrow> admitted ctx Pfs roots t"
  by (auto simp: root_tasks_def List.map_filter_def intro: admitted_root)

lemma changing_log:
  assumes "changing_reach ctx W n (walk_init ctx pf roots mv) s" "pf \<in> fst ` W" "ev \<in> set (ws_log s)"
  shows "visited_for ctx (fst ` W) roots ev"
proof -
  have "tasks_all (admitted ctx (fst ` W) roots) (\<lambda>d xs. \<exists>t. opened_for ctx (fst ` W) roots t d xs)
      (visited_for ctx (fst ` W) roots) n s"
    by (rule admission.tasks_all_changing [OF assms(1) subset_refl admission.tasks_all_init])
       (rule root_tasks_admitted [OF _ assms(2)])
  then show ?thesis using assms(3) by (simp add: tasks_all_def list_all_iff)
qed

definition within_depth :: "WalkCtx \<Rightarrow> usize \<Rightarrow> bool" where
  "within_depth ctx n \<longleftrightarrow> (case a_max_depth (ctx_args ctx) of None \<Rightarrow> True | Some mx \<Rightarrow> n \<le> mx)"

lemma descent_within:
  assumes "descend_open ctx pf t True = Some d"
  shows "within_depth ctx (d_child_depth d)"
  using descend_open_fields(1,4) [OF assms] by (auto simp: within_depth_def inc_le split: option.split)

lemma admitted_fields:
  assumes "admitted ctx Pfs roots t"
  shows "\<exists>root \<in> set roots. \<exists>pf \<in> Pfs. \<exists>ino. pf_path_id pf root = Inr (t_root_dev t, ino)
      \<and> (t_parent t = None \<longrightarrow> t_path t = root \<and> t_depth t = 0)"
  using assms
proof induction
  case (admitted_root pf root t)
  then show ?case by (intro bexI [of _ root] bexI [of _ pf]) (auto simp: root_task_def split: sum.splits)
next
  case (admitted_child t pf d x u)
  have "t_root_dev u = t_root_dev t"
    using child_task_fields(3) [OF admitted_child.hyps(6)] descend_open_fields(2) [OF admitted_child.hyps(3)] by simp
  then show ?case using admitted_child.IH child_task_fields(5) [OF admitted_child.hyps(6)] by auto
qed

text \<open>
  C22. The cuts hold whatever is moved, replaced, mounted or linked during the walk. Every entry visited is a starting
  path, or was listed, under a name that is not excluded, in a directory that at the moment it was opened was, with
  \<open>--one-filesystem\<close>, on the device of its starting path: the test is made on the open directory, so there is no
  moment between test and use. And no entry is deeper than \<open>--max-depth\<close>.
\<close>

theorem cuts_hold_while_changing:
  assumes "changing_reach ctx W n (walk_init ctx pf0 roots make_visitor) s" "pf0 \<in> fst ` W"
    and "ev \<in> set (ws_log s)"
  shows "\<exists>root \<in> set roots. \<exists>dev ino. (\<exists>pf \<in> fst ` W. pf_path_id pf root = Inr (dev, ino))
    \<and> (ev = (\<lparr>e_path = root, e_file_type = Dir, e_depth = 0\<rparr>, stat_root root (a_follow_symlinks (ctx_args ctx)))
       \<or> (\<exists>pf \<in> fst ` W. listed_visit ctx pf dev ev))
    \<and> (case a_max_depth (ctx_args ctx) of None \<Rightarrow> True | Some mx \<Rightarrow> e_depth (fst ev) \<le> mx)"
proof -
  consider (root) t where "admitted ctx (fst ` W) roots t" "t_parent t = None" "ev = root_visit ctx t"
    | (child) t d x where "opened_for ctx (fst ` W) roots t d [x]" "\<not> excluded ctx (fst (snd x))" "ev = child_visit ctx d x"
    using changing_log [OF assms] unfolding visited_for_def by blast
  then show ?thesis
  proof cases
    case root
    then show ?thesis
      using admitted_fields [OF root(1)] by (auto simp: root_visit_def root_entry_def split: option.split)
  next
    case child
    obtain pf where a: "admitted ctx (fst ` W) roots t" and pf: "pf \<in> fst ` W" and o: "descend_open ctx pf t True = Some d"
      and x: "x \<in> set (pf_for_each_entry pf (d_dir d) (t_path t))"
      using child(1) by (auto simp: opened_for_def)
    obtain dev ino where di: "pf_dir_id pf (d_dir d) = Inr (dev, ino)"
      "if a_one_filesystem (ctx_args ctx) then dev = t_root_dev t else True"
      using descend_open_fields(3) [OF o] by auto
    obtain p leaf ty where xe: "x = (p, leaf, ty)" by (cases x)
    have "listed_visit ctx pf (t_root_dev t) ev"
      unfolding listed_visit_def
      by (rule exI [of _ "d_dir d"], rule exI [of _ "t_path t"], rule exI [of _ leaf], rule exI [of _ dev],
          rule exI [of _ ino])
         (use x di child(2) in \<open>simp add: xe child(3) child_visit_def child_entry_def\<close>)
    moreover have "within_depth ctx (e_depth (fst ev))"
      using descent_within [OF o] by (simp add: xe child(3) child_visit_def child_entry_def)
    ultimately show ?thesis using admitted_fields [OF a] pf by (auto simp: within_depth_def)
  qed
qed

end
