(* ===== verification/Swapped.thy ===== *)
theory Swapped
  imports Changing Exhaustion
begin

text \<open>
  Why \<open>src/walk/unix.rs\<close> opens children relative to the descriptor of their directory and with \<open>O_NOFOLLOW\<close>:
  somebody who swaps directories for symlinks, or renames them, during the walk cannot lead it out of the tree.
  The system calls of a moment are one element of \<open>Sys\<close>.
\<close>

section \<open>Where the directories of a walk are\<close>

lemma open_unix_child:
  assumes "t_parent t = Some fd" "t_path t = path_join p n" "leaf_name n"
    and "\<And>fl. sys_openat sys (Fd fd) n fl \<noteq> Inl EMFILE \<and> sys_openat sys (Fd fd) n fl \<noteq> Inl ENFILE"
  shows "open_task (unix_platform sys) t = sys_openat sys (Fd fd) n (dir_flags (t_follow t))"
proof -
  have "path_file_name (t_path t) = Some n" unfolding assms(2) by (rule path_file_name_join [OF assms(3)])
  then show ?thesis
    using assms(1) assms(4) [of "dir_flags (t_follow t)"]
    by (auto simp: open_task_def unix_platform_def open_child_def Let_def split: sum.split)
qed

definition held_inside :: "('fd \<Rightarrow> bool) \<Rightarrow> path list \<Rightarrow> 'fd Task \<Rightarrow> bool" where
  "held_inside inside roots t \<longleftrightarrow>
     (case t_parent t of
        None \<Rightarrow> t_path t \<in> set roots
      | Some fd \<Rightarrow> inside fd \<and> \<not> t_follow t \<and> (\<exists>p n. leaf_name n \<and> t_path t = path_join p n))"

lemma opened_inside:
  assumes t: "held_inside inside roots t" and o: "descend_open ctx (unix_platform sys) t True = Some d"
    and root: "\<And>root fl fd. root \<in> set roots \<Longrightarrow> sys_openat sys CWD root fl = Inr fd \<Longrightarrow> inside fd"
    and child: "\<And>fd n fl fd'. inside fd \<Longrightarrow> leaf_name n \<Longrightarrow> NOFOLLOW \<in> fl \<Longrightarrow> sys_openat sys (Fd fd) n fl = Inr fd' \<Longrightarrow> inside fd'"
    and enough: "\<And>fd n fl. sys_openat sys (Fd fd) n fl \<noteq> Inl EMFILE \<and> sys_openat sys (Fd fd) n fl \<noteq> Inl ENFILE"
  shows "inside (d_dir d)"
proof -
  have d: "open_task (unix_platform sys) t = Inr (d_dir d)"
    using o by (auto simp: descend_open_def split: if_splits sum.splits)
  show ?thesis
  proof (cases "t_parent t")
    case None
    then show ?thesis
      using d t root by (auto simp: open_task_def unix_platform_def open_root_def held_inside_def)
  next
    case (Some fd)
    then obtain p n where n: "inside fd" "\<not> t_follow t" "leaf_name n" "t_path t = path_join p n"
      using t by (auto simp: held_inside_def)
    have "sys_openat sys (Fd fd) n (dir_flags (t_follow t)) = Inr (d_dir d)"
      using open_unix_child [OF Some n(4,3) enough] d by simp
    from child [OF n(1,3) _ this] show ?thesis by (simp add: n(2) dir_flags_def)
  qed
qed

text \<open>
  C23. Nobody leads the walk out of the tree by changing it. Let \<open>inside\<close> hold of the directories that can be opened as
  a starting path at any moment, and of those that can be opened, at any moment, by one name and without following a
  symlink in a directory of which it holds. Then however directories are swapped, renamed or replaced by symlinks during
  the walk, every entry it visits other than a starting path was listed in a directory that is \<open>inside\<close>, and its metadata
  is asked for by one name in that directory. This is for a walk that does not follow symlinks, as long as
  there are file descriptors: the fallback by path is not safe in this way.
\<close>

theorem no_swap_leads_out:
  assumes "changing_reach ctx W n (walk_init ctx pf0 roots make_visitor) s" "pf0 \<in> fst ` W"
    and "fst ` W \<subseteq> unix_platform ` Sys" "ev \<in> set (ws_log s)" "\<not> a_follow_symlinks (ctx_args ctx)"
    and "\<And>sys root fl fd. sys \<in> Sys \<Longrightarrow> root \<in> set roots \<Longrightarrow> sys_openat sys CWD root fl = Inr fd \<Longrightarrow> inside fd"
    and "\<And>sys fd name fl fd'. sys \<in> Sys \<Longrightarrow> inside fd \<Longrightarrow> leaf_name name \<Longrightarrow> NOFOLLOW \<in> fl \<Longrightarrow>
      sys_openat sys (Fd fd) name fl = Inr fd' \<Longrightarrow> inside fd'"
    and "\<And>sys. sys \<in> Sys \<Longrightarrow> plain_names sys"
    and "\<And>sys fd name fl. sys \<in> Sys \<Longrightarrow> sys_openat sys (Fd fd) name fl \<noteq> Inl EMFILE \<and> sys_openat sys (Fd fd) name fl \<noteq> Inl ENFILE"
  shows "case sa_src (snd ev) of StatRoot p \<Rightarrow> p \<in> set roots | StatChild dir name \<Rightarrow> inside dir \<and> leaf_name name"
proof -
  let ?Pfs = "fst ` W"
  have dir: "inside (d_dir d)" "leaf_name (fst (snd x))" "fst x = path_join (t_path t) (fst (snd x))"
    if "held_inside inside roots t" "pf \<in> ?Pfs" "descend_open ctx pf t True = Some d"
      "x \<in> set (pf_for_each_entry pf (d_dir d) (t_path t))" for t pf d x
  proof -
    note h = that
    obtain sys where sys: "sys \<in> Sys" "pf = unix_platform sys" using assms(3) h(2) by blast
    show "inside (d_dir d)"
      using h(3) unfolding sys(2)
      by (rule opened_inside [OF h(1)]) (use assms(6,7,9) sys(1) in blast)+
    show "leaf_name (fst (snd x))" "fst x = path_join (t_path t) (fst (snd x))"
      using unix_well_named [OF assms(8) [OF sys(1)], unfolded well_named_def] h(4) unfolding sys(2) by blast+
  qed
  have tasks: "held_inside inside roots t" if "admitted ctx ?Pfs roots t" for t
    using that
  proof induction
    case (admitted_root pf root t)
    then show ?case by (auto simp: held_inside_def root_task_def split: sum.splits)
  next
    case (admitted_child t pf d x u)
    obtain p n ty where xe: "x = (p, n, ty)" by (cases x)
    have "t_parent u = Some (d_dir d)" "\<not> t_follow u" "t_path u = p"
      using admitted_child.hyps(6) assms(5) by (auto simp: child_task_def descends_into_def xe split: if_splits)
    then show ?case
      using dir [OF admitted_child.IH admitted_child.hyps(2-4)] by (auto simp: held_inside_def xe)
  qed
  consider (root) t where "admitted ctx ?Pfs roots t" "t_parent t = None" "ev = root_visit ctx t"
    | (child) t d x where "opened_for ctx ?Pfs roots t d [x]" "ev = child_visit ctx d x"
    using changing_log [OF assms(1,2,4)] unfolding visited_for_def by blast
  then show ?thesis
  proof cases
    case root
    then show ?thesis using tasks [OF root(1)] by (simp add: held_inside_def root_visit_def stat_root_def)
  next
    case child
    obtain pf where a: "admitted ctx ?Pfs roots t" and pf: "pf \<in> ?Pfs" "descend_open ctx pf t True = Some d"
      "x \<in> set (pf_for_each_entry pf (d_dir d) (t_path t))"
      using child(1) by (auto simp: opened_for_def)
    show ?thesis
      using dir(1,2) [OF tasks [OF a] pf] by (cases x) (simp add: child(2) child_visit_def stat_child_def)
  qed
qed

text \<open>
  The tree of \<open>path_sys\<close>, and a moment at which \<open>r/d\<close> has been replaced by a symlink to \<open>/etc\<close>: opened with
  \<open>O_NOFOLLOW\<close> it fails with \<open>ELOOP\<close>, without it \<open>/etc\<close> would be opened.
\<close>

definition swapped_sys :: "path syscalls" where
  "swapped_sys = path_sys\<lparr>sys_openat := (\<lambda>d p fl. let q = (case d of CWD \<Rightarrow> p | Fd fd \<Rightarrow> path_join fd p) in
     if q = ''r/d'' then (if NOFOLLOW \<in> fl then Inl 40 else Inr ''/etc'')
     else if q = ''r'' \<or> q = ''/etc'' then Inr q else Inl 2)\<rparr>"

lemma swapped_sys_plain: "plain_names swapped_sys"
  using path_sys_plain by (simp add: plain_names_def swapped_sys_def)

theorem no_swap_leads_out_witness:
  "\<exists>s ev. changing_reach demo_ctx {(unix_platform path_sys, keep_going), (unix_platform swapped_sys, keep_going)}
       (n_workers (ctx_args demo_ctx)) (walk_init demo_ctx (unix_platform path_sys) [''r''] (\<lambda>_. ())) s
     \<and> ev \<in> set (ws_log s) \<and> e_path (fst ev) = ''r/d/g''
     \<and> (case sa_src (snd ev) of StatRoot p \<Rightarrow> p \<in> set [''r''] | StatChild dir name \<Rightarrow> dir \<in> {''r'', ''r/d''} \<and> leaf_name name)"
proof -
  let ?W = "{(unix_platform path_sys, keep_going), (unix_platform swapped_sys, keep_going)}"
  let ?Sys = "{path_sys, swapped_sys}" and ?inside = "\<lambda>fd. fd \<in> {''r'', ''r/d''}"
  have w: "fst ` ?W \<subseteq> unix_platform ` ?Sys" "unix_platform path_sys \<in> fst ` ?W" by simp_all
  obtain s where s: "walk_parallel demo_ctx (unix_platform path_sys) keep_going [''r''] (\<lambda>_. ()) s"
    using example_run [OF path_sys_fits] by blast
  then have reach: "changing_reach demo_ctx ?W (n_workers (ctx_args demo_ctx)) (walk_init demo_ctx (unix_platform path_sys) [''r''] (\<lambda>_. ())) s"
    unfolding walk_parallel_def by (blast intro: standing_still)
  have "''r/d/g'' \<in># image_mset (\<lambda>ev. e_path (fst ev)) (mset (ws_log s))" unfolding path_sys_log [OF s] by simp
  then obtain ev where ev: "ev \<in> set (ws_log s)" "e_path (fst ev) = ''r/d/g''" by auto
  have plain: "\<not> a_follow_symlinks (ctx_args demo_ctx)" by (simp add: demo_defs)
  have "case sa_src (snd ev) of StatRoot p \<Rightarrow> p \<in> set [''r''] | StatChild dir name \<Rightarrow> ?inside dir \<and> leaf_name name"
  proof (rule no_swap_leads_out [OF reach w(2,1) ev(1) plain])
    show "plain_names sys" if "sys \<in> ?Sys" for sys
      using that path_sys_plain swapped_sys_plain by blast
  qed (auto simp: swapped_sys_def path_sys_def EMFILE_def ENFILE_def Let_def path_join_leaf split: if_splits)
  with reach ev show ?thesis by blast
qed

end
