(* ===== verification/Changing_End.thy ===== *)
theory Changing_End
  imports Changing
begin

text \<open>
  Termination of the walk under \<open>--max-depth\<close> although the file system changes. There is no bound on the work,
  since a directory may grow until it is read; but a task only makes tasks one level deeper, so the multiset of the
  levels left goes down with every working step.
\<close>

section \<open>The levels left\<close>

definition level :: "usize \<Rightarrow> usize \<Rightarrow> nat" where
  "level mx depth = 4 * (unat mx - unat depth)"

abbreviation task_levels :: "usize \<Rightarrow> 'fd Task \<Rightarrow> nat multiset" where
  "task_levels mx t \<equiv> {#level mx (t_depth t) + 3#}"

abbreviation reading_levels :: "usize \<Rightarrow> 'fd descent \<Rightarrow> 'x list \<Rightarrow> nat multiset" where
  "reading_levels mx d xs \<equiv> add_mset 1 (replicate_mset (length xs) (level mx (d_child_depth d) + 4))"

fun phase_levels :: "usize \<Rightarrow> 'fd phase \<Rightarrow> nat multiset" where
  "phase_levels mx (Begin t) = task_levels mx t"
| "phase_levels mx (Descending t) = {#level mx (t_depth t) + 2#}"
| "phase_levels mx (Reading d xs) = reading_levels mx d xs"
| "phase_levels mx (Queueing t d xs) = task_levels mx t + reading_levels mx d xs"
| "phase_levels mx Finished = {#0#}"
| "phase_levels mx _ = {#}"

interpretation levels: task_weight "task_levels mx" "phase_levels mx" for mx
  by unfold_locales simp_all

abbreviation levels_left :: "usize \<Rightarrow> nat \<Rightarrow> ('fd, 'v) walk_state \<Rightarrow> nat multiset" where
  "levels_left mx n s \<equiv> outstanding (task_levels mx) (phase_levels mx) n s"

lemma begin_lowers:
  "ws_phase s w = Begin t \<Longrightarrow> phase_levels mx (ws_phase (begin_task ctx visitor w t s) w) < task_levels mx t"
  by (auto simp: begin_task_def begin_root_def visit_effect_def split: WalkState.split prod.split
      intro!: ex_gt_imp_less_multiset)

lemma open_lowers:
  assumes "a_max_depth (ctx_args ctx) = Some mx"
  shows "phase_levels mx (descend_phase ctx pf t a) < {#level mx (t_depth t) + 2#}"
proof (cases "descend_open ctx pf t a")
  case (Some d)
  note o = descend_open_token [OF Some]
  have lt: "t_depth t < mx" using descend_open_fields(4) [OF o assms] by simp
  then have "unat (d_child_depth d) = unat (t_depth t) + 1"
    using descend_open_fields(1) [OF o] word_succ_unat by simp
  then have "level mx (d_child_depth d) + 4 = level mx (t_depth t)" "0 < level mx (t_depth t)"
    using lt by (simp_all add: level_def word_less_nat_alt)
  then show ?thesis
    using Some by (auto simp: descend_phase_def in_replicate_mset intro!: ex_gt_imp_less_multiset split: if_splits)
qed (auto simp: descend_phase_def intro!: ex_gt_imp_less_multiset)

lemma read_lowers:
  "phase_levels mx (ws_phase (read_one ctx visitor w d x xs s) w) < reading_levels mx d (x # xs)"
proof -
  obtain r v' where r: "read_entry ctx visitor d x (ws_visitor s w) = (r, v')"
    by (cases "read_entry ctx visitor d x (ws_visitor s w)")
  have fewer: "M < N \<Longrightarrow> add_mset 1 M < add_mset 1 N" for M N :: "nat multiset" by simp
  have drop: "reading_levels mx d xs < reading_levels mx d (x # xs)" by simp
  have queue: "task_levels mx u + reading_levels mx d xs < reading_levels mx d (x # xs)"
    if "child_task ctx d x = Some u" for u
    using child_task_fields(1) [OF that] by (simp add: add_mset_commute)
  have stop: "{#0#} < reading_levels mx d (x # xs)" by (auto intro!: ex_gt_imp_less_multiset)
  show ?thesis
    using read_entry_cases [OF r] r drop queue stop
    by (auto simp: read_one_def visit_effect_def split: if_splits option.split)
qed

lemma working_lowers:
  assumes "walk_step ctx pf visitor n w s s'" "working (ws_phase s w)" "a_max_depth (ctx_args ctx) = Some mx"
  shows "phase_levels mx (ws_phase s' w) < phase_levels mx (ws_phase s w)"
  using assms(1,2)
proof cases
  case (begin_process t)
  then show ?thesis using begin_lowers by fastforce
next
  case (open_dir t a)
  then show ?thesis using open_lowers [OF assms(3)] by simp
next
  case (read_next d x xs)
  then show ?thesis using read_lowers [of mx ctx visitor w d x xs s] by simp
qed (auto intro!: ex_gt_imp_less_multiset)

lemma levels_step:
  assumes st: "walk_step ctx pf visitor n w s s'" and mx: "a_max_depth (ctx_args ctx) = Some mx"
  shows "levels_left mx n s' \<le> levels_left mx n s \<and> (working (ws_phase s w) \<longrightarrow> levels_left mx n s' < levels_left mx n s)"
proof (cases "working (ws_phase s w)")
  case True
  have "levels_left mx n s' + phase_levels mx (ws_phase s w) = levels_left mx n s + phase_levels mx (ws_phase s' w)"
    by (rule levels.working_changes_phase [OF st True])
  also have "\<dots> < levels_left mx n s + phase_levels mx (ws_phase s w)"
    using working_lowers [OF st True mx] by (rule add_strict_left_mono)
  finally have "levels_left mx n s' < levels_left mx n s" by simp
  then show ?thesis by simp
next
  case False
  then show ?thesis using levels.scheduling_conserves [OF st False, of mx] by simp
qed

section \<open>An end to the work\<close>

lemma descent_stops:
  fixes f :: "nat \<Rightarrow> 'o :: wellorder"
  assumes le: "\<And>i. f (Suc i) \<le> f i" and lt: "\<And>i. i \<in> A \<Longrightarrow> f (Suc i) < f i"
  shows "finite A"
proof -
  obtain i0 where i0: "\<And>j. f i0 \<le> f j"
    using exists_least_iff [of "\<lambda>x. \<exists>i. f i = x"] by (metis not_less)
  have "f j \<le> f i0" if "i0 \<le> j" for j
    using that by (induction rule: dec_induct) (auto intro: order_trans le)
  then have "j \<notin> A" if "i0 \<le> j" for j
    using i0 [of "Suc j"] lt [of j] that by (meson leD less_le_trans)
  then have "A \<subseteq> {..<i0}" by (meson lessThan_iff not_le subsetI)
  then show ?thesis by (rule finite_subset) simp
qed

text \<open>
  C24. With \<open>--max-depth\<close> the walk comes to an end while the file system is changed all the time, even by somebody who
  wants it to go on forever. In an endless run only finitely many steps can be work; and from every state the walk gets
  into, it can be brought to return from then on, whatever state of the file system it is left to.
\<close>

theorem walk_ends_while_changing:
  assumes "S 0 = walk_init ctx pf0 roots make_visitor"
    and "\<And>i. \<exists>(pf, visitor) \<in> W. walk_step ctx pf visitor n (worker i) (S i) (S (Suc i))"
    and "a_max_depth (ctx_args ctx) = Some mx" "0 < n"
  shows "finite {i. working (ws_phase (S i) (worker i))}
    \<and> (\<forall>i pf visitor. \<exists>s. walk_reach ctx pf visitor n (S i) s \<and> walk_returned n s)"
proof
  show "finite {i. working (ws_phase (S i) (worker i))}"
  proof (rule descent_stops)
    fix i
    obtain pf visitor where st: "walk_step ctx pf visitor n (worker i) (S i) (S (Suc i))" using assms(2) [of i] by blast
    show "levels_left mx n (S (Suc i)) \<le> levels_left mx n (S i)" using levels_step [OF st assms(3)] by blast
    show "levels_left mx n (S (Suc i)) < levels_left mx n (S i)" if "i \<in> {i. working (ws_phase (S i) (worker i))}"
      using levels_step [OF st assms(3)] that by simp
  qed
  show "\<forall>i pf visitor. \<exists>s. walk_reach ctx pf visitor n (S i) s \<and> walk_returned n s"
  proof (intro allI)
    fix i pf visitor
    have "changing_reach ctx W n (S 0) (S i)"
      by (induction i) (use assms(2) in \<open>fast intro: changing_start changing_next\<close>)+
    then have "counted n (S i)" unfolding assms(1) by (rule counted_changing [OF _ counted_init])
    then show "\<exists>s. walk_reach ctx pf visitor n (S i) s \<and> walk_returned n s"
      using levels_step [OF _ assms(3)] unfolding counted_def
      by (intro can_finish_by [where I = "\<lambda>_. True" and m = "levels_left mx n", OF assms(4)]) blast+
  qed
qed

end
