(* ===== verification/Changing_Run.thy ===== *)
theory Changing_Run
  imports Pipeline_Progress Changing
begin

text \<open>
  A whole run over a file system that changes: the pipeline of \<open>src/lib.rs\<close>, each step at a moment of its own.
  A moment is what the platform leaf and the other calls of the visitor answer then; the accounts and groups of
  the system stay as they are, since the visitor remembers what it looked up.
\<close>

type_synonym 'fd run_moment = "'fd platform \<times> os_calls"

inductive changing_run ::
  "WalkCtx \<Rightarrow> 'fd run_moment set \<Rightarrow> RunFilters \<Rightarrow> 'fd pipeline \<Rightarrow> 'fd pipeline \<Rightarrow> bool"
  for ctx W f r where
  run_begins: "changing_run ctx W f r r"
| run_goes_on: "\<lbrakk>changing_run ctx W f r r'; (pf, os) \<in> W; pipeline_step ctx pf f os r' r''\<rbrakk> \<Longrightarrow> changing_run ctx W f r r''"

text \<open>The visits that pass the filters at every moment, and those that do at some moment.\<close>

definition kept_always :: "'fd run_moment set \<Rightarrow> RunFilters \<Rightarrow> (Entry \<times> 'fd StatAt) multiset \<Rightarrow> Entry multiset" where
  "kept_always W f M = image_mset fst (filter_mset (\<lambda>ev. \<forall>(pf, os) \<in> W. keeps f os pf (fst ev) (snd ev)) M)"

definition kept_sometimes :: "'fd run_moment set \<Rightarrow> RunFilters \<Rightarrow> (Entry \<times> 'fd StatAt) multiset \<Rightarrow> Entry multiset" where
  "kept_sometimes W f M = image_mset fst (filter_mset (\<lambda>ev. \<exists>(pf, os) \<in> W. keeps f os pf (fst ev) (snd ev)) M)"

lemma kept_between:
  assumes "(pf, os) \<in> W"
  shows "kept_always W f M \<subseteq># kept f os pf M" "kept f os pf M \<subseteq># kept_sometimes W f M"
  unfolding kept_always_def kept_def kept_sometimes_def
  by (intro image_mset_subseteq_mono filter_mset_mono_strong; use assms in blast)+

lemma kept_always_add [simp]: "kept_always W f (M + N) = kept_always W f M + kept_always W f N"
  by (simp add: kept_always_def)

lemma kept_sometimes_add [simp]: "kept_sometimes W f (M + N) = kept_sometimes W f M + kept_sometimes W f N"
  by (simp add: kept_sometimes_def)

definition same_accounts :: "os_calls \<Rightarrow> os_calls \<Rightarrow> bool" where
  "same_accounts os os' \<longleftrightarrow> os_getpwuid os = os_getpwuid os' \<and> os_getgrgid os = os_getgrgid os'"

lemma running_inv_accounts: "same_accounts os os' \<Longrightarrow> running_inv ctx os K r = running_inv ctx os' K r"
  by (simp add: same_accounts_def running_inv_def workers_ok_def worker_ok_def nss_ok_def)

text \<open>What the walk of a run has visited is what a walk over a changing file system can visit.\<close>

abbreviation run_platforms :: "'fd run_moment set \<Rightarrow> 'fd platform set" where
  "run_platforms W \<equiv> fst ` W"

definition walk_sound :: "WalkCtx \<Rightarrow> 'fd run_moment set \<Rightarrow> path list \<Rightarrow> 'fd pipeline \<Rightarrow> bool" where
  "walk_sound ctx W roots r \<longleftrightarrow>
     tasks_all (admitted ctx (run_platforms W) roots) (\<lambda>d xs. \<exists>t. opened_for ctx (run_platforms W) roots t d xs)
       (visited_for ctx (run_platforms W) roots) (run_workers ctx) (pl_walk r)"

lemma tasks_all_visitor [simp]: "tasks_all P R Q n (s\<lparr>ws_visitor := v\<rparr>) = tasks_all P R Q n s"
  by (simp add: tasks_all_def)

lemma walk_sound_step:
  assumes "pipeline_step ctx pf f os r r'" "(pf, os) \<in> W" "walk_sound ctx W roots r"
  shows "walk_sound ctx W roots r'"
  using assms(1)
proof cases
  case (worker w seen s)
  have pf: "pf \<in> run_platforms W" using image_eqI [OF _ assms(2), of pf fst] by simp
  from admission.tasks_all_step [OF worker(5) pf] assms(3) show ?thesis
    unfolding walk_sound_def worker(1) by (simp add: collect_tx_def)
next
  case (print_next e es)
  then show ?thesis using assms(3) by (simp add: walk_sound_def after_print_def split: prod.split bool.split)
qed (use assms(3) in \<open>simp_all add: walk_sound_def collect_tx_def drop_batch_def\<close>)

lemma changing_run_invariant:
  assumes "changing_run ctx W f (pipeline_init ctx pf0 roots) r" "pf0 \<in> run_platforms W"
    and "\<And>pf os. (pf, os) \<in> W \<Longrightarrow> filters_ok f os \<and> same_accounts os os0"
  shows "walk_sound ctx W roots r \<and> (\<exists>K. running_inv ctx os0 K r
    \<and> kept_always W f (mset (ws_log (pl_walk r))) \<subseteq># K \<and> K \<subseteq># kept_sometimes W f (mset (ws_log (pl_walk r))))"
  using assms(1)
proof induction
  case run_begins
  have "walk_sound ctx W roots (pipeline_init ctx pf0 roots)"
    unfolding walk_sound_def pipeline_init_def pipeline.simps
    by (rule admission.tasks_all_init) (rule root_tasks_admitted [OF _ assms(2)])
  then show ?case
    using running_inv_init [of ctx os0 pf0 roots]
    by (intro conjI exI [of _ "{#}"]) (simp_all add: pipeline_init_def walk_init_def kept_always_def kept_sometimes_def)
next
  case (run_goes_on r' pf os r'')
  then obtain K where sound: "walk_sound ctx W roots r'" and inv: "running_inv ctx os0 K r'"
    and K: "kept_always W f (mset (ws_log (pl_walk r'))) \<subseteq># K" "K \<subseteq># kept_sometimes W f (mset (ws_log (pl_walk r')))"
    by blast
  have os: "filters_ok f os" "same_accounts os os0" using assms(3) [OF run_goes_on.hyps(2)] by blast+
  let ?N = "new_visits (pl_walk r') (pl_walk r'')"
  have st: "running_inv ctx os0 (K + kept f os pf ?N) r''" "mset (ws_log (pl_walk r'')) = mset (ws_log (pl_walk r')) + ?N"
    using running_step [OF run_goes_on.hyps(3) _ os(1)] inv running_inv_accounts [OF os(2)] by blast+
  show ?case
    using walk_sound_step [OF run_goes_on.hyps(3,2) sound] st(1)
      subset_mset.add_mono [OF K(1) kept_between(1) [OF run_goes_on.hyps(2), of f ?N]]
      subset_mset.add_mono [OF K(2) kept_between(2) [OF run_goes_on.hyps(2), of f ?N]]
    unfolding st(2) by (intro conjI exI [of _ "K + kept f os pf ?N"]) simp_all
qed

text \<open>
  C9. What is printed while the file system changes. At every moment of any run the output consists of complete lines,
  each for a different visit, and each visit is of a starting path or of an entry listed in an opened directory that
  passes the cuts; what is printed met the options at some moment. And when a run is over that was not
  interrupted, every visit of an entry that met them at all moments has been printed, unless
  the result limit was reached: changes to some entries lose no others.
\<close>

theorem output_while_changing:
  assumes "changing_run ctx W f (pipeline_init ctx pf0 roots) r" "pf0 \<in> fst ` W"
    and "\<And>pf os. (pf, os) \<in> W \<Longrightarrow> filters_ok f os \<and> same_accounts os os0"
  shows "\<exists>es. pr_out (pl_printer r) = concat (map (\<lambda>e. e_path e @ [print_separator (ctx_args ctx)]) es)
    \<and> mset es \<subseteq># kept_sometimes W f (mset (ws_log (pl_walk r)))
    \<and> (\<forall>ev \<in> set (ws_log (pl_walk r)). visited_for ctx (fst ` W) roots ev)
    \<and> (pipeline_done r \<and> \<not> pl_shutdown r \<longrightarrow>
         kept_always W f (mset (ws_log (pl_walk r))) \<subseteq># mset es
         \<or> (\<exists>n. max_results_cap (ctx_args ctx) = Some n \<and> length es = unat n))"
proof -
  obtain K where sound: "walk_sound ctx W roots r" and inv: "running_inv ctx os0 K r"
    and K: "kept_always W f (mset (ws_log (pl_walk r))) \<subseteq># K" "K \<subseteq># kept_sometimes W f (mset (ws_log (pl_walk r)))"
    using changing_run_invariant [OF assms(1,2)] assms(3) by meson
  let ?es = "pr_printed (pl_printer r)"
  have "mset ?es \<subseteq># K"
    using inv printed_in_flight [of r "run_workers ctx"]
    by (auto simp: running_inv_def flow_ok_def intro: subset_mset.order_trans)
  then have sub: "mset ?es \<subseteq># kept_sometimes W f (mset (ws_log (pl_walk r)))"
    using K(2) by (rule subset_mset.order_trans)
  have out: "pr_out (pl_printer r) = concat (map (output_line (print_separator (ctx_args ctx))) ?es)"
    using inv by (simp add: running_inv_def printer_ok_def)
  have "\<exists>n. max_results_cap (ctx_args ctx) = Some n \<and> length ?es = unat n" if "pl_cut r"
    using inv that by (simp add: running_inv_def printer_ok_def)
  then have fin: "kept_always W f (mset (ws_log (pl_walk r))) \<subseteq># mset ?es
      \<or> (\<exists>n. max_results_cap (ctx_args ctx) = Some n \<and> length ?es = unat n)" if "pipeline_done r" "\<not> pl_shutdown r"
    using running_done(1) [OF inv that] K(1) by (cases "pl_cut r") auto
  have seen: "\<forall>ev \<in> set (ws_log (pl_walk r)). visited_for ctx (fst ` W) roots ev"
    using sound by (simp add: walk_sound_def tasks_all_def list_all_iff)
  show ?thesis using out sub seen fin by (intro exI [of _ ?es] conjI impI) blast+
qed

end
