(* ===== verification/Changing_Example.thy ===== *)
theory Changing_Example
  imports Changing_End Changing_Run Run_Example
begin

text \<open>
  The example tree of \<open>Walk_Example\<close> changed during the walk: after the starting path has been visited, its
  directory \<open>d\<close> is on another device (something was mounted on it), while a second worker looks for work over and over.
\<close>

definition mounted_pf :: "string platform" where
  "mounted_pf = demo_pf\<lparr>pf_dir_id := (\<lambda>fd. if fd = ''r'' then Inr (1, 1) else Inr (2, 2))\<rparr>"

definition moments :: "(string, unit) moment set" where
  "moments = {(demo_pf, keep_going), (mounted_pf, keep_going)}"

abbreviation shallow_start :: "(string, unit) walk_state" where
  "shallow_start \<equiv> walk_init shallow_ctx demo_pf [''r''] (\<lambda>_. ())"

definition root_task_r :: "string Task" where
  "root_task_r = \<lparr>t_path = ''r'', t_parent = None, t_follow = True, t_depth = 0, t_root_dev = 1, t_ancestors = None\<rparr>"

text \<open>The state in which worker 0 has taken the starting path, and the one in which it has visited it.\<close>

definition root_taken :: "(string, unit) walk_state" where
  "root_taken = (set_phase 0 Finding shallow_start)\<lparr>ws_injector := [], ws_phase := (ws_phase shallow_start)(0 := Begin root_task_r)\<rparr>"

definition root_visited :: "(string, unit) walk_state" where
  "root_visited = begin_task shallow_ctx keep_going 0 root_task_r root_taken"

text \<open>Worker 1 goes round its loop.\<close>

definition spin :: "nat \<Rightarrow> ('fd, 'v) walk_state \<Rightarrow> ('fd, 'v) walk_state" where
  "spin i s = set_phase 1 (if i mod 3 = 0 then LoopTop else if i mod 3 = 1 then Finding else NoTask) s"

definition endless :: "nat \<Rightarrow> (string, unit) walk_state" where
  "endless i =
     (if i = 0 then shallow_start else if i = 1 then set_phase 0 Finding shallow_start
      else if i = 2 then root_taken else spin i root_visited)"

lemma spin_step:
  assumes "ws_pending s \<noteq> 0"
  shows "walk_step ctx pf visitor 2 1 (spin i s) (spin (Suc i) s)"
proof -
  consider "i mod 3 = 0" | "i mod 3 = 1" | "i mod 3 = 2" by linarith
  then show ?thesis
  proof cases
    case 1
    then have "spin (Suc i) s = set_phase 1 Finding (spin i s)" by (simp add: spin_def mod_Suc)
    then show ?thesis using 1 look [of 1 2 "spin i s"] by (simp add: spin_def)
  next
    case 2
    then have "spin (Suc i) s = set_phase 1 NoTask (spin i s)" by (simp add: spin_def mod_Suc)
    then show ?thesis using 2 miss [of 1 2 "spin i s"] by (simp add: spin_def)
  next
    case 3
    then have "spin (Suc i) s = set_phase 1 LoopTop (spin i s)" by (simp add: spin_def mod_Suc)
    then show ?thesis using 3 assms snooze [of 1 2 "spin i s"] by (simp add: spin_def)
  qed
qed

lemmas shallow_start_eval = walk_init_def shallow_roots root_task_r_def [symmetric]

lemma shallow_plain: "\<not> a_follow_symlinks (ctx_args shallow_ctx)"
  by (simp add: shallow_ctx_def demo_ctx_def demo_args_def)

lemma root_visited_fields:
  "ws_phase root_visited = (\<lambda>_. LoopTop)(0 := Descending root_task_r)" "ws_pending root_visited = 1"
  "\<not> ws_quit root_visited" "ws_log root_visited = [demo_root ''r'']"
  using shallow_plain
  by (simp_all add: root_visited_def root_taken_def begin_task_def begin_root_def root_task_r_def visit_effect_def
      call_visitor_def keep_going_def walk_init_def shallow_roots root_visit_def root_entry_def)

lemma spin_top: "ws_phase s 1 = LoopTop \<Longrightarrow> i mod 3 = 0 \<Longrightarrow> spin i s = s"
  by (simp add: spin_def fun_upd_idem del: One_nat_def)

lemma endless_step: "walk_step shallow_ctx pf keep_going 2 (if i < 3 then 0 else 1) (endless i) (endless (Suc i))"
proof -
  consider "i = 0" | "i = 1" | "i = 2" | "3 \<le> i" by linarith
  then show ?thesis
  proof cases
    case 1
    then show ?thesis using look [of 0 2 shallow_start] by (simp add: endless_def walk_init_def)
  next
    case 2
    then show ?thesis
      using steal_injector [of 0 2 "set_phase 0 Finding shallow_start" root_task_r "[]" "[]" "[]"]
      by (simp add: endless_def root_taken_def shallow_start_eval fun_upd_idem)
  next
    case 3
    have "spin 3 root_visited = root_visited" using root_visited_fields(1) by (simp add: spin_top)
    then show ?thesis
      using 3 begin_process [of 0 2 root_taken root_task_r]
      by (simp add: endless_def root_visited_def root_taken_def)
  next
    case 4
    then show ?thesis using spin_step [of root_visited] root_visited_fields(2) by (simp add: endless_def)
  qed
qed

theorem walk_ends_while_changing_witness:
  "(\<forall>i. \<exists>(pf, visitor) \<in> moments. walk_step shallow_ctx pf visitor 2 (if i < 3 then 0 else 1) (endless i) (endless (Suc i)))
   \<and> finite {i. working (ws_phase (endless i) (if i < 3 then 0 else 1))}
   \<and> (\<exists>s. walk_reach shallow_ctx mounted_pf keep_going 2 (endless 3) s \<and> walk_returned 2 s)"
proof -
  have st: "\<exists>(pf, visitor) \<in> moments. walk_step shallow_ctx pf visitor 2 (if i < 3 then 0 else 1) (endless i) (endless (Suc i))" for i
    using endless_step [of mounted_pf i] by (auto simp: moments_def)
  have m: "a_max_depth (ctx_args shallow_ctx) = Some 1" by (simp add: shallow_ctx_def)
  have "endless 0 = shallow_start" by (simp add: endless_def)
  from walk_ends_while_changing [OF this st m] show ?thesis using st by simp
qed

lemma root_visited_changing: "changing_reach shallow_ctx moments 2 shallow_start root_visited"
proof -
  have "changing_reach shallow_ctx moments 2 shallow_start (endless i)" for i
  proof (induction i)
    case (Suc i)
    then show ?case by (rule changing_next [OF _ _ endless_step [of demo_pf]]) (simp add: moments_def)
  qed (simp add: endless_def changing_start)
  from this [of 3] show ?thesis using root_visited_fields(1) by (simp add: endless_def spin_top)
qed

lemma finished_changing:
  "\<exists>s. changing_reach shallow_ctx moments 2 shallow_start s \<and> walk_returned 2 s \<and> \<not> ws_quit s"
proof -
  have m: "a_max_depth (ctx_args shallow_ctx) = Some 1" by (simp add: shallow_ctx_def)
  have go: "fst (keep_going v e st) = WalkContinue" for v e st by (simp add: keep_going_def)
  have "counted 2 root_visited" by (rule counted_changing [OF root_visited_changing counted_init])
  then obtain s where s: "walk_reach shallow_ctx mounted_pf keep_going 2 root_visited s" "walk_returned 2 s"
    using can_finish_by [where I = "\<lambda>_. True" and m = "levels_left 1 2", of 2 shallow_ctx mounted_pf keep_going]
      levels_step [OF _ m] unfolding counted_def by fastforce
  have "changing_reach shallow_ctx moments 2 shallow_start s"
    using s(1)
  proof (induction rule: walk_reach.induct)
    case (reach_step s' w s'')
    show ?case by (rule changing_next [OF reach_step.IH _ reach_step.hyps(2)]) (simp add: moments_def)
  qed (rule root_visited_changing)
  moreover have "\<not> ws_quit s" by (rule no_quit_reach [OF s(1) go root_visited_fields(3)])
  ultimately show ?thesis using s(2) by blast
qed

theorem exit_means_no_work_changing_witness:
  "\<exists>s. changing_reach shallow_ctx moments 2 shallow_start s \<and> walk_returned 2 s \<and> ws_injector s = []"
proof -
  obtain s where s: "changing_reach shallow_ctx moments 2 shallow_start s" "walk_returned 2 s" "\<not> ws_quit s"
    using finished_changing by blast
  then have "ws_phase s 0 = Exited" by (simp add: walk_returned_def)
  with exit_means_no_work_changing [OF s(1), of 0] s show ?thesis by auto
qed

text \<open>Worker 0 opens the starting path and visits the file in it.\<close>

definition file_visited :: "(string, unit) walk_state" where
  "file_visited =
     read_one shallow_ctx keep_going 0
       \<lparr>d_dir = ''r'', d_child_ancestors = None, d_child_depth = 1, d_enqueue_children = False, d_root_dev = 1\<rparr>
       (''r/f'', ''f'', File) [(''r/d'', ''d'', Dir)]
       (set_phase 0 (descend_phase shallow_ctx demo_pf root_task_r True) root_visited)"

lemma file_visited_changing: "changing_reach shallow_ctx moments 2 shallow_start file_visited"
proof -
  let ?u = "set_phase 0 (descend_phase shallow_ctx demo_pf root_task_r True) root_visited"
  have in_both: "(demo_pf, keep_going) \<in> moments" "(mounted_pf, keep_going) \<in> moments" by (simp_all add: moments_def)
  have "walk_step shallow_ctx demo_pf keep_going 2 0 root_visited ?u"
    by (rule open_dir) (simp_all add: root_visited_fields)
  note u = changing_next [OF root_visited_changing in_both(1) this]
  have "walk_step shallow_ctx mounted_pf keep_going 2 0 ?u file_visited"
    unfolding file_visited_def
    by (rule read_next)
       (simp_all add: descend_phase_def descend_open_def open_task_def root_task_r_def shallow_ctx_def demo_defs)
  from changing_next [OF u in_both(2) this] show ?thesis .
qed

lemma file_visited_log: "ws_log file_visited = [demo_root ''r'', demo_child ''r'' ''f'' File 1]"
  using shallow_plain root_visited_fields(4)
  by (simp add: file_visited_def read_one_def read_entry_def call_visitor_def keep_going_def excluded_def
      shallow_ctx_def demo_ctx_def child_task_def child_visit_def child_entry_def visit_effect_def)

theorem cuts_hold_while_changing_witness:
  "\<exists>s ev. changing_reach shallow_ctx moments 2 shallow_start s \<and> ev \<in> set (ws_log s) \<and> e_path (fst ev) = ''r/f''
     \<and> (\<exists>pf \<in> {demo_pf, mounted_pf}. listed_visit shallow_ctx pf 1 ev)"
proof -
  let ?ev = "demo_child ''r'' ''f'' File 1"
  have ev: "?ev \<in> set (ws_log file_visited)" by (simp add: file_visited_log)
  have ne: "e_depth (fst ?ev) \<noteq> 0" by simp
  have w: "fst ` moments = {demo_pf, mounted_pf}" "demo_pf \<in> fst ` moments" by (simp_all add: moments_def)
  from cuts_hold_while_changing [OF file_visited_changing w(2) ev] ne
  have "\<exists>dev ino. (\<exists>pf \<in> fst ` moments. pf_path_id pf ''r'' = Inr (dev, ino)) \<and> (\<exists>pf \<in> fst ` moments. listed_visit shallow_ctx pf dev ?ev)"
    by auto
  then have "\<exists>pf \<in> fst ` moments. listed_visit shallow_ctx pf 1 ?ev"
    by (auto simp: moments_def mounted_pf_def demo_pf_def)
  with file_visited_changing ev show ?thesis
    unfolding w(1) by (intro exI [of _ file_visited] exI [of _ ?ev]) simp
qed

text \<open>A whole run that keeps everything, with the same two moments.\<close>

definition run_moments :: "string run_moment set" where
  "run_moments = {(demo_pf, quiet_os), (mounted_pf, quiet_os)}"

theorem output_while_changing_witness:
  "\<exists>r es. changing_run demo_ctx run_moments keep_all (pipeline_init demo_ctx demo_pf [''r'']) r \<and> pipeline_done r
    \<and> pr_out (pl_printer r) = concat (map (\<lambda>e. e_path e @ [CHR 0x0A]) (es :: Entry list))
    \<and> image_mset fst (roots_tree demo_ctx demo_pf 3 [''r'']) \<subseteq># mset es"
proof -
  obtain r where r: "pipeline_reach demo_ctx demo_pf keep_all quiet_os (pipeline_init demo_ctx demo_pf [''r'']) r"
    "pipeline_done r" "\<not> pl_shutdown r"
    using pipeline_can_finish [OF pipeline_inv_init [OF demo_fits] keep_all_ok] by (auto simp: pipeline_init_def)
  have run: "changing_run demo_ctx run_moments keep_all (pipeline_init demo_ctx demo_pf [''r'']) r"
    using r(1)
  proof (induction rule: pipeline_reach.induct)
    case (pl_step r' r'')
    show ?case by (rule run_goes_on [OF pl_step.IH _ pl_step.hyps(2)]) (simp add: run_moments_def)
  qed (rule run_begins)
  have cap: "max_results_cap (ctx_args demo_ctx) = None" "print_separator (ctx_args demo_ctx) = CHR 0x0A"
    by (simp_all add: max_results_cap_def print_separator_def demo_defs)
  note inv = run_invariant [OF r(1) demo_fits keep_all_ok]
  have "\<not> pl_cut r" using inv cap(1) by (auto simp: pipeline_inv_parts printer_ok_def)
  then have "\<not> ws_quit (pl_walk r)"
    using inv r(2,3) running_done(2) unfolding pipeline_inv_def by blast
  then have log: "mset (ws_log (pl_walk r)) = roots_tree demo_ctx demo_pf 3 [''r'']"
    by (rule done_unquit_complete [OF inv r(2)])
  have all: "kept_always run_moments keep_all (roots_tree demo_ctx demo_pf 3 [''r'']) = image_mset fst (roots_tree demo_ctx demo_pf 3 [''r''])"
    unfolding kept_always_def run_moments_def demo_tree by (simp add: keep_all_keeps)
  have "demo_pf \<in> fst ` run_moments" by (simp add: run_moments_def)
  then obtain es where "pr_out (pl_printer r) = concat (map (\<lambda>e. e_path e @ [CHR 0x0A]) (es :: Entry list))"
    "kept_always run_moments keep_all (mset (ws_log (pl_walk r))) \<subseteq># mset es"
    using output_while_changing [OF run, of quiet_os] keep_all_ok r(2,3) cap
    by (auto simp: run_moments_def same_accounts_def)
  with run r(2) show ?thesis unfolding log all by blast
qed

end
