(* ===== verification/Tests_Meta.thy ===== *)
theory Tests_Meta
  imports Predicates Nss Filetype
begin

text \<open>
  The unit tests of \<open>src/meta.rs\<close> and \<open>src/filetype.rs\<close>, each as a definition named after it that says what
  the test asserts, and evaluated on the model. A verdict that panics satisfies no assertion.
\<close>

text \<open>An assertion about \<open>r.unwrap()\<close>.\<close>

definition unwrapped :: "'e + 'a \<Rightarrow> ('a \<Rightarrow> bool) \<Rightarrow> bool" where
  "unwrapped r P = (case r of Inr x \<Rightarrow> P x | Inl _ \<Rightarrow> False)"

section \<open>Comparisons, sizes and times\<close>

definition comparison_tristate :: bool where
  "comparison_tristate =
     (unwrapped (comparison_parse ''5'') (\<lambda>c. comparison_matches c 5)
      \<and> unwrapped (comparison_parse ''5'') (\<lambda>c. \<not> comparison_matches c 6)
      \<and> unwrapped (comparison_parse ''+5'') (\<lambda>c. comparison_matches c 6)
      \<and> unwrapped (comparison_parse ''+5'') (\<lambda>c. \<not> comparison_matches c 5)
      \<and> unwrapped (comparison_parse ''-5'') (\<lambda>c. comparison_matches c 4)
      \<and> unwrapped (comparison_parse ''-5'') (\<lambda>c. \<not> comparison_matches c 5)
      \<and> \<not> is_ok (comparison_parse ''bad''))"

definition size_requires_unit_suffix :: bool where
  "size_requires_unit_suffix =
     (\<not> is_ok (size_parse ''10'') \<and> \<not> is_ok (size_parse ''+10'') \<and> \<not> is_ok (size_parse ''10x''))"

definition size_units_and_rounding :: bool where
  "size_units_and_rounding =
     (unwrapped (size_parse ''100c'') (\<lambda>p. size_matches p 100 = Some True)
      \<and> unwrapped (size_parse ''100c'') (\<lambda>p. size_matches p 101 = Some False)
      \<and> unwrapped (size_parse ''+100c'') (\<lambda>p. size_matches p 101 = Some True)
      \<and> unwrapped (size_parse ''-100c'') (\<lambda>p. size_matches p 99 = Some True)
      \<and> unwrapped (size_parse ''1k'')
          (\<lambda>k. size_matches k 1 = Some True \<and> size_matches k 1024 = Some True \<and> size_matches k 1025 = Some False)
      \<and> unwrapped (size_parse ''+1M'') (\<lambda>p. size_matches p (push_bit 20 1 + 1) = Some True)
      \<and> unwrapped (size_parse ''+1M'') (\<lambda>p. size_matches p (push_bit 20 1) = Some False))"

definition time_find_day_semantics :: bool where
  "time_find_day_semantics =
     (let now = 100 * DAY; m = blank_meta\<lparr>m_mtime := now - 2 * DAY\<rparr>; m' = blank_meta\<lparr>m_mtime := now - 43200\<rparr> in
      unwrapped (time_mtime ''2'' DAY) (\<lambda>t. time_matches t m now = Some True)
      \<and> unwrapped (time_mtime ''+1'' DAY) (\<lambda>t. time_matches t m now = Some True)
      \<and> unwrapped (time_mtime ''-1'' DAY) (\<lambda>t. time_matches t m' now = Some True)
      \<and> unwrapped (time_mtime ''1'' DAY) (\<lambda>t. time_matches t m' now = Some False))"

definition time_minutes_and_fields :: bool where
  "time_minutes_and_fields =
     (let now = 10000; m = blank_meta\<lparr>m_atime := now - 5 * MINUTE\<rparr>; m' = m\<lparr>m_ctime := now - 3 * MINUTE\<rparr> in
      unwrapped (time_atime ''5'' MINUTE) (\<lambda>t. time_matches t m now = Some True)
      \<and> unwrapped (time_ctime ''-5'' MINUTE) (\<lambda>t. time_matches t m' now = Some True))"

section \<open>Predicate sets\<close>

definition links_predicate_over_nlink :: bool where
  "links_predicate_over_nlink =
     unwrapped (id_parse ''2'') (\<lambda>i. let p = default_predicates\<lparr>p_links := Some i\<rparr> in
       predicates_matches p (blank_meta\<lparr>m_nlink := 2\<rparr>) 0 = Some True
       \<and> predicates_matches p (blank_meta\<lparr>m_nlink := 3\<rparr>) 0 = Some False)"

definition inum_predicate_over_ino :: bool where
  "inum_predicate_over_ino =
     unwrapped (id_parse ''+4000'') (\<lambda>i. let p = default_predicates\<lparr>p_inum := Some i\<rparr> in
       predicates_matches p (blank_meta\<lparr>m_ino := 4096\<rparr>) 0 = Some True
       \<and> predicates_matches p (blank_meta\<lparr>m_ino := 100\<rparr>) 0 = Some False)"

definition newer_compares_against_reference_mtime :: bool where
  "newer_compares_against_reference_mtime =
     (let p = default_predicates\<lparr>p_newer := [newer_newer 1000]\<rparr> in
      predicates_matches p (blank_meta\<lparr>m_mtime := 1001\<rparr>) 0 = Some True
      \<and> predicates_matches p (blank_meta\<lparr>m_mtime := 1000\<rparr>) 0 = Some False)"

definition newer_mask_requests_the_right_field :: bool where
  "newer_mask_requests_the_right_field =
     (predicates_mask (default_predicates\<lparr>p_newer := [newer_anewer 0]\<rparr>) = mask_ATIME)"

definition predicates_mask_and_and_logic :: bool where
  "predicates_mask_and_and_logic =
     unwrapped (size_parse ''+0c'') (\<lambda>sz. unwrapped (time_mtime ''-1'' DAY) (\<lambda>t.
       let p = default_predicates\<lparr>p_size := Some sz, p_times := [t], p_uid := Some (id_exact 0)\<rparr>;
           m = blank_meta\<lparr>m_size := 10, m_uid := 0, m_mtime := 0\<rparr> in
       is_active p
       \<and> predicates_mask p = mask_SIZE OR mask_MTIME OR mask_UID
       \<and> \<not> is_active default_predicates
       \<and> predicates_matches p m 43200 = Some True
       \<and> predicates_matches p (m\<lparr>m_uid := 5\<rparr>) 43200 = Some False))"

definition id_predicates :: bool where
  "id_predicates =
     (unwrapped (id_parse ''1000'') (\<lambda>i. id_matches i 1000) \<and> unwrapped (id_parse ''+1000'') (\<lambda>i. id_matches i 1001)
      \<and> id_matches (id_exact 0) 0 \<and> \<not> id_matches (id_exact 0) 1)"

section \<open>Permissions\<close>

definition perm_octal_tristate :: bool where
  "perm_octal_tristate =
     (unwrapped (perm_parse ''644'') (\<lambda>p. perm_matches p 0x1A4 \<and> \<not> perm_matches p 0x1A5)
      \<and> unwrapped (perm_parse ''-644'') (\<lambda>p. perm_matches p 0x1A4 \<and> perm_matches p 0x1E4 \<and> \<not> perm_matches p 0x180)
      \<and> unwrapped (perm_parse ''/022'') (\<lambda>p. perm_matches p 0x10 \<and> perm_matches p 0x2 \<and> \<not> perm_matches p 0x1A4))"

definition perm_symbolic :: bool where
  "perm_symbolic =
     (unwrapped (perm_parse ''u+w'') (\<lambda>p. perm_matches p 0x80)
      \<and> unwrapped (perm_parse ''-u+w'') (\<lambda>p. perm_matches p 0x180)
      \<and> unwrapped (perm_parse ''-u+w'') (\<lambda>p. \<not> perm_matches p 0x100)
      \<and> unwrapped (perm_parse ''a+rx'') (\<lambda>p. perm_matches p 0x16D)
      \<and> unwrapped (perm_parse ''u+s'') (\<lambda>p. perm_matches p 0x800)
      \<and> unwrapped (perm_parse ''/+t'') (\<lambda>p. perm_matches p 0x200)
      \<and> \<not> is_ok (perm_parse ''bad?''))"

section \<open>Accounts\<close>

text \<open>An account database in which, as on every Unix, uid 0 is \<open>root\<close> and these others do not exist.\<close>

definition root_by_name :: "string \<Rightarrow> nat \<Rightarrow> nss_reply" where
  "root_by_name n len = (0, if n = ''root'' then Some 0 else None)"

definition root_by_id :: "u32 \<Rightarrow> nat \<Rightarrow> nss_reply" where
  "root_by_id i len = (0, if i = 0 then Some 0 else None)"

definition nss_cache_resolves_root_and_misses_high_id :: bool where
  "nss_cache_resolves_root_and_misses_high_id =
     (case user_exists root_by_id 0 nss_cache_default of
        None \<Rightarrow> False
      | Some (found, cache) \<Rightarrow> found \<and> map_option fst (user_exists root_by_id 4000000000 cache) = Some False)"

definition resolve_user_root_and_numeric :: bool where
  "resolve_user_root_and_numeric =
     (resolve_user root_by_name ''root'' = Some (Inr 0) \<and> resolve_user root_by_name ''4242'' = Some (Inr 4242)
      \<and> (case resolve_user root_by_name ''definitely-no-such-user-xyz'' of Some (Inl _) \<Rightarrow> True | _ \<Rightarrow> False))"

section \<open>The type filter\<close>

definition new_empty_slice_selects_nothing :: bool where
  "new_empty_slice_selects_nothing = (ft_selected (filetype_new []) = 0 \<and> \<not> ft_empty (filetype_new []))"

definition new_file_only :: bool where
  "new_file_only = (ft_selected (filetype_new [SelFile]) = FT_FILE)"

definition new_all_types :: bool where
  "new_all_types =
     (ft_selected (filetype_new [SelFile, SelDirectory, SelSymlink, SelBlockDevice, SelCharDevice, SelPipe, SelSocket])
      = FT_FILE OR FT_DIRECTORY OR FT_SYMLINK OR FT_BLOCK_DEVICE OR FT_CHAR_DEVICE OR FT_PIPE OR FT_SOCKET)"

definition empty_alone_auto_expands_to_file_and_dir :: bool where
  "empty_alone_auto_expands_to_file_and_dir =
     (let f = filetype_new [SelEmpty] in ft_empty f \<and> ft_selected f = FT_FILE OR FT_DIRECTORY)"

definition empty_with_dir_does_not_add_file :: bool where
  "empty_with_dir_does_not_add_file =
     (let f = filetype_new [SelEmpty, SelDirectory] in ft_empty f \<and> ft_selected f = FT_DIRECTORY)"

text \<open>The files the tests make: an empty one, one of a byte, an empty directory, and one with an entry.\<close>

definition test_read_dir :: "path \<Rightarrow> int + (int + string) list" where
  "test_read_dir p = (if p = ''d'' then Inr [] else if p = ''d2'' then Inr [Inr ''c''] else Inl 2)"

definition test_len :: "path \<Rightarrow> int + u64" where
  "test_len p = (if p = ''empty.txt'' then Inr 0 else if p = ''full.txt'' then Inr 1 else Inl 2)"

definition ignore_filetype_rejects_unselected_type :: bool where
  "ignore_filetype_rejects_unselected_type =
     (let f = filetype_new [SelDirectory] in
      ignore_filetype test_read_dir test_len f File ''/x'' \<and> \<not> ignore_filetype test_read_dir test_len f Dir ''/x'')"

definition is_empty_zero_byte_file_true_nonempty_false :: bool where
  "is_empty_zero_byte_file_true_nonempty_false =
     (entry_is_empty test_read_dir test_len ''empty.txt'' False
      \<and> \<not> entry_is_empty test_read_dir test_len ''full.txt'' False)"

definition is_empty_dir_true_when_childless :: bool where
  "is_empty_dir_true_when_childless =
     (entry_is_empty test_read_dir test_len ''d'' True \<and> \<not> entry_is_empty test_read_dir test_len ''d2'' True)"

definition empty_constraint_rejects_nonempty_file :: bool where
  "empty_constraint_rejects_nonempty_file =
     ignore_filetype test_read_dir test_len (filetype_new [SelEmpty]) File ''full.txt''"

section \<open>All of them\<close>

lemma meta_tests_1: "list_all id
    [comparison_tristate, size_requires_unit_suffix, size_units_and_rounding, time_find_day_semantics,
    time_minutes_and_fields, links_predicate_over_nlink]"
  by code_simp

lemma meta_tests_2: "list_all id
    [inum_predicate_over_ino, newer_compares_against_reference_mtime, newer_mask_requests_the_right_field,
    predicates_mask_and_and_logic, id_predicates, perm_octal_tristate]"
  by code_simp

lemma meta_tests_3: "list_all id
    [perm_symbolic, nss_cache_resolves_root_and_misses_high_id, resolve_user_root_and_numeric,
    new_empty_slice_selects_nothing, new_file_only, new_all_types]"
  by code_simp

lemma meta_tests_4: "list_all id
    [empty_alone_auto_expands_to_file_and_dir, empty_with_dir_does_not_add_file,
    ignore_filetype_rejects_unselected_type, is_empty_zero_byte_file_true_nonempty_false,
    is_empty_dir_true_when_childless, empty_constraint_rejects_nonempty_file]"
  by code_simp

lemma meta_unit_tests_hold:
  "list_all id
    [comparison_tristate, size_requires_unit_suffix, size_units_and_rounding, time_find_day_semantics,
    time_minutes_and_fields, links_predicate_over_nlink, inum_predicate_over_ino,
    newer_compares_against_reference_mtime, newer_mask_requests_the_right_field,
    predicates_mask_and_and_logic, id_predicates, perm_octal_tristate, perm_symbolic,
    nss_cache_resolves_root_and_misses_high_id, resolve_user_root_and_numeric,
    new_empty_slice_selects_nothing, new_file_only, new_all_types, empty_alone_auto_expands_to_file_and_dir,
    empty_with_dir_does_not_add_file, ignore_filetype_rejects_unselected_type,
    is_empty_zero_byte_file_true_nonempty_false, is_empty_dir_true_when_childless,
    empty_constraint_rejects_nonempty_file]"
  using meta_tests_1 meta_tests_2 meta_tests_3 meta_tests_4
  by (simp only: list.pred_inject id_apply simp_thms)

end
