(* ===== verification/Tests_Args.thy ===== *)
theory Tests_Args
  imports Args_Correct Tests_Meta
begin

text \<open>
  The unit tests of \<open>src/args.rs\<close>, each as a definition named after it that says what the test asserts, and
  evaluated on the model. The tokenizer is an instance of \<open>lexopt\<close> with short options that may be combined and
  separate values, which is what the tests use; of the machine there are the directory \<open>/tmp\<close> (\<open>tmp_dir\<close>),
  eight CPUs, and the user \<open>root\<close>.
\<close>

section \<open>The environment of the tests\<close>

fun test_next :: "string \<times> osstring list \<Rightarrow> string + arg option \<times> (string \<times> osstring list)" where
  "test_next (c # cs, ts) = Inr (Some (Short c), (cs, ts))"
| "test_next ([], []) = Inr (None, ([], []))"
| "test_next ([], t # ts) =
     (if take 2 t = ''--'' then Inr (Some (Long (drop 2 t)), ([], ts))
      else if take 1 t = ''-'' \<and> length t \<ge> 2 then Inr (Some (Short (t ! 1)), (drop 2 t, ts))
      else Inr (Some (Value t), ([], ts)))"

fun test_value :: "string \<times> osstring list \<Rightarrow> string + osstring \<times> (string \<times> osstring list)" where
  "test_value (c # cs, ts) = Inr (c # cs, ([], ts))"
| "test_value ([], []) = Inl ''missing value''"
| "test_value ([], t # ts) = Inr (t, ([], ts))"

definition test_lexopt :: "(string \<times> osstring list) lexopt" where
  "test_lexopt =
     \<lparr>lx_from_iter = (\<lambda>argv. ([], drop 1 argv)), lx_next = test_next, lx_value = test_value, lx_string = Inr,
      lx_parse_usize = (\<lambda>s. map_sum (\<lambda>_. ''bad number'') id (parse_usize s)),
      lx_parse_u32 = (\<lambda>s. map_sum (\<lambda>_. ''bad number'') id (parse_u32_radix 10 s)),
      lx_unexpected = (\<lambda>_. ''unexpected argument'')\<rparr>"

definition tmp_dir :: string where "tmp_dir = ''/tmp''"

definition test_env :: parse_env where
  "test_env =
     \<lparr>env_is_dir = (\<lambda>p. p = tmp_dir), env_normalize = Inr, env_parallelism = Some 8,
      env_getpwnam = (\<lambda>n _. (0, if n = ''root'' then Some 0 else None)), env_getgrnam = (\<lambda>_ _. (0, None)),
      env_modified = (\<lambda>p. if p = tmp_dir then Inr \<lparr>st_secs = 0, st_nanos = 0\<rparr> else Inl 2)\<rparr>"

definition parse_argv :: "string list \<Rightarrow> (error + Outcome) option option" where
  "parse_argv extra = parse_inner test_lexopt test_env (''minifind'' # extra)"

text \<open>\<open>run(extra)\<close>, followed by assertions on its result; without one \<open>run\<close> panics.\<close>

definition after_run :: "string list \<Rightarrow> (Args \<Rightarrow> bool) \<Rightarrow> bool" where
  "after_run extra P = (case parse_argv extra of Some (Some (Inr (Run a))) \<Rightarrow> P a | _ \<Rightarrow> False)"

definition rejects :: "string list \<Rightarrow> bool" where
  "rejects extra = (case parse_argv extra of Some (Some (Inl _)) \<Rightarrow> True | _ \<Rightarrow> False)"

definition accepts :: "string list \<Rightarrow> bool" where
  "accepts extra = (case parse_argv extra of Some (Some (Inr _)) \<Rightarrow> True | _ \<Rightarrow> False)"

declare parse_loop.simps [code]

section \<open>Options\<close>

definition test_parse_inner_defaults :: bool where
  "test_parse_inner_defaults = after_run [tmp_dir] (\<lambda>a. \<not> a_follow_symlinks a \<and> a_one_filesystem a
     \<and> \<not> a_case_insensitive a \<and> a_max_depth a = None \<and> a_max_scan_rate a = None \<and> a_name a = None \<and> a_regex a = None
     \<and> a_file_type a = [SelDirectory, SelFile, SelSymlink] \<and> length (a_path a) = 1)"

definition test_parse_inner_idle_defaults_to_two_threads :: bool where
  "test_parse_inner_idle_defaults_to_two_threads = after_run [''--idle'', tmp_dir] (\<lambda>a. a_idle a \<and> a_threads a = 2)"

definition test_parse_inner_idle_explicit_threads_wins :: bool where
  "test_parse_inner_idle_explicit_threads_wins =
     (after_run [''--idle'', ''--threads'', ''8'', tmp_dir] (\<lambda>a. a_threads a = 8)
      \<and> after_run [''--threads'', ''8'', ''--idle'', tmp_dir] (\<lambda>a. a_threads a = 8))"

definition test_parse_inner_idle_off_by_default :: bool where
  "test_parse_inner_idle_off_by_default = after_run [tmp_dir] (\<lambda>a. \<not> a_idle a)"

definition test_parse_inner_bare_flags :: bool where
  "test_parse_inner_bare_flags = after_run [''-f'', ''-i'', ''--no-one-filesystem'', tmp_dir]
     (\<lambda>a. a_follow_symlinks a \<and> a_case_insensitive a \<and> \<not> a_one_filesystem a)"

definition test_parse_inner_follow_alias_capital_l :: bool where
  "test_parse_inner_follow_alias_capital_l = after_run [''-L'', tmp_dir] a_follow_symlinks"

definition test_parse_inner_find_name_alias :: bool where
  "test_parse_inner_find_name_alias = after_run [''-name'', ''*.rs'', tmp_dir] (\<lambda>a. a_name a = Some [''*.rs''])"

definition test_parse_inner_find_type_alias :: bool where
  "test_parse_inner_find_type_alias = after_run [''-type'', ''f'', tmp_dir] (\<lambda>a. a_file_type a = [SelFile])"

definition test_parse_inner_find_maxdepth_alias :: bool where
  "test_parse_inner_find_maxdepth_alias = after_run [''-maxdepth'', ''2'', tmp_dir] (\<lambda>a. a_max_depth a = Some 2)"

definition test_parse_inner_find_regex_alias :: bool where
  "test_parse_inner_find_regex_alias = after_run [''-regex'', ''.*'', tmp_dir] (\<lambda>a. a_regex a = Some [''.*''])"

definition test_parse_inner_find_xdev_and_mount_aliases :: bool where
  "test_parse_inner_find_xdev_and_mount_aliases =
     (after_run [''--cross-filesystem'', ''-xdev'', tmp_dir] a_one_filesystem
      \<and> after_run [''--cross-filesystem'', ''-mount'', tmp_dir] a_one_filesystem)"

definition test_parse_inner_find_follow_alias :: bool where
  "test_parse_inner_find_follow_alias = after_run [''-follow'', tmp_dir] a_follow_symlinks"

definition test_parse_inner_path_glob_aliases :: bool where
  "test_parse_inner_path_glob_aliases =
     (after_run [''-path'', ''*/x'', tmp_dir] (\<lambda>a. a_path_glob a \<noteq> None)
      \<and> after_run [''-wholename'', ''*/x'', tmp_dir] (\<lambda>a. a_path_glob a \<noteq> None)
      \<and> after_run [''-ipath'', ''*/X'', tmp_dir] (\<lambda>a. a_path_glob a \<noteq> None \<and> a_case_insensitive a))"

definition test_parse_inner_lname_aliases :: bool where
  "test_parse_inner_lname_aliases =
     (after_run [''-lname'', ''*.so'', tmp_dir] (\<lambda>a. a_lname a \<noteq> None)
      \<and> after_run [''-ilname'', ''*.SO'', tmp_dir] (\<lambda>a. a_lname a \<noteq> None \<and> a_case_insensitive a))"

definition test_parse_inner_newer_reads_reference_file :: bool where
  "test_parse_inner_newer_reads_reference_file =
     (after_run [''-newer'', tmp_dir, tmp_dir] (\<lambda>a. length (p_newer (a_meta a)) = 1)
      \<and> rejects [''-newer'', ''/no/such/ref'', tmp_dir])"

definition test_parse_inner_quit_caps_at_one :: bool where
  "test_parse_inner_quit_caps_at_one = after_run [''-quit'', tmp_dir] (\<lambda>a. a_max_results a = Some 1)"

definition test_parse_inner_noop_aliases_accepted :: bool where
  "test_parse_inner_noop_aliases_accepted =
     (accepts [''-print'', tmp_dir] \<and> accepts [''-ignore_readdir_race'', tmp_dir])"

definition test_parse_inner_links_inum_aliases :: bool where
  "test_parse_inner_links_inum_aliases =
     (after_run [''-links'', ''2'', tmp_dir] (\<lambda>a. p_links (a_meta a) \<noteq> None)
      \<and> after_run [''-inum'', ''+0'', tmp_dir] (\<lambda>a. p_inum (a_meta a) \<noteq> None))"

definition test_parse_inner_nouser_nogroup :: bool where
  "test_parse_inner_nouser_nogroup =
     (after_run [''-nouser'', tmp_dir] (\<lambda>a. p_nouser (a_meta a)) \<and> after_run [''-nogroup'', tmp_dir] (\<lambda>a. p_nogroup (a_meta a)))"

definition test_parse_inner_access_aliases :: bool where
  "test_parse_inner_access_aliases =
     (after_run [''-readable'', tmp_dir] (\<lambda>a. a_access a = access_READ)
      \<and> after_run [''-writable'', ''-executable'', tmp_dir] (\<lambda>a. a_access a = access_WRITE OR access_EXEC))"

definition test_parse_inner_find_empty_alias :: bool where
  "test_parse_inner_find_empty_alias = after_run [''-empty'', tmp_dir] (\<lambda>a. SelEmpty \<in> set (a_file_type a))"

definition test_parse_inner_iname_sets_name_and_case_insensitive :: bool where
  "test_parse_inner_iname_sets_name_and_case_insensitive =
     after_run [''-iname'', ''*.RS'', tmp_dir] (\<lambda>a. a_name a = Some [''*.RS''] \<and> a_case_insensitive a)"

definition test_parse_inner_iregex_sets_regex_and_case_insensitive :: bool where
  "test_parse_inner_iregex_sets_regex_and_case_insensitive =
     after_run [''-iregex'', ''.*'', tmp_dir] (\<lambda>a. a_regex a = Some [''.*''] \<and> a_case_insensitive a)"

definition test_parse_inner_combined_shorts :: bool where
  "test_parse_inner_combined_shorts = after_run [''-fi'', tmp_dir] (\<lambda>a. a_follow_symlinks a \<and> a_case_insensitive a)"

definition test_parse_inner_one_filesystem_toggle_last_wins :: bool where
  "test_parse_inner_one_filesystem_toggle_last_wins =
     (after_run [''--cross-filesystem'', ''--xdev'', tmp_dir] a_one_filesystem
      \<and> after_run [''--xdev'', ''--cross-filesystem'', tmp_dir] (\<lambda>a. \<not> a_one_filesystem a))"

definition test_parse_inner_exclude_default_none :: bool where
  "test_parse_inner_exclude_default_none = after_run [tmp_dir] (\<lambda>a. a_exclude a = None)"

definition test_parse_inner_exclude_repeatable :: bool where
  "test_parse_inner_exclude_repeatable = after_run [''--exclude'', ''.git'', ''-E'', ''node_modules'', tmp_dir]
     (\<lambda>a. a_exclude a = Some [''.git'', ''node_modules''])"

definition test_parse_inner_null_default_false :: bool where
  "test_parse_inner_null_default_false = after_run [tmp_dir] (\<lambda>a. \<not> a_null a)"

definition test_parse_inner_null_long :: bool where
  "test_parse_inner_null_long = after_run [''--null'', tmp_dir] a_null"

definition test_parse_inner_null_short_zero :: bool where
  "test_parse_inner_null_short_zero = after_run [''-0'', tmp_dir] a_null"

definition test_parse_inner_print0_find_alias :: bool where
  "test_parse_inner_print0_find_alias = after_run [''-print0'', tmp_dir] a_null"

definition test_parse_inner_max_depth :: bool where
  "test_parse_inner_max_depth = after_run [''-d'', ''3'', tmp_dir] (\<lambda>a. a_max_depth a = Some 3)"

section \<open>Metadata tests\<close>

definition test_parse_inner_no_metadata_predicate_is_inactive :: bool where
  "test_parse_inner_no_metadata_predicate_is_inactive = after_run [tmp_dir] (\<lambda>a. \<not> is_active (a_meta a))"

definition test_parse_inner_size_wires_predicate_and_find_alias :: bool where
  "test_parse_inner_size_wires_predicate_and_find_alias =
     (after_run [''--size'', ''+1k'', tmp_dir] (\<lambda>a. is_active (a_meta a))
      \<and> after_run [''-size'', ''+1k'', tmp_dir] (\<lambda>a. is_active (a_meta a)))"

definition test_parse_inner_size_requires_unit_suffix :: bool where
  "test_parse_inner_size_requires_unit_suffix = rejects [''--size'', ''10'', tmp_dir]"

definition test_parse_inner_time_flags_and_aliases :: bool where
  "test_parse_inner_time_flags_and_aliases =
     (after_run [''-mtime'', ''-7'', tmp_dir] (\<lambda>a. is_active (a_meta a))
      \<and> after_run [''--amin'', ''+30'', tmp_dir] (\<lambda>a. is_active (a_meta a))
      \<and> after_run [''-mtime'', ''-7'', ''-atime'', ''+1'', tmp_dir] (\<lambda>a. is_active (a_meta a)))"

definition test_parse_inner_perm_uid_gid :: bool where
  "test_parse_inner_perm_uid_gid =
     (after_run [''-perm'', ''644'', tmp_dir] (\<lambda>a. is_active (a_meta a))
      \<and> after_run [''-perm'', ''-u+w'', tmp_dir] (\<lambda>a. is_active (a_meta a))
      \<and> after_run [''--uid'', ''0'', tmp_dir] (\<lambda>a. is_active (a_meta a))
      \<and> after_run [''-gid'', ''+10'', tmp_dir] (\<lambda>a. is_active (a_meta a)))"

definition test_parse_inner_user_resolves_and_rejects_unknown :: bool where
  "test_parse_inner_user_resolves_and_rejects_unknown =
     (after_run [''-user'', ''root'', tmp_dir] (\<lambda>a. is_active (a_meta a))
      \<and> rejects [''--user'', ''no-such-user-xyz-123'', tmp_dir])"

section \<open>Limits, patterns, errors\<close>

definition test_parse_inner_max_results_default_none :: bool where
  "test_parse_inner_max_results_default_none = after_run [tmp_dir] (\<lambda>a. a_max_results a = None)"

definition test_parse_inner_max_results :: bool where
  "test_parse_inner_max_results = after_run [''--max-results'', ''5'', tmp_dir] (\<lambda>a. a_max_results a = Some 5)"

definition test_parse_inner_min_depth_default_none :: bool where
  "test_parse_inner_min_depth_default_none = after_run [tmp_dir] (\<lambda>a. a_min_depth a = None)"

definition test_parse_inner_min_depth :: bool where
  "test_parse_inner_min_depth = after_run [''--min-depth'', ''2'', tmp_dir] (\<lambda>a. a_min_depth a = Some 2)"

definition test_parse_inner_mindepth_find_alias :: bool where
  "test_parse_inner_mindepth_find_alias = after_run [''-mindepth'', ''2'', tmp_dir] (\<lambda>a. a_min_depth a = Some 2)"

definition test_parse_inner_threads_valid :: bool where
  "test_parse_inner_threads_valid = after_run [''-x'', ''4'', tmp_dir] (\<lambda>a. a_threads a = 4)"

definition test_parse_inner_threads_out_of_range :: bool where
  "test_parse_inner_threads_out_of_range = rejects [''-x'', ''1'', tmp_dir]"

definition test_parse_inner_name_repeatable :: bool where
  "test_parse_inner_name_repeatable = after_run [''-n'', ''a'', ''--name'', ''b'', tmp_dir] (\<lambda>a. a_name a = Some [''a'', ''b''])"

definition test_parse_inner_name_regex_conflict :: bool where
  "test_parse_inner_name_regex_conflict = rejects [''-n'', ''*.rs'', ''-r'', ''.*'', tmp_dir]"

definition test_parse_inner_file_type_names_and_aliases :: bool where
  "test_parse_inner_file_type_names_and_aliases =
     after_run [''-t'', ''f'', ''--file-type'', ''directory'', tmp_dir] (\<lambda>a. a_file_type a = [SelFile, SelDirectory])"

definition test_parse_inner_file_type_invalid :: bool where
  "test_parse_inner_file_type_invalid = rejects [''-t'', ''zzz'', tmp_dir]"

definition test_parse_inner_missing_path :: bool where
  "test_parse_inner_missing_path = rejects [''-f'']"

definition test_parse_inner_unknown_option :: bool where
  "test_parse_inner_unknown_option = rejects [''--bogus'', tmp_dir]"

definition test_parse_inner_help :: bool where
  "test_parse_inner_help =
     (parse_argv [''--help''] = Some (Some (Inr Help)) \<and> parse_argv [''-h''] = Some (Some (Inr Help)))"

definition test_parse_inner_version :: bool where
  "test_parse_inner_version =
     (parse_argv [''--version''] = Some (Some (Inr Version)) \<and> parse_argv [''-V''] = Some (Some (Inr Version)))"

definition test_parse_inner_max_scan_rate_value :: bool where
  "test_parse_inner_max_scan_rate_value = after_run [''--max-scan-rate'', ''50'', tmp_dir] (\<lambda>a. a_max_scan_rate a = Some 50)"

definition test_parse_inner_max_scan_rate_short :: bool where
  "test_parse_inner_max_scan_rate_short = after_run [''-s'', ''50'', tmp_dir] (\<lambda>a. a_max_scan_rate a = Some 50)"

definition test_parse_inner_max_scan_rate_zero_parses :: bool where
  "test_parse_inner_max_scan_rate_zero_parses = after_run [''--max-scan-rate'', ''0'', tmp_dir] (\<lambda>a. a_max_scan_rate a = Some 0)"

definition test_parse_inner_max_scan_rate_non_numeric_errors :: bool where
  "test_parse_inner_max_scan_rate_non_numeric_errors = rejects [''--max-scan-rate'', ''abc'', tmp_dir]"

section \<open>Value parsers\<close>

definition test_parse_file_type_all_canonical :: bool where
  "test_parse_file_type_all_canonical =
     (parse_file_type ''empty'' = Inr SelEmpty \<and> parse_file_type ''block-device'' = Inr SelBlockDevice
      \<and> parse_file_type ''char-device'' = Inr SelCharDevice \<and> parse_file_type ''directory'' = Inr SelDirectory
      \<and> parse_file_type ''pipe'' = Inr SelPipe \<and> parse_file_type ''file'' = Inr SelFile
      \<and> parse_file_type ''symlink'' = Inr SelSymlink \<and> parse_file_type ''socket'' = Inr SelSocket)"

definition test_parse_threads_min_valid :: bool where
  "test_parse_threads_min_valid = (parse_threads ''2'' = Inr 2)"

definition test_parse_threads_max_valid :: bool where
  "test_parse_threads_max_valid = (parse_threads ''65535'' = Inr 65535)"

definition test_parse_threads_mid_valid :: bool where
  "test_parse_threads_mid_valid = (parse_threads ''100'' = Inr 100)"

definition test_parse_threads_zero_invalid :: bool where
  "test_parse_threads_zero_invalid = (\<not> is_ok (parse_threads ''0''))"

definition test_parse_threads_one_invalid :: bool where
  "test_parse_threads_one_invalid = (\<not> is_ok (parse_threads ''1''))"

definition test_parse_threads_too_large :: bool where
  "test_parse_threads_too_large = (\<not> is_ok (parse_threads ''65536''))"

definition test_parse_threads_non_numeric :: bool where
  "test_parse_threads_non_numeric = (\<not> is_ok (parse_threads ''abc'') \<and> \<not> is_ok (parse_threads []))"

definition test_parse_threads_negative :: bool where
  "test_parse_threads_negative = (\<not> is_ok (parse_threads ''-1''))"

definition test_parse_paths_valid_dir :: bool where
  "test_parse_paths_valid_dir = is_ok (parse_paths test_env tmp_dir)"

definition test_parse_paths_normalizes :: bool where
  "test_parse_paths_normalizes = (case parse_paths test_env tmp_dir of Inr p \<Rightarrow> env_is_dir test_env p | Inl _ \<Rightarrow> False)"

definition test_parse_paths_nonexistent :: bool where
  "test_parse_paths_nonexistent = (\<not> is_ok (parse_paths test_env ''/nonexistent/xyz/abc123''))"

definition test_parse_paths_file_not_dir :: bool where
  "test_parse_paths_file_not_dir = (\<not> is_ok (parse_paths test_env ''/etc/hosts''))"

definition test_oversubscription_warning_above_cpu_count :: bool where
  "test_oversubscription_warning_above_cpu_count = (oversubscription_warning 16 8 = Some (16, 8))"

definition test_oversubscription_warning_at_or_below_cpu_count :: bool where
  "test_oversubscription_warning_at_or_below_cpu_count =
     (oversubscription_warning 8 8 = None \<and> oversubscription_warning 4 8 = None \<and> oversubscription_warning 2 8 = None)"

section \<open>All of them\<close>

text \<open>Evaluated by rewriting, a dozen at a time.\<close>

lemma args_tests_1: "list_all id
    [test_parse_inner_defaults, test_parse_inner_idle_defaults_to_two_threads,
    test_parse_inner_idle_explicit_threads_wins, test_parse_inner_idle_off_by_default,
    test_parse_inner_bare_flags, test_parse_inner_follow_alias_capital_l, test_parse_inner_find_name_alias,
    test_parse_inner_find_type_alias, test_parse_inner_find_maxdepth_alias, test_parse_inner_find_regex_alias,
    test_parse_inner_find_xdev_and_mount_aliases, test_parse_inner_find_follow_alias]"
  by code_simp

lemma args_tests_2: "list_all id
    [test_parse_inner_path_glob_aliases, test_parse_inner_lname_aliases,
    test_parse_inner_newer_reads_reference_file, test_parse_inner_quit_caps_at_one,
    test_parse_inner_noop_aliases_accepted, test_parse_inner_links_inum_aliases,
    test_parse_inner_nouser_nogroup, test_parse_inner_access_aliases, test_parse_inner_find_empty_alias,
    test_parse_inner_iname_sets_name_and_case_insensitive,
    test_parse_inner_iregex_sets_regex_and_case_insensitive, test_parse_inner_combined_shorts]"
  by code_simp

lemma args_tests_3: "list_all id
    [test_parse_inner_one_filesystem_toggle_last_wins, test_parse_inner_exclude_default_none,
    test_parse_inner_exclude_repeatable, test_parse_inner_null_default_false, test_parse_inner_null_long,
    test_parse_inner_null_short_zero, test_parse_inner_print0_find_alias, test_parse_inner_max_depth,
    test_parse_inner_no_metadata_predicate_is_inactive, test_parse_inner_size_wires_predicate_and_find_alias,
    test_parse_inner_size_requires_unit_suffix, test_parse_inner_time_flags_and_aliases]"
  by code_simp

lemma args_tests_4: "list_all id
    [test_parse_inner_perm_uid_gid, test_parse_inner_user_resolves_and_rejects_unknown,
    test_parse_inner_max_results_default_none, test_parse_inner_max_results,
    test_parse_inner_min_depth_default_none, test_parse_inner_min_depth, test_parse_inner_mindepth_find_alias,
    test_parse_inner_threads_valid, test_parse_inner_threads_out_of_range, test_parse_inner_name_repeatable,
    test_parse_inner_name_regex_conflict, test_parse_inner_file_type_names_and_aliases]"
  by code_simp

lemma args_tests_5: "list_all id
    [test_parse_inner_file_type_invalid, test_parse_inner_missing_path, test_parse_inner_unknown_option,
    test_parse_inner_help, test_parse_inner_version, test_parse_inner_max_scan_rate_value,
    test_parse_inner_max_scan_rate_short, test_parse_inner_max_scan_rate_zero_parses,
    test_parse_inner_max_scan_rate_non_numeric_errors, test_parse_file_type_all_canonical,
    test_parse_threads_min_valid, test_parse_threads_max_valid]"
  by code_simp

lemma args_tests_6: "list_all id
    [test_parse_threads_mid_valid, test_parse_threads_zero_invalid, test_parse_threads_one_invalid,
    test_parse_threads_too_large, test_parse_threads_non_numeric, test_parse_threads_negative,
    test_parse_paths_valid_dir, test_parse_paths_normalizes, test_parse_paths_nonexistent,
    test_parse_paths_file_not_dir, test_oversubscription_warning_above_cpu_count,
    test_oversubscription_warning_at_or_below_cpu_count]"
  by code_simp

lemma args_unit_tests_hold:
  "list_all id
    [test_parse_inner_defaults, test_parse_inner_idle_defaults_to_two_threads,
    test_parse_inner_idle_explicit_threads_wins, test_parse_inner_idle_off_by_default,
    test_parse_inner_bare_flags, test_parse_inner_follow_alias_capital_l, test_parse_inner_find_name_alias,
    test_parse_inner_find_type_alias, test_parse_inner_find_maxdepth_alias, test_parse_inner_find_regex_alias,
    test_parse_inner_find_xdev_and_mount_aliases, test_parse_inner_find_follow_alias,
    test_parse_inner_path_glob_aliases, test_parse_inner_lname_aliases,
    test_parse_inner_newer_reads_reference_file, test_parse_inner_quit_caps_at_one,
    test_parse_inner_noop_aliases_accepted, test_parse_inner_links_inum_aliases,
    test_parse_inner_nouser_nogroup, test_parse_inner_access_aliases, test_parse_inner_find_empty_alias,
    test_parse_inner_iname_sets_name_and_case_insensitive,
    test_parse_inner_iregex_sets_regex_and_case_insensitive, test_parse_inner_combined_shorts,
    test_parse_inner_one_filesystem_toggle_last_wins, test_parse_inner_exclude_default_none,
    test_parse_inner_exclude_repeatable, test_parse_inner_null_default_false, test_parse_inner_null_long,
    test_parse_inner_null_short_zero, test_parse_inner_print0_find_alias, test_parse_inner_max_depth,
    test_parse_inner_no_metadata_predicate_is_inactive, test_parse_inner_size_wires_predicate_and_find_alias,
    test_parse_inner_size_requires_unit_suffix, test_parse_inner_time_flags_and_aliases,
    test_parse_inner_perm_uid_gid, test_parse_inner_user_resolves_and_rejects_unknown,
    test_parse_inner_max_results_default_none, test_parse_inner_max_results,
    test_parse_inner_min_depth_default_none, test_parse_inner_min_depth, test_parse_inner_mindepth_find_alias,
    test_parse_inner_threads_valid, test_parse_inner_threads_out_of_range, test_parse_inner_name_repeatable,
    test_parse_inner_name_regex_conflict, test_parse_inner_file_type_names_and_aliases,
    test_parse_inner_file_type_invalid, test_parse_inner_missing_path, test_parse_inner_unknown_option,
    test_parse_inner_help, test_parse_inner_version, test_parse_inner_max_scan_rate_value,
    test_parse_inner_max_scan_rate_short, test_parse_inner_max_scan_rate_zero_parses,
    test_parse_inner_max_scan_rate_non_numeric_errors, test_parse_file_type_all_canonical,
    test_parse_threads_min_valid, test_parse_threads_max_valid, test_parse_threads_mid_valid,
    test_parse_threads_zero_invalid, test_parse_threads_one_invalid, test_parse_threads_too_large,
    test_parse_threads_non_numeric, test_parse_threads_negative, test_parse_paths_valid_dir,
    test_parse_paths_normalizes, test_parse_paths_nonexistent, test_parse_paths_file_not_dir,
    test_oversubscription_warning_above_cpu_count, test_oversubscription_warning_at_or_below_cpu_count]"
  using args_tests_1 args_tests_2 args_tests_3 args_tests_4 args_tests_5 args_tests_6
  by (simp only: list.pred_inject id_apply simp_thms)


end
