(* ===== verification/Tests_Walk.thy ===== *)
theory Tests_Walk
  imports Unix Patterns
begin

text \<open>
  The unit tests of \<open>src/walk.rs\<close> on an in-memory file system behind the Unix leaf. A test makes some files,
  walks them with \<open>collect\<close> and asserts something of the entries the visitor was called with; here the assertion
  is proved of every finished walk, so of every interleaving of the four workers.
\<close>

section \<open>An in-memory file system\<close>

datatype node = FileNode | DirNode | LinkNode path

text \<open>The files by their absolute paths, which for every file but \<open>/\<close> also lists its directory.\<close>

type_synonym mem_fs = "(path \<times> node) list"

fun resolve :: "mem_fs \<Rightarrow> bool \<Rightarrow> nat \<Rightarrow> path \<Rightarrow> string list \<Rightarrow> path option" where
  "resolve fs follow 0 d cs = None"
| "resolve fs follow (Suc k) d [] = Some d"
| "resolve fs follow (Suc k) d (c # cs) =
     (let p = path_join d c in
      case map_of fs p of
        None \<Rightarrow> None
      | Some (LinkNode target) \<Rightarrow>
          if cs = [] \<and> \<not> follow then Some p else resolve fs follow k ''/'' (path_components target @ cs)
      | Some _ \<Rightarrow> resolve fs follow k p cs)"

definition resolve_at :: "mem_fs \<Rightarrow> path dirfd \<Rightarrow> path \<Rightarrow> bool \<Rightarrow> path option" where
  "resolve_at fs d p follow =
     resolve fs follow 20 (case d of Fd fd \<Rightarrow> if take 1 p = ''/'' then ''/'' else fd | CWD \<Rightarrow> ''/'') (path_components p)"

definition node_stat :: "mem_fs \<Rightarrow> path \<Rightarrow> raw_stat" where
  "node_stat fs p =
     \<lparr>rs_dev = 1, rs_ino = of_nat (length (takeWhile (\<lambda>x. fst x \<noteq> p) fs)),
      rs_mode = (case map_of fs p of Some FileNode \<Rightarrow> 0x8000 | Some (LinkNode _) \<Rightarrow> 0xA000 | _ \<Rightarrow> 0x4000)\<rparr>"

definition node_type :: "node \<Rightarrow> RFileType" where
  "node_type n = (case n of FileNode \<Rightarrow> RegularFile | DirNode \<Rightarrow> Directory | LinkNode _ \<Rightarrow> RSymlink)"

definition stream_of :: "mem_fs \<Rightarrow> path \<Rightarrow> (int + string \<times> RFileType) list" where
  "stream_of fs fd =
     [Inr (''.'', Directory), Inr (''..'', Directory)]
     @ map (\<lambda>(p, n). Inr (last (path_components p), node_type n))
         (filter (\<lambda>(p, n). p \<noteq> ''/'' \<and> butlast (path_components p) = path_components fd) fs)"

definition mem_sys :: "mem_fs \<Rightarrow> path syscalls" where
  "mem_sys fs =
     \<lparr>sys_openat = (\<lambda>d p fl. case resolve_at fs d p (NOFOLLOW \<notin> fl) of
         Some q \<Rightarrow> (if map_of fs q = Some DirNode then Inr q else Inl 20) | None \<Rightarrow> Inl 2),
      sys_statat = (\<lambda>d p fl. case resolve_at fs d p (SYMLINK_NOFOLLOW \<notin> fl) of
         Some q \<Rightarrow> Inr (node_stat fs q) | None \<Rightarrow> Inl 2),
      sys_fstat = (\<lambda>fd. Inr (node_stat fs fd)),
      sys_read_dir = (\<lambda>fd. Inr (stream_of fs fd)),
      sys_statx = (\<lambda>_ _ _ _. Inl 38), sys_accessat = (\<lambda>_ _ _ _. Inl 38), sys_readlinkat = (\<lambda>_ _. Inl 38),
      sys_from_raw_mode = (\<lambda>m. if m = 0x8000 then RegularFile else if m = 0xA000 then RSymlink else Directory)\<rparr>"

section \<open>Collecting\<close>

definition base_args :: "usize \<Rightarrow> Args" where
  "base_args n =
     \<lparr>a_follow_symlinks = False, a_one_filesystem = True, a_threads = n, a_idle = False, a_max_depth = None,
      a_min_depth = None, a_max_scan_rate = None, a_max_results = None, a_name = None, a_regex = None,
      a_case_insensitive = False, a_file_type = [], a_meta = default_predicates, a_path_glob = None, a_lname = None,
      a_access = 0, a_exclude = None, a_null = False, a_path = []\<rparr>"

definition collect_ctx :: "Args \<Rightarrow> (string \<Rightarrow> bool) option \<Rightarrow> WalkCtx" where
  "collect_ctx args ex = \<lparr>ctx_args = args, ctx_limited = False, ctx_exclude = ex\<rparr>"

text \<open>
  \<open>collect\<close> and its variants, followed by the assertions \<open>P\<close> on the entries the visitor got, in their order:
  the walk can finish, and whatever the interleaving, the assertions hold when it does.
\<close>

definition collects :: "WalkCtx \<Rightarrow> path syscalls \<Rightarrow> path list \<Rightarrow> (Entry list \<Rightarrow> bool) \<Rightarrow> bool" where
  "collects ctx sys roots P \<longleftrightarrow>
     (let finished = walk_parallel ctx (unix_platform sys) (\<lambda>v e st. (WalkContinue, ())) roots (\<lambda>_. ()) in
      (\<exists>s. finished s) \<and> (\<forall>s :: (path, unit) walk_state. finished s \<longrightarrow> P (map fst (ws_log s))))"

text \<open>The sequential walk as a list; \<open>None\<close> if the tree is higher than the fuel.\<close>

abbreviation with_subtree :: "('a \<Rightarrow> Entry list option) \<Rightarrow> (Entry \<times> 'b) \<times> 'a option \<Rightarrow> Entry list option" where
  "with_subtree f ec \<equiv> (case ec of (ev, c) \<Rightarrow>
     (case c of None \<Rightarrow> Some [fst ev] | Some u \<Rightarrow> map_option (\<lambda>es. fst ev # es) (f u)))"

primrec tree_list :: "WalkCtx \<Rightarrow> 'fd platform \<Rightarrow> nat \<Rightarrow> 'fd Task \<Rightarrow> Entry list option" where
  "tree_list ctx pf 0 t = None"
| "tree_list ctx pf (Suc k) t =
     map_option (\<lambda>ls. (if t_parent t = None then [root_entry t] else []) @ concat ls)
       (those (map (with_subtree (tree_list ctx pf k)) (task_children ctx pf t)))"

lemma those_Some: "those xs = Some ys \<longleftrightarrow> xs = map Some ys"
  by (induction xs arbitrary: ys) (auto split: option.splits)

lemma with_subtrees:
  assumes "\<And>u es. f u = Some es \<Longrightarrow> fit u \<and> mset es = image_mset fst (g u)"
    and "map (with_subtree f) xs = map Some ls"
  shows "list_all (child_ok fit) xs \<and> mset (concat ls) = image_mset fst (sum_list (map (subtree g) xs))"
  using assms(2)
proof (induction xs arbitrary: ls)
  case (Cons x xs)
  then obtain l ls' where l: "ls = l # ls'" "with_subtree f x = Some l" "map (with_subtree f) xs = map Some ls'"
    by (cases ls) auto
  have "child_ok fit x \<and> mset l = image_mset fst (subtree g x)"
    using l(2) assms(1) by (cases x) (fastforce split: option.splits)
  then show ?case using Cons.IH [OF l(3)] l(1) by simp
qed simp

lemma tree_list_tree:
  "tree_list ctx pf k t = Some es \<Longrightarrow> fits ctx pf k t \<and> mset es = image_mset fst (walk_tree ctx pf k t)"
proof (induction k arbitrary: t es)
  case (Suc k)
  then obtain ls where ls: "map (with_subtree (tree_list ctx pf k)) (task_children ctx pf t) = map Some ls"
    "es = (if t_parent t = None then [root_entry t] else []) @ concat ls"
    by (auto simp: those_Some)
  from with_subtrees [OF Suc.IH ls(1)] show ?case
    unfolding ls(2) by (simp add: own_visit_def root_visit_def)
qed simp

definition walk_list :: "WalkCtx \<Rightarrow> path syscalls \<Rightarrow> nat \<Rightarrow> path list \<Rightarrow> Entry list option" where
  "walk_list ctx sys k roots =
     map_option concat (those (map (tree_list ctx (unix_platform sys) k) (root_tasks (ctx_args ctx) (unix_platform sys) roots)))"

lemma walk_list_tree:
  assumes "walk_list ctx sys k roots = Some es"
  shows "roots_fit ctx (unix_platform sys) k roots \<and> mset es = image_mset fst (roots_tree ctx (unix_platform sys) k roots)"
proof -
  have all: "list_all (fits ctx pf k) ts \<and> mset (concat ls) = image_mset fst (sum_list (map (walk_tree ctx pf k) ts))"
    if "map (tree_list ctx pf k) ts = map Some ls" for ts ls and pf :: "path platform"
    using that
  proof (induction ts arbitrary: ls)
    case (Cons t ts)
    then obtain l ls' where "ls = l # ls'" "tree_list ctx pf k t = Some l" "map (tree_list ctx pf k) ts = map Some ls'"
      by (cases ls) auto
    then show ?case using Cons.IH tree_list_tree by fastforce
  qed simp
  obtain ls where "map (tree_list ctx (unix_platform sys) k) (root_tasks (ctx_args ctx) (unix_platform sys) roots) = map Some ls"
    "es = concat ls"
    using assms by (auto simp: walk_list_def those_Some)
  with all [OF this(1)] show ?thesis by (simp add: roots_fit_def roots_tree_def)
qed

lemma collectsI:
  assumes "walk_list ctx sys k roots = Some L" and "\<And>es. mset es = mset L \<Longrightarrow> P es"
  shows "collects ctx sys roots P"
proof -
  have fit: "roots_fit ctx (unix_platform sys) k roots" and list: "mset L = image_mset fst (roots_tree ctx (unix_platform sys) k roots)"
    using walk_list_tree [OF assms(1)] by simp_all
  have "P (map fst (ws_log s))" if s: "walk_parallel ctx (unix_platform sys) (\<lambda>v e st. (WalkContinue, ())) roots (\<lambda>_. ()) s"
    for s :: "(path, unit) walk_state"
  proof (rule assms(2))
    have "mset (ws_log s) = roots_tree ctx (unix_platform sys) k roots"
      using s n_workers_pos unfolding walk_parallel_def by (intro returned_log [OF _ _ _ fit]) auto
    then show "mset (map fst (ws_log s)) = mset L" by (simp add: list)
  qed
  moreover have "\<exists>s. walk_parallel ctx (unix_platform sys) (\<lambda>v e st. (WalkContinue, ())) roots (\<lambda>_. ()) s"
    using can_finish [OF n_workers_pos pending_init exit_ok_reach [OF reach_start] tree_inv_init [OF fit]]
    unfolding walk_parallel_def by blast
  ultimately show ?thesis by (simp add: collects_def)
qed

text \<open>Assertions that do not depend on the order of the entries can be evaluated on \<open>walk_list\<close>.\<close>

named_theorems order_free_intros

definition order_free :: "(Entry list \<Rightarrow> bool) \<Rightarrow> bool" where
  "order_free P \<longleftrightarrow> (\<forall>es es'. mset es = mset es' \<longrightarrow> P es \<longrightarrow> P es')"

lemma order_freeD: "order_free P \<Longrightarrow> mset es = mset es' \<Longrightarrow> P es \<Longrightarrow> P es'"
  unfolding order_free_def by blast

lemma order_freeI: "(\<And>es es'. mset es = mset es' \<Longrightarrow> P es = P es') \<Longrightarrow> order_free P"
  unfolding order_free_def by blast

lemma order_free_conj [order_free_intros]: "order_free P \<Longrightarrow> order_free Q \<Longrightarrow> order_free (\<lambda>es. P es \<and> Q es)"
  unfolding order_free_def by blast

lemma order_free_set [order_free_intros]: "order_free (list_ex p)" "order_free (list_all p)"
  by (rule order_freeI; drule mset_eq_setD; simp add: list_ex_iff list_all_iff)+

lemma order_free_size [order_free_intros]:
  "order_free (\<lambda>es. length es = n)" "order_free (\<lambda>es. length (filter p es) = n)"
proof -
  show "order_free (\<lambda>es. length es = n)"
    by (rule order_freeI) (metis size_mset)
  have "length (filter p es) = size (filter_mset p (mset es))" for es by (simp flip: mset_filter)
  then show "order_free (\<lambda>es. length (filter p es) = n)" by (intro order_freeI) simp
qed

lemma order_free_paths [order_free_intros]: "order_free (\<lambda>es. mset (map e_path es) = M)"
  by (rule order_freeI) simp

lemma collects_eval:
  assumes "order_free P" "case walk_list ctx sys k roots of Some L \<Rightarrow> P L | None \<Rightarrow> False"
  shows "collects ctx sys roots P"
proof -
  obtain L where L: "walk_list ctx sys k roots = Some L" "P L" using assms(2) by (auto split: option.splits)
  show ?thesis
  proof (rule collectsI [OF L(1)])
    fix es assume "mset es = mset L"
    from order_freeD [OF assms(1) this [symmetric] L(2)] show "P es" .
  qed
qed

text \<open>\<open>p.ends_with(q)\<close> and \<open>p.starts_with(q)\<close> go by components.\<close>

definition path_ends_with :: "path \<Rightarrow> path \<Rightarrow> bool" where
  "path_ends_with p q = (let ps = path_components p; qs = path_components q in
     length qs \<le> length ps \<and> drop (length ps - length qs) ps = qs)"

definition path_starts_with :: "path \<Rightarrow> path \<Rightarrow> bool" where
  "path_starts_with p q = (let ps = path_components p; qs = path_components q in take (length qs) ps = qs)"

abbreviation some_at :: "path \<Rightarrow> Entry list \<Rightarrow> bool" where
  "some_at q \<equiv> list_ex (\<lambda>e. path_ends_with (e_path e) q)"

abbreviation none_at :: "path \<Rightarrow> Entry list \<Rightarrow> bool" where
  "none_at q \<equiv> list_all (\<lambda>e. \<not> path_ends_with (e_path e) q)"

text \<open>\<open>got.iter().find(...).unwrap()\<close> has a property when there is such an entry and all of them have it.\<close>

abbreviation found_with :: "(Entry \<Rightarrow> bool) \<Rightarrow> path \<Rightarrow> Entry list \<Rightarrow> bool" where
  "found_with Q q \<equiv> \<lambda>es. some_at q es \<and> list_all (\<lambda>e. path_ends_with (e_path e) q \<longrightarrow> Q e) es"

abbreviation ctx4 :: WalkCtx where
  "ctx4 \<equiv> collect_ctx (base_args 4) None"

abbreviation follow4 :: WalkCtx where
  "follow4 \<equiv> collect_ctx ((base_args 4)\<lparr>a_follow_symlinks := True\<rparr>) None"

text \<open>The temporary directory of a test is \<open>/t\<close>, with these files in it.\<close>

definition tmp_with :: "(path \<times> node) list \<Rightarrow> path syscalls" where
  "tmp_with fs = mem_sys ((''/t'', DirNode) # fs)"

section \<open>The tests\<close>

definition entry_depth_reflects_distance_from_root :: bool where
  "entry_depth_reflects_distance_from_root =
     collects ctx4 (tmp_with [(''/t/a'', DirNode), (''/t/a/b'', DirNode), (''/t/a/b/deep.txt'', FileNode), (''/t/top.txt'', FileNode)])
       [''/t''] (\<lambda>es. list_all (\<lambda>e. e_path e = ''/t'' \<longrightarrow> e_depth e = 0) es \<and> list_ex (\<lambda>e. e_path e = ''/t'') es
         \<and> found_with (\<lambda>e. e_depth e = 1) ''top.txt'' es \<and> found_with (\<lambda>e. e_depth e = 1) ''a'' es
         \<and> found_with (\<lambda>e. e_depth e = 2) ''b'' es \<and> found_with (\<lambda>e. e_depth e = 3) ''deep.txt'' es)"

definition emits_root_and_all_descendants :: bool where
  "emits_root_and_all_descendants =
     collects ctx4 (tmp_with [(''/t/a'', DirNode), (''/t/a/f.txt'', FileNode), (''/t/g.txt'', FileNode)])
       [''/t''] (\<lambda>es. list_ex (\<lambda>e. e_path e = ''/t'') es \<and> some_at ''a'' es \<and> some_at ''a/f.txt'' es \<and> some_at ''g.txt'' es
         \<and> length es = 4)"

definition terminates_on_empty_directory :: bool where
  "terminates_on_empty_directory = collects ctx4 (tmp_with []) [''/t''] (\<lambda>es. mset (map e_path es) = mset [''/t''])"

definition max_depth_limits_descent :: bool where
  "max_depth_limits_descent =
     collects (collect_ctx ((base_args 4)\<lparr>a_max_depth := Some 1\<rparr>) None)
       (tmp_with [(''/t/l1'', DirNode), (''/t/l1/l2'', DirNode), (''/t/l1/l2/deep.txt'', FileNode)])
       [''/t''] (\<lambda>es. some_at ''l1'' es \<and> none_at ''deep.txt'' es)"

definition symlink_not_followed_by_default :: bool where
  "symlink_not_followed_by_default =
     collects ctx4 (tmp_with [(''/t/real'', DirNode), (''/t/real/inside.txt'', FileNode), (''/t/link'', LinkNode ''/t/real'')])
       [''/t''] (\<lambda>es. some_at ''link'' es
         \<and> list_all (\<lambda>e. \<not> (path_starts_with (e_path e) ''/t/link'' \<and> path_ends_with (e_path e) ''inside.txt'')) es)"

definition symlinked_root_is_traversed :: bool where
  "symlinked_root_is_traversed =
     collects ctx4 (tmp_with [(''/t/real'', DirNode), (''/t/real/inside.txt'', FileNode), (''/t/link'', LinkNode ''/t/real'')])
       [''/t/link''] (some_at ''inside.txt'')"

definition symlink_cycle_does_not_hang :: bool where
  "symlink_cycle_does_not_hang =
     collects follow4 (tmp_with [(''/t/a'', DirNode), (''/t/a/loop'', LinkNode ''/t/a'')]) [''/t''] (some_at ''a'')"

definition multiple_roots_all_traversed :: bool where
  "multiple_roots_all_traversed =
     collects ctx4 (mem_sys [(''/r1'', DirNode), (''/r1/one.txt'', FileNode), (''/r2'', DirNode), (''/r2/two.txt'', FileNode)])
       [''/r1'', ''/r2''] (\<lambda>es. some_at ''one.txt'' es \<and> some_at ''two.txt'' es \<and> length es = 4)"

definition hidden_files_are_emitted :: bool where
  "hidden_files_are_emitted =
     collects ctx4 (tmp_with [(''/t/.hidden'', FileNode), (''/t/.dir'', DirNode)])
       [''/t''] (\<lambda>es. some_at ''.hidden'' es \<and> some_at ''.dir'' es)"

definition no_duplicate_or_lost_entries :: bool where
  "no_duplicate_or_lost_entries =
     collects (collect_ctx (base_args 8) None)
       (tmp_with [(''/t/a'', DirNode), (''/t/b'', DirNode), (''/t/a/x.txt'', FileNode), (''/t/b/y.txt'', FileNode),
          (''/t/c.txt'', FileNode)])
       [''/t''] (\<lambda>es. mset (map e_path es) =
           mset [''/t'', ''/t/a'', ''/t/b'', ''/t/a/x.txt'', ''/t/b/y.txt'', ''/t/c.txt''] \<and> length es = 6)"

definition max_depth_zero_emits_only_root :: bool where
  "max_depth_zero_emits_only_root =
     collects (collect_ctx ((base_args 4)\<lparr>a_max_depth := Some 0\<rparr>) None) (tmp_with [(''/t/child.txt'', FileNode)])
       [''/t''] (\<lambda>es. mset (map e_path es) = mset [''/t''])"

definition classifies_entry_types :: bool where
  "classifies_entry_types =
     collects ctx4 (tmp_with [(''/t/f.txt'', FileNode), (''/t/d'', DirNode), (''/t/l'', LinkNode ''/t/f.txt'')])
       [''/t''] (\<lambda>es. found_with (\<lambda>e. e_file_type e = File) ''f.txt'' es \<and> found_with (\<lambda>e. e_file_type e = Dir) ''d'' es
         \<and> found_with (\<lambda>e. e_file_type e = Symlink) ''l'' es)"

definition follow_symlinks_descends_into_symlinked_dir :: bool where
  "follow_symlinks_descends_into_symlinked_dir =
     collects follow4 (tmp_with [(''/t/real'', DirNode), (''/t/real/inside.txt'', FileNode), (''/t/link'', LinkNode ''/t/real'')])
       [''/t''] (list_ex (\<lambda>e. path_starts_with (e_path e) ''/t/link'' \<and> path_ends_with (e_path e) ''inside.txt''))"

definition broken_symlink_emitted_not_descended :: bool where
  "broken_symlink_emitted_not_descended =
     collects follow4 (tmp_with [(''/t/broken'', LinkNode ''/nonexistent/xyz/abc'')])
       [''/t''] (found_with (\<lambda>e. e_file_type e = Symlink) ''broken'')"

definition followed_symlink_dir_emitted_exactly_once :: bool where
  "followed_symlink_dir_emitted_exactly_once =
     collects follow4 (tmp_with [(''/t/real'', DirNode), (''/t/real/inside.txt'', FileNode), (''/t/link'', LinkNode ''/t/real'')])
       [''/t''] (\<lambda>es. length (filter (\<lambda>e. path_ends_with (e_path e) ''link'') es) = 1)"

text \<open>
  \<open>collect_excluding\<close>: the exclude set comes from \<open>build_glob_set\<close>, over globs in which \<open>*\<close> stands for any
  text. The hard links of a test to its directory's name use the name \<open>t\<close>.
\<close>

fun glob_match :: "string \<Rightarrow> string \<Rightarrow> bool" where
  "glob_match [] s = (s = [])"
| "glob_match (c # ps) [] = (c = CHR ''*'' \<and> glob_match ps [])"
| "glob_match (c # ps) (d # s) =
     (if c = CHR ''*'' then glob_match ps (d # s) \<or> glob_match (c # ps) s else c = d \<and> glob_match ps s)"

definition star_globs :: "string globset_lib" where
  "star_globs = \<lparr>gl_build = (\<lambda>_ p. Inr p), gl_set_build = (\<lambda>gs. Inr (\<lambda>s. list_ex (\<lambda>g. glob_match g s) gs))\<rparr>"

definition exclude_ctx :: "string list \<Rightarrow> WalkCtx" where
  "exclude_ctx pats =
     collect_ctx (base_args 4) (case build_glob_set star_globs (Some pats) False of Inr f \<Rightarrow> Some f | Inl _ \<Rightarrow> None)"

definition exclude_prunes_directory_subtree :: bool where
  "exclude_prunes_directory_subtree =
     collects (exclude_ctx [''.git''])
       (tmp_with [(''/t/.git'', DirNode), (''/t/.git/objects'', DirNode), (''/t/.git/config'', FileNode), (''/t/keep.txt'', FileNode)])
       [''/t''] (\<lambda>es. some_at ''keep.txt'' es \<and> none_at ''.git'' es
         \<and> list_all (\<lambda>e. ''.git'' \<notin> set (butlast (path_components (e_path e)))) es)"

definition exclude_hides_matching_file :: bool where
  "exclude_hides_matching_file =
     collects (exclude_ctx [''*.tmp'']) (tmp_with [(''/t/a.tmp'', FileNode), (''/t/a.txt'', FileNode)])
       [''/t''] (\<lambda>es. some_at ''a.txt'' es \<and> none_at ''a.tmp'' es)"

definition exclude_does_not_drop_the_root :: bool where
  "exclude_does_not_drop_the_root =
     collects (exclude_ctx [''t'']) (tmp_with []) [''/t''] (list_ex (\<lambda>e. e_path e = ''/t''))"

text \<open>With every open of a child forced onto the absolute path, as if descriptors had run out.\<close>

definition without_fds :: "path syscalls \<Rightarrow> path syscalls" where
  "without_fds sys = sys\<lparr>sys_openat := (\<lambda>d p fl. case d of Fd _ \<Rightarrow> Inl EMFILE | CWD \<Rightarrow> sys_openat sys CWD p fl)\<rparr>"

definition absolute_fallback_walk_is_complete :: bool where
  "absolute_fallback_walk_is_complete =
     (let files = tmp_with [(''/t/a'', DirNode), (''/t/a/b'', DirNode), (''/t/a/sib'', DirNode),
        (''/t/a/b/deep.txt'', FileNode), (''/t/a/sib/s.txt'', FileNode), (''/t/top.txt'', FileNode)] in
      \<exists>paths. collects ctx4 files [''/t''] (\<lambda>es. mset (map e_path es) = mset paths)
        \<and> collects ctx4 (without_fds files) [''/t''] (\<lambda>es. mset (map e_path es) = mset paths))"

definition limiter_does_not_change_entry_set :: bool where
  "limiter_does_not_change_entry_set =
     (let files = tmp_with [(''/t/a'', DirNode), (''/t/a/f.txt'', FileNode), (''/t/g.txt'', FileNode)] in
      \<exists>paths. collects ctx4 files [''/t''] (\<lambda>es. mset (map e_path es) = mset paths)
        \<and> collects (ctx4\<lparr>ctx_limited := True\<rparr>) files [''/t''] (\<lambda>es. mset (map e_path es) = mset paths))"

section \<open>All of them\<close>

lemma entry_depth_reflects_distance_from_root_ok: entry_depth_reflects_distance_from_root
  unfolding entry_depth_reflects_distance_from_root_def by (rule collects_eval [where k = 5]; ((rule order_free_intros)+ | code_simp))

lemma emits_root_and_all_descendants_ok: emits_root_and_all_descendants
  unfolding emits_root_and_all_descendants_def by (rule collects_eval [where k = 5]; ((rule order_free_intros)+ | code_simp))

lemma terminates_on_empty_directory_ok: terminates_on_empty_directory
  unfolding terminates_on_empty_directory_def by (rule collects_eval [where k = 5]; ((rule order_free_intros)+ | code_simp))

lemma max_depth_limits_descent_ok: max_depth_limits_descent
  unfolding max_depth_limits_descent_def by (rule collects_eval [where k = 5]; ((rule order_free_intros)+ | code_simp))

lemma symlink_not_followed_by_default_ok: symlink_not_followed_by_default
  unfolding symlink_not_followed_by_default_def by (rule collects_eval [where k = 5]; ((rule order_free_intros)+ | code_simp))

lemma symlinked_root_is_traversed_ok: symlinked_root_is_traversed
  unfolding symlinked_root_is_traversed_def by (rule collects_eval [where k = 5]; ((rule order_free_intros)+ | code_simp))

lemma symlink_cycle_does_not_hang_ok: symlink_cycle_does_not_hang
  unfolding symlink_cycle_does_not_hang_def by (rule collects_eval [where k = 5]; ((rule order_free_intros)+ | code_simp))

lemma multiple_roots_all_traversed_ok: multiple_roots_all_traversed
  unfolding multiple_roots_all_traversed_def by (rule collects_eval [where k = 5]; ((rule order_free_intros)+ | code_simp))

lemma hidden_files_are_emitted_ok: hidden_files_are_emitted
  unfolding hidden_files_are_emitted_def by (rule collects_eval [where k = 5]; ((rule order_free_intros)+ | code_simp))

lemma no_duplicate_or_lost_entries_ok: no_duplicate_or_lost_entries
  unfolding no_duplicate_or_lost_entries_def by (rule collects_eval [where k = 5]; ((rule order_free_intros)+ | code_simp))

lemma max_depth_zero_emits_only_root_ok: max_depth_zero_emits_only_root
  unfolding max_depth_zero_emits_only_root_def by (rule collects_eval [where k = 5]; ((rule order_free_intros)+ | code_simp))

lemma classifies_entry_types_ok: classifies_entry_types
  unfolding classifies_entry_types_def by (rule collects_eval [where k = 5]; ((rule order_free_intros)+ | code_simp))

lemma follow_symlinks_descends_into_symlinked_dir_ok: follow_symlinks_descends_into_symlinked_dir
  unfolding follow_symlinks_descends_into_symlinked_dir_def by (rule collects_eval [where k = 5]; ((rule order_free_intros)+ | code_simp))

lemma broken_symlink_emitted_not_descended_ok: broken_symlink_emitted_not_descended
  unfolding broken_symlink_emitted_not_descended_def by (rule collects_eval [where k = 5]; ((rule order_free_intros)+ | code_simp))

lemma followed_symlink_dir_emitted_exactly_once_ok: followed_symlink_dir_emitted_exactly_once
  unfolding followed_symlink_dir_emitted_exactly_once_def by (rule collects_eval [where k = 5]; ((rule order_free_intros)+ | code_simp))

lemma exclude_prunes_directory_subtree_ok: exclude_prunes_directory_subtree
  unfolding exclude_prunes_directory_subtree_def by (rule collects_eval [where k = 5]; ((rule order_free_intros)+ | code_simp))

lemma exclude_hides_matching_file_ok: exclude_hides_matching_file
  unfolding exclude_hides_matching_file_def by (rule collects_eval [where k = 5]; ((rule order_free_intros)+ | code_simp))

lemma exclude_does_not_drop_the_root_ok: exclude_does_not_drop_the_root
  unfolding exclude_does_not_drop_the_root_def by (rule collects_eval [where k = 5]; ((rule order_free_intros)+ | code_simp))

lemma absolute_fallback_walk_is_complete_ok: absolute_fallback_walk_is_complete
  unfolding absolute_fallback_walk_is_complete_def Let_def
  by (rule exI [of _ "[''/t'', ''/t/a'', ''/t/a/b'', ''/t/a/sib'', ''/t/a/b/deep.txt'', ''/t/a/sib/s.txt'', ''/t/top.txt'']"], rule conjI; rule collects_eval [where k = 5];
      ((rule order_free_intros)+ | code_simp))

lemma limiter_does_not_change_entry_set_ok: limiter_does_not_change_entry_set
  unfolding limiter_does_not_change_entry_set_def Let_def
  by (rule exI [of _ "[''/t'', ''/t/a'', ''/t/a/f.txt'', ''/t/g.txt'']"], rule conjI; rule collects_eval [where k = 5];
      ((rule order_free_intros)+ | code_simp))

lemmas walk_tests_ok =
  entry_depth_reflects_distance_from_root_ok emits_root_and_all_descendants_ok
  terminates_on_empty_directory_ok max_depth_limits_descent_ok symlink_not_followed_by_default_ok
  symlinked_root_is_traversed_ok symlink_cycle_does_not_hang_ok multiple_roots_all_traversed_ok
  hidden_files_are_emitted_ok no_duplicate_or_lost_entries_ok max_depth_zero_emits_only_root_ok
  classifies_entry_types_ok follow_symlinks_descends_into_symlinked_dir_ok
  broken_symlink_emitted_not_descended_ok followed_symlink_dir_emitted_exactly_once_ok
  exclude_prunes_directory_subtree_ok exclude_hides_matching_file_ok exclude_does_not_drop_the_root_ok
  absolute_fallback_walk_is_complete_ok limiter_does_not_change_entry_set_ok


end
