(* ===== verification/Tests_Setup.thy ===== *)
theory Tests_Setup
  imports Run Tests_Meta Ratelimit
begin

text \<open>
  The unit tests of \<open>src/glob.rs\<close>, \<open>src/regex.rs\<close>, \<open>src/ratelimit.rs\<close>, \<open>src/interrupt.rs\<close> and \<open>src/lib.rs\<close>. They exercise
  the library below as much as the crate, so each is a predicate of that library, named after the test, and
  holds of every library that does what its documentation says of the few constructs the tests use. The
  documented meaning is written out as a small reference semantics.
\<close>

section \<open>Glob patterns\<close>

text \<open>
  The syntax documented for \<open>globset\<close>, as far as the tests use it: \<open>?\<close> is any one character, \<open>*\<close> any text, a leading
  \<open>**/\<close> any directories or none, every other character itself.
\<close>

datatype glob_token = AnyChar | AnyText | AnyDirs | Exactly char

definition glob_tokens :: "string \<Rightarrow> glob_token list" where
  "glob_tokens p =
     (let token = (\<lambda>c. if c = CHR ''?'' then AnyChar else if c = CHR ''*'' then AnyText else Exactly c)
      in if take 3 p = ''**/'' then AnyDirs # map token (drop 3 p) else map token p)"

fun tokens_match :: "(char \<Rightarrow> char \<Rightarrow> bool) \<Rightarrow> glob_token list \<Rightarrow> string \<Rightarrow> bool" where
  "tokens_match same [] s = (s = [])"
| "tokens_match same (AnyChar # ts) s = (s \<noteq> [] \<and> tokens_match same ts (drop 1 s))"
| "tokens_match same (Exactly c # ts) s = (s \<noteq> [] \<and> same c (hd s) \<and> tokens_match same ts (drop 1 s))"
| "tokens_match same (AnyText # ts) s = list_ex (\<lambda>k. tokens_match same ts (drop k s)) [0..<Suc (length s)]"
| "tokens_match same (AnyDirs # ts) s =
     (tokens_match same ts s
      \<or> list_ex (\<lambda>k. s ! k = CHR ''/'' \<and> tokens_match same ts (drop (Suc k) s)) [0..<length s])"

definition lower :: "char \<Rightarrow> char" where
  "lower c = (let n = (of_char c :: nat) in if 65 \<le> n \<and> n \<le> 90 then char_of (n + 32) else c)"

definition same_char :: "bool \<Rightarrow> char \<Rightarrow> char \<Rightarrow> bool" where
  "same_char ci c d = (if ci then lower c = lower d else c = d)"

definition ascii :: "string \<Rightarrow> bool" where
  "ascii s = list_all (\<lambda>c. of_char c < (128 :: nat)) s"

text \<open>Patterns without classes, alternatives, escapes and inner \<open>**\<close>; and a class that is never closed.\<close>

definition simple_glob :: "string \<Rightarrow> bool" where
  "simple_glob p =
     (let body = (if take 3 p = ''**/'' then drop 3 p else p)
      in ascii p \<and> list_all (\<lambda>c. c \<notin> set ''[]{}!,'' \<and> c \<noteq> CHR 0x5C) body
        \<and> list_all (\<lambda>(c, d). \<not> (c = CHR ''*'' \<and> d = CHR ''*'')) (zip body (drop 1 body)))"

definition unclosed_class :: "string \<Rightarrow> bool" where
  "unclosed_class p = (take 1 p = ''['' \<and> 2 \<le> length p \<and> list_all (\<lambda>c. of_char c \<in> {97..122 :: nat}) (drop 1 p))"

definition globset_documented :: "'g globset_lib \<Rightarrow> ('g \<Rightarrow> string \<Rightarrow> bool) \<Rightarrow> bool" where
  "globset_documented lib matches \<longleftrightarrow>
     (\<forall>gs f. gl_set_build lib gs = Inr f \<longrightarrow> f = (\<lambda>s. list_ex (\<lambda>g. matches g s) gs))
     \<and> (\<forall>gs. length gs \<le> 2 \<longrightarrow> is_ok (gl_set_build lib gs))
     \<and> (\<forall>ci p. simple_glob p \<longrightarrow> (\<exists>g. gl_build lib ci p = Inr g
         \<and> (\<forall>s. ascii s \<longrightarrow> matches g s = tokens_match (same_char ci) (glob_tokens p) s)))
     \<and> (\<forall>ci p. unclosed_class p \<longrightarrow> \<not> is_ok (gl_build lib ci p))"

definition test_build_glob_set_none :: "'g globset_lib \<Rightarrow> bool" where
  "test_build_glob_set_none lib = unwrapped (build_glob_set lib None False) (\<lambda>gs. \<not> gs ''anything'')"

definition test_build_glob_set_empty_vec :: "'g globset_lib \<Rightarrow> bool" where
  "test_build_glob_set_empty_vec lib = unwrapped (build_glob_set lib (Some []) False) (\<lambda>gs. \<not> gs ''anything'')"

definition test_build_glob_set_single_pattern :: "'g globset_lib \<Rightarrow> bool" where
  "test_build_glob_set_single_pattern lib =
     unwrapped (build_glob_set lib (Some [''*.rs'']) False) (\<lambda>gs. gs ''main.rs'' \<and> \<not> gs ''main.py'')"

definition test_build_glob_set_multiple_patterns :: "'g globset_lib \<Rightarrow> bool" where
  "test_build_glob_set_multiple_patterns lib =
     unwrapped (build_glob_set lib (Some [''*.rs'', ''*.toml'']) False)
       (\<lambda>gs. gs ''main.rs'' \<and> gs ''Cargo.toml'' \<and> \<not> gs ''main.py'')"

definition test_build_glob_set_case_sensitive :: "'g globset_lib \<Rightarrow> bool" where
  "test_build_glob_set_case_sensitive lib =
     unwrapped (build_glob_set lib (Some [''*.RS'']) False) (\<lambda>gs. \<not> gs ''main.rs'' \<and> gs ''main.RS'')"

definition test_build_glob_set_case_insensitive :: "'g globset_lib \<Rightarrow> bool" where
  "test_build_glob_set_case_insensitive lib =
     unwrapped (build_glob_set lib (Some [''*.RS'']) True) (\<lambda>gs. gs ''main.rs'' \<and> gs ''main.RS'')"

definition test_build_glob_set_invalid_pattern :: "'g globset_lib \<Rightarrow> bool" where
  "test_build_glob_set_invalid_pattern lib = (\<not> is_ok (build_glob_set lib (Some [''[invalid'']) False))"

definition test_build_glob_set_wildcard :: "'g globset_lib \<Rightarrow> bool" where
  "test_build_glob_set_wildcard lib =
     unwrapped (build_glob_set lib (Some [''*'']) False) (\<lambda>gs. gs ''anything'' \<and> gs ''file.txt'')"

definition test_build_glob_set_question_mark :: "'g globset_lib \<Rightarrow> bool" where
  "test_build_glob_set_question_mark lib =
     unwrapped (build_glob_set lib (Some [''?.rs'']) False) (\<lambda>gs. gs ''a.rs'' \<and> \<not> gs ''ab.rs'')"

definition test_build_glob_set_double_star :: "'g globset_lib \<Rightarrow> bool" where
  "test_build_glob_set_double_star lib =
     unwrapped (build_glob_set lib (Some [''**/*.rs'']) False)
       (\<lambda>gs. gs ''src/main.rs'' \<and> gs ''a/b/c.rs'' \<and> \<not> gs ''src/main.py'')"

text \<open>What the set built from simple patterns answers; the tests are instances of it.\<close>

definition globs_answer :: "string list \<Rightarrow> bool \<Rightarrow> string \<Rightarrow> bool" where
  "globs_answer ps ci s = list_ex (\<lambda>p. tokens_match (same_char ci) (glob_tokens p) s) ps"

lemma documented_glob:
  "globset_documented lib matches \<Longrightarrow> simple_glob p \<Longrightarrow> \<exists>g. gl_build lib ci p = Inr g
     \<and> (\<forall>s. ascii s \<longrightarrow> matches g s = tokens_match (same_char ci) (glob_tokens p) s)"
  unfolding globset_documented_def by blast

lemma simple_globs_build:
  assumes "globset_documented lib matches" "list_all simple_glob ps" "length ps \<le> 2"
  shows "\<exists>f. build_glob_set lib (Some ps) ci = Inr f \<and> (\<forall>s. ascii s \<longrightarrow> f s = globs_answer ps ci s)"
proof -
  have "\<exists>gs. list_all2 (\<lambda>p g. gl_build lib ci p = Inr g) ps gs"
    using assms(2)
  proof (induction ps)
    case (Cons p ps)
    then obtain gs where "list_all2 (\<lambda>p g. gl_build lib ci p = Inr g) ps gs" by auto
    moreover obtain g where "gl_build lib ci p = Inr g"
      using documented_glob [OF assms(1)] Cons.prems by (metis list.pred_inject(2))
    ultimately show ?case by (auto simp: list_all2_Cons1)
  qed (auto intro: exI [of _ "[]"])
  then obtain gs where gs: "list_all2 (\<lambda>p g. gl_build lib ci p = Inr g) ps gs" by blast
  then have "length gs \<le> 2" using assms(3) by (simp add: list_all2_lengthD)
  then obtain f where f: "gl_set_build lib gs = Inr f"
    using assms(1) by (auto simp: globset_documented_def is_ok_iff)
  have build: "build_glob_set lib (Some ps) ci = Inr f"
    using gs f by (auto simp: build_glob_set_def and_then_Inr_iff add_globs_Inr)
  have "f s = globs_answer ps ci s" if s: "ascii s" for s
  proof -
    have "f = (\<lambda>s. list_ex (\<lambda>g. matches g s) gs)"
      using assms(1) f unfolding globset_documented_def by blast
    then have "f s = list_ex (\<lambda>g. matches g s) gs" by simp
    also have "\<dots> = globs_answer ps ci s"
      using gs assms(2)
    proof (induction rule: list_all2_induct)
      case (Cons p ps g gs)
      have "matches g s = tokens_match (same_char ci) (glob_tokens p) s"
        using documented_glob [OF assms(1), of p ci] Cons.hyps(1) Cons.prems s by auto
      then show ?case using Cons by (simp add: globs_answer_def)
    qed (simp add: globs_answer_def)
    finally show ?thesis .
  qed
  with build show ?thesis by blast
qed

text \<open>The precondition of \<open>simple_globs_build\<close> and the expected answers, as one predicate to evaluate.\<close>

definition globs_expect :: "string list \<Rightarrow> bool \<Rightarrow> string list \<Rightarrow> string list \<Rightarrow> bool" where
  "globs_expect ps ci yes no \<longleftrightarrow>
     list_all simple_glob ps \<and> length ps \<le> 2 \<and> list_all ascii (yes @ no)
     \<and> list_all (globs_answer ps ci) yes \<and> list_all (\<lambda>s. \<not> globs_answer ps ci s) no"

lemma globs_expected:
  assumes "globset_documented lib matches" "globs_expect ps ci yes no"
  shows "unwrapped (build_glob_set lib (Some ps) ci) (\<lambda>gs. list_all gs yes \<and> list_all (\<lambda>s. \<not> gs s) no)"
proof -
  have "\<exists>f. build_glob_set lib (Some ps) ci = Inr f \<and> (\<forall>s. ascii s \<longrightarrow> f s = globs_answer ps ci s)"
    using assms by (intro simple_globs_build) (simp_all add: globs_expect_def)
  then show ?thesis using assms(2) by (auto simp: unwrapped_def globs_expect_def list_all_iff)
qed

lemma glob_expectations:
  "globs_expect [] False [] [''anything'']"
  "globs_expect [''*.rs''] False [''main.rs''] [''main.py'']"
  "globs_expect [''*.rs'', ''*.toml''] False [''main.rs'', ''Cargo.toml''] [''main.py'']"
  "globs_expect [''*.RS''] False [''main.RS''] [''main.rs'']"
  "globs_expect [''*.RS''] True [''main.rs'', ''main.RS''] []"
  "globs_expect [''*''] False [''anything'', ''file.txt''] []"
  "globs_expect [''?.rs''] False [''a.rs''] [''ab.rs'']"
  "globs_expect [''**/*.rs''] False [''src/main.rs'', ''a/b/c.rs''] [''src/main.py'']"
  by code_simp+

lemma invalid_pattern_rejected: "globset_documented lib matches \<Longrightarrow> test_build_glob_set_invalid_pattern lib"
proof -
  assume doc: "globset_documented lib matches"
  have "unclosed_class ''[invalid''" by code_simp
  then have "\<not> is_ok (gl_build lib False ''[invalid'')" using doc unfolding globset_documented_def by blast
  then show ?thesis
    by (simp add: test_build_glob_set_invalid_pattern_def build_glob_set_def is_ok_def split: sum.splits)
qed

text \<open>The tests of glob.rs pass with every \<open>globset\<close> that keeps to its documentation.\<close>

theorem glob_unit_tests_pass:
  assumes "globset_documented lib matches"
  shows "list_all (\<lambda>t. t lib)
    [test_build_glob_set_none, test_build_glob_set_empty_vec, test_build_glob_set_single_pattern,
     test_build_glob_set_multiple_patterns, test_build_glob_set_case_sensitive,
     test_build_glob_set_case_insensitive, test_build_glob_set_invalid_pattern, test_build_glob_set_wildcard,
     test_build_glob_set_question_mark, test_build_glob_set_double_star]"
proof -
  note expected = glob_expectations [THEN globs_expected [OF assms], simplified]
  have none: "build_glob_set lib None False = build_glob_set lib (Some []) False"
    by (simp add: build_glob_set_def)
  show ?thesis
    using expected invalid_pattern_rejected [OF assms]
    by (simp add: test_build_glob_set_none_def none test_build_glob_set_empty_vec_def
        test_build_glob_set_single_pattern_def test_build_glob_set_multiple_patterns_def
        test_build_glob_set_case_sensitive_def test_build_glob_set_case_insensitive_def
        test_build_glob_set_wildcard_def test_build_glob_set_question_mark_def
        test_build_glob_set_double_star_def conj_commute)
qed

text \<open>A library that does what is documented, by the reference semantics itself.\<close>

definition reference_globs :: "(bool \<times> string) globset_lib" where
  "reference_globs =
     \<lparr>gl_build = (\<lambda>ci p. if unclosed_class p then Inl ''unclosed character class'' else Inr (ci, p)),
      gl_set_build = (\<lambda>gs. Inr (\<lambda>s. list_ex (\<lambda>(ci, p). tokens_match (same_char ci) (glob_tokens p) s) gs))\<rparr>"

lemma unclosed_not_simple: "unclosed_class p \<Longrightarrow> \<not> simple_glob p"
  by (cases p) (auto simp: unclosed_class_def simple_glob_def Let_def)

theorem glob_unit_tests_pass_witness:
  "test_build_glob_set_double_star reference_globs \<and> test_build_glob_set_invalid_pattern reference_globs"
proof -
  have "globset_documented reference_globs (\<lambda>(ci, p). tokens_match (same_char ci) (glob_tokens p))"
    using unclosed_not_simple by (auto simp: globset_documented_def reference_globs_def case_prod_unfold)
  from glob_unit_tests_pass [OF this] show ?thesis by simp
qed

section \<open>Regular expressions\<close>

text \<open>
  The syntax documented for \<open>regex\<close>, as far as the tests use it: a text in which a full stop is escaped, to be found
  anywhere, at the start of the path after \<open>^\<close>, at its end before \<open>$\<close>.
\<close>

fun unescaped :: "string \<Rightarrow> string option" where
  "unescaped [] = Some []"
| "unescaped (c # cs) =
     (if c = CHR 0x5C then (case cs of [] \<Rightarrow> None | d # ds \<Rightarrow> if d = CHR ''.'' then map_option ((#) d) (unescaped ds) else None)
      else if c \<in> set ''.+*?()|[]{}^$#&-~'' then None
      else map_option ((#) c) (unescaped cs))"

definition regex_parts :: "string \<Rightarrow> (bool \<times> string \<times> bool) option" where
  "regex_parts p =
     (let from_start = (take 1 p = ''^''); p = (if from_start then drop 1 p else p);
          to_end = (p \<noteq> [] \<and> last p = CHR ''$''); p = (if to_end then butlast p else p)
      in if ascii p then map_option (\<lambda>text. (from_start, text, to_end)) (unescaped p) else None)"

definition parts_match :: "(char \<Rightarrow> char \<Rightarrow> bool) \<Rightarrow> bool \<times> string \<times> bool \<Rightarrow> string \<Rightarrow> bool" where
  "parts_match same r s =
     (case r of (from_start, text, to_end) \<Rightarrow>
        list_ex (\<lambda>k. (from_start \<longrightarrow> k = 0) \<and> (to_end \<longrightarrow> k + length text = length s)
            \<and> list_all2 same text (take (length text) (drop k s))) [0..<Suc (length s)])"

definition regexes_answer :: "string list \<Rightarrow> bool \<Rightarrow> string \<Rightarrow> bool" where
  "regexes_answer ps ci s = list_ex (\<lambda>p. parts_match (same_char ci) (the (regex_parts p)) s) ps"

definition regex_documented :: "regex_lib \<Rightarrow> bool" where
  "regex_documented lib \<longleftrightarrow>
     (\<forall>ps ci. length ps \<le> 2 \<and> list_all (\<lambda>p. regex_parts p \<noteq> None) ps \<longrightarrow>
        (\<exists>f. lib ps ci = Inr f \<and> (\<forall>s. ascii s \<longrightarrow> f s = regexes_answer ps ci s)))
     \<and> (\<forall>p ci. unclosed_class p \<longrightarrow> \<not> is_ok (lib [p] ci))"

definition test_build_regex_set_none :: "regex_lib \<Rightarrow> bool" where
  "test_build_regex_set_none lib = unwrapped (build_regex_set lib None False) (\<lambda>rs. \<not> rs ''anything'')"

definition test_build_regex_set_empty_vec :: "regex_lib \<Rightarrow> bool" where
  "test_build_regex_set_empty_vec lib = unwrapped (build_regex_set lib (Some []) False) (\<lambda>rs. \<not> rs ''anything'')"

text \<open>A backslash in the patterns of the tests.\<close>

abbreviation escaped :: "string \<Rightarrow> string" where
  "escaped cs \<equiv> CHR 0x5C # cs"

definition test_build_regex_set_single_pattern :: "regex_lib \<Rightarrow> bool" where
  "test_build_regex_set_single_pattern lib =
     unwrapped (build_regex_set lib (Some [escaped ''.rs$'']) False)
       (\<lambda>rs. rs ''/src/main.rs'' \<and> \<not> rs ''/src/main.py'')"

definition test_build_regex_set_multiple_patterns :: "regex_lib \<Rightarrow> bool" where
  "test_build_regex_set_multiple_patterns lib =
     unwrapped (build_regex_set lib (Some [escaped ''.rs$'', escaped ''.toml$'']) False)
       (\<lambda>rs. rs ''main.rs'' \<and> rs ''Cargo.toml'' \<and> \<not> rs ''main.py'')"

definition test_build_regex_set_case_sensitive :: "regex_lib \<Rightarrow> bool" where
  "test_build_regex_set_case_sensitive lib =
     unwrapped (build_regex_set lib (Some [escaped ''.RS$'']) False)
       (\<lambda>rs. \<not> rs ''/src/main.rs'' \<and> rs ''/src/main.RS'')"

definition test_build_regex_set_case_insensitive :: "regex_lib \<Rightarrow> bool" where
  "test_build_regex_set_case_insensitive lib =
     unwrapped (build_regex_set lib (Some [escaped ''.RS$'']) True)
       (\<lambda>rs. rs ''/src/main.rs'' \<and> rs ''/src/main.RS'')"

definition test_build_regex_set_invalid :: "regex_lib \<Rightarrow> bool" where
  "test_build_regex_set_invalid lib = (\<not> is_ok (build_regex_set lib (Some [''[invalid'']) False))"

definition test_build_regex_set_anchored :: "regex_lib \<Rightarrow> bool" where
  "test_build_regex_set_anchored lib =
     unwrapped (build_regex_set lib (Some [''^/src/'']) False)
       (\<lambda>rs. rs ''/src/main.rs'' \<and> \<not> rs ''/other/main.rs'')"

definition test_path_to_bytes_simple :: bool where
  "test_path_to_bytes_simple = (path_to_bytes ''/some/path/file.txt'' = ''/some/path/file.txt'')"

definition test_path_to_bytes_with_spaces :: bool where
  "test_path_to_bytes_with_spaces = (path_to_bytes ''/path/with spaces/file.txt'' = ''/path/with spaces/file.txt'')"

definition test_path_to_bytes_root :: bool where
  "test_path_to_bytes_root = (path_to_bytes ''/'' = ''/'')"

definition regexes_expect :: "string list \<Rightarrow> bool \<Rightarrow> string list \<Rightarrow> string list \<Rightarrow> bool" where
  "regexes_expect ps ci yes no \<longleftrightarrow>
     length ps \<le> 2 \<and> list_all (\<lambda>p. regex_parts p \<noteq> None) ps \<and> list_all ascii (yes @ no)
     \<and> list_all (regexes_answer ps ci) yes \<and> list_all (\<lambda>s. \<not> regexes_answer ps ci s) no"

lemma regexes_expected:
  assumes "regex_documented lib" "regexes_expect ps ci yes no"
  shows "unwrapped (build_regex_set lib (Some ps) ci) (\<lambda>rs. list_all rs yes \<and> list_all (\<lambda>s. \<not> rs s) no)"
proof -
  obtain f where "lib ps ci = Inr f" "\<forall>s. ascii s \<longrightarrow> f s = regexes_answer ps ci s"
    using assms unfolding regex_documented_def regexes_expect_def by blast
  then show ?thesis
    using assms(2) by (auto simp: build_regex_set_def unwrapped_def regexes_expect_def list_all_iff)
qed

lemma regex_expectations:
  "regexes_expect [] False [] [''anything'']"
  "regexes_expect [escaped ''.rs$''] False [''/src/main.rs''] [''/src/main.py'']"
  "regexes_expect [escaped ''.rs$'', escaped ''.toml$''] False [''main.rs'', ''Cargo.toml''] [''main.py'']"
  "regexes_expect [escaped ''.RS$''] False [''/src/main.RS''] [''/src/main.rs'']"
  "regexes_expect [escaped ''.RS$''] True [''/src/main.rs'', ''/src/main.RS''] []"
  "regexes_expect [''^/src/''] False [''/src/main.rs''] [''/other/main.rs'']"
  by code_simp+

text \<open>The tests of regex.rs pass with every \<open>regex\<close> that keeps to its documentation.\<close>

theorem regex_unit_tests_pass:
  assumes "regex_documented lib"
  shows "list_all (\<lambda>t. t lib)
      [test_build_regex_set_none, test_build_regex_set_empty_vec, test_build_regex_set_single_pattern,
       test_build_regex_set_multiple_patterns, test_build_regex_set_case_sensitive,
       test_build_regex_set_case_insensitive, test_build_regex_set_invalid, test_build_regex_set_anchored]
    \<and> list_all id [test_path_to_bytes_simple, test_path_to_bytes_with_spaces, test_path_to_bytes_root]"
proof -
  note expected = regex_expectations [THEN regexes_expected [OF assms], simplified]
  have none: "build_regex_set lib None False = build_regex_set lib (Some []) False"
    by (simp add: build_regex_set_def)
  have "unclosed_class ''[invalid''" by code_simp
  then have "test_build_regex_set_invalid lib"
    using assms by (simp add: test_build_regex_set_invalid_def build_regex_set_def regex_documented_def is_ok_def
        map_err_def split: sum.splits)
  then show ?thesis
    using expected
    by (simp add: test_build_regex_set_none_def none test_build_regex_set_empty_vec_def
        test_build_regex_set_single_pattern_def test_build_regex_set_multiple_patterns_def
        test_build_regex_set_case_sensitive_def test_build_regex_set_case_insensitive_def
        test_build_regex_set_anchored_def conj_commute path_to_bytes_def test_path_to_bytes_simple_def
        test_path_to_bytes_with_spaces_def test_path_to_bytes_root_def)
qed

definition reference_regexes :: regex_lib where
  "reference_regexes ps ci =
     (if list_ex unclosed_class ps then Inl ''unclosed character class'' else Inr (regexes_answer ps ci))"

lemma unclosed_not_parsed: "unclosed_class p \<Longrightarrow> regex_parts p = None"
  by (cases p) (auto simp: unclosed_class_def regex_parts_def Let_def)

theorem regex_unit_tests_pass_witness: "test_build_regex_set_anchored reference_regexes"
proof -
  have "regex_documented reference_regexes"
    using unclosed_not_parsed by (auto simp: regex_documented_def reference_regexes_def list_all_iff list_ex_iff)
  from regex_unit_tests_pass [OF this] show ?thesis by simp
qed

section \<open>The rate limiter\<close>

text \<open>
  What \<open>governor\<close> documents of a direct limiter with the quota \<open>per_second(rate)\<close>: a bucket that holds \<open>rate\<close> cells and
  is full at first; a cell comes back every \<open>1 s / rate\<close>. The contents are in nanoseconds of waiting, \<open>now i\<close> is the
  time of the \<open>i\<close>-th call.
\<close>

definition cell_time :: "u32 \<Rightarrow> nat" where
  "cell_time rate = 1000000000 div unat rate"

fun bucket :: "u32 \<Rightarrow> (nat \<Rightarrow> nat) \<Rightarrow> nat \<Rightarrow> nat" where
  "bucket rate now 0 = unat rate * cell_time rate"
| "bucket rate now (Suc i) =
     (let before = bucket rate now i;
          left = (if cell_time rate \<le> before then before - cell_time rate else before)
      in min (unat rate * cell_time rate) (left + (now (Suc i) - now i)))"

definition governor_documented :: "(u32 \<Rightarrow> (nat \<Rightarrow> nat) \<Rightarrow> nat \<Rightarrow> nat + unit) \<Rightarrow> bool" where
  "governor_documented direct \<longleftrightarrow>
     (\<forall>rate now i. 0 < rate \<longrightarrow> is_ok (direct rate now i) = (cell_time rate \<le> bucket rate now i))"

text \<open>The clock of the tests stands still but for \<open>advance\<close>.\<close>

definition lim :: "(u32 \<Rightarrow> (nat \<Rightarrow> nat) \<Rightarrow> nat \<Rightarrow> nat + unit) \<Rightarrow> u32 \<Rightarrow> (nat \<Rightarrow> nat) \<Rightarrow> Limiter" where
  "lim direct rate clock = with_clock direct rate clock"

definition try_acquire_allows_burst_then_denies :: "(u32 \<Rightarrow> (nat \<Rightarrow> nat) \<Rightarrow> nat \<Rightarrow> nat + unit) \<Rightarrow> bool" where
  "try_acquire_allows_burst_then_denies direct =
     (let l = lim direct 2 (\<lambda>i. 0); try = try_acquire (lim_inner l) (lim_clock l)
      in is_ok (try 0) \<and> is_ok (try 1) \<and> \<not> is_ok (try 2))"

definition try_acquire_replenishes_after_time :: "(u32 \<Rightarrow> (nat \<Rightarrow> nat) \<Rightarrow> nat \<Rightarrow> nat + unit) \<Rightarrow> bool" where
  "try_acquire_replenishes_after_time direct =
     (let l = lim direct 2 (\<lambda>i. if i < 3 then 0 else 500000000); try = try_acquire (lim_inner l) (lim_clock l)
      in is_ok (try 0) \<and> is_ok (try 1) \<and> \<not> is_ok (try 2) \<and> is_ok (try 3) \<and> \<not> is_ok (try 4))"

definition acquire_returns_false_when_quit_already_set :: "(u32 \<Rightarrow> (nat \<Rightarrow> nat) \<Rightarrow> nat \<Rightarrow> nat + unit) \<Rightarrow> bool" where
  "acquire_returns_false_when_quit_already_set direct =
     (let l = lim direct 1 (\<lambda>i. 0)
      in map_option fst (acquire (\<lambda>_. True) (lim_inner l) (lim_clock l) 0 []) = Some False)"

definition acquire_succeeds_immediately_when_token_available ::
    "(u32 \<Rightarrow> (nat \<Rightarrow> nat) \<Rightarrow> nat \<Rightarrow> nat + unit) \<Rightarrow> bool" where
  "acquire_succeeds_immediately_when_token_available direct =
     (let l = lim direct 5 (\<lambda>i. 0)
      in map_option fst (acquire (\<lambda>_. False) (lim_inner l) (lim_clock l) 0 []) = Some True)"

lemma is_ok_try_acquire:
  assumes "governor_documented direct" "0 < rate"
  shows "is_ok (try_acquire (lim_inner (lim direct rate now)) (lim_clock (lim direct rate now)) i)
    \<longleftrightarrow> cell_time rate \<le> bucket rate now i"
proof -
  have "is_ok (map_err g r) \<longleftrightarrow> is_ok r" for g :: "nat \<Rightarrow> nat" and r :: "nat + unit" by (cases r) simp_all
  then show ?thesis using assms by (simp add: governor_documented_def try_acquire_def lim_def with_clock_def)
qed

lemma bucket_numeral:
  "bucket rate now (numeral k) =
     (let before = bucket rate now (pred_numeral k);
          left = (if cell_time rate \<le> before then before - cell_time rate else before)
      in min (unat rate * cell_time rate) (left + (now (numeral k) - now (pred_numeral k))))"
  by (simp add: numeral_eq_Suc)

text \<open>The tests of ratelimit.rs pass with every \<open>governor\<close> that is the documented bucket.\<close>

theorem ratelimit_unit_tests_pass:
  assumes "governor_documented direct"
  shows "list_all (\<lambda>t. t direct)
    [try_acquire_allows_burst_then_denies, try_acquire_replenishes_after_time,
     acquire_returns_false_when_quit_already_set, acquire_succeeds_immediately_when_token_available]"
proof -
  have "is_ok (direct 5 (\<lambda>i. 0) 0)" using assms by (simp add: governor_documented_def cell_time_def)
  then have "direct 5 (\<lambda>i. 0) 0 = Inr ()" by (simp add: is_ok_iff)
  then have "acquire_succeeds_immediately_when_token_available direct"
    unfolding acquire_succeeds_immediately_when_token_available_def
    by (subst acquire.simps) (simp add: try_acquire_def lim_def with_clock_def ex_bool_eq)
  moreover have "acquire_returns_false_when_quit_already_set direct"
    unfolding acquire_returns_false_when_quit_already_set_def by (subst acquire.simps) simp
  ultimately show ?thesis
    using is_ok_try_acquire [OF assms, of 2]
    by (simp add: try_acquire_allows_burst_then_denies_def try_acquire_replenishes_after_time_def Let_def
        cell_time_def bucket_numeral)
qed

definition bucket_limiter :: "u32 \<Rightarrow> (nat \<Rightarrow> nat) \<Rightarrow> nat \<Rightarrow> nat + unit" where
  "bucket_limiter rate now i =
     (if cell_time rate \<le> bucket rate now i then Inr () else Inl (now i + cell_time rate - bucket rate now i))"

theorem ratelimit_unit_tests_pass_witness: "try_acquire_replenishes_after_time bucket_limiter"
proof -
  have "governor_documented bucket_limiter" by (simp add: governor_documented_def bucket_limiter_def)
  from ratelimit_unit_tests_pass [OF this] show ?thesis by simp
qed

section \<open>Signals and the descriptor limit\<close>

definition test_setup_interrupt_handler_returns_ok :: "(int \<Rightarrow> int + unit) \<Rightarrow> (int \<Rightarrow> disposition) \<Rightarrow> bool" where
  "test_setup_interrupt_handler_returns_ok register sigs = is_ok (fst (setup_interrupt_handler register sigs))"

definition test_setup_interrupt_handler_multiple_calls :: "(int \<Rightarrow> int + unit) \<Rightarrow> (int \<Rightarrow> disposition) \<Rightarrow> bool" where
  "test_setup_interrupt_handler_multiple_calls register sigs =
     (case setup_interrupt_handler register sigs of
        (r1, sigs1) \<Rightarrow> is_ok r1 \<and> is_ok (fst (setup_interrupt_handler register sigs1)))"

definition raise_nofile_limit_never_lowers_soft :: "(Rlimit \<Rightarrow> Rlimit \<Rightarrow> int + Rlimit) \<Rightarrow> Rlimit \<Rightarrow> bool" where
  "raise_nofile_limit_never_lowers_soft setrlimit lim0 =
     (let before = rl_current lim0; after = fst (raise_nofile_limit setrlimit lim0)
      in (case (before, after) of (Some b, Some a) \<Rightarrow> b \<le> a | _ \<Rightarrow> True))"

text \<open>
  The tests of interrupt.rs and lib.rs pass when each termination signal can be registered, any number of times, and
  \<open>setrlimit\<close> sets what it is asked to, the soft limit being at most the hard one before.
\<close>

theorem setup_unit_tests_pass:
  assumes "\<And>sig. sig \<in> set STOP_SIGNALS \<Longrightarrow> register sig = Inr ()"
    and "\<And>l l' l''. setrlimit l l' = Inr l'' \<Longrightarrow> l'' = l'" "limit_le (rl_current lim0) (rl_maximum lim0)"
  shows "test_setup_interrupt_handler_returns_ok register sigs
    \<and> test_setup_interrupt_handler_multiple_calls register sigs
    \<and> raise_nofile_limit_never_lowers_soft setrlimit lim0"
proof -
  have "is_ok (fst (setup_interrupt_handler register d))" for d
  proof -
    have "dropWhile (\<lambda>s. register s = Inr ()) STOP_SIGNALS = []" using assms(1) by (simp add: dropWhile_eq_Nil_conv)
    then show ?thesis unfolding setup_interrupt_handler_def register_all_spec Let_def by (simp only: list.case fst_conv is_ok_simps)
  qed
  moreover have "limit_le (rl_current lim0) (fst (raise_nofile_limit setrlimit lim0))"
    using nofile_limit_never_lowered [of setrlimit lim0] assms(2,3) by blast
  then have "raise_nofile_limit_never_lowers_soft setrlimit lim0"
    by (auto simp: raise_nofile_limit_never_lowers_soft_def Let_def limit_le_def split: option.splits)
  ultimately show ?thesis
    by (simp add: test_setup_interrupt_handler_returns_ok_def test_setup_interrupt_handler_multiple_calls_def
        case_prod_unfold)
qed

theorem setup_unit_tests_pass_witness:
  "raise_nofile_limit_never_lowers_soft (\<lambda>_ l. Inr l) \<lparr>rl_current = Some 1024, rl_maximum = Some 4096\<rparr>"
  using setup_unit_tests_pass [of "\<lambda>_. Inr ()" "\<lambda>_ l. Inr l" "\<lparr>rl_current = Some 1024, rl_maximum = Some 4096\<rparr>"]
  by (simp add: limit_le_def)

end
