(* ===== verification/Spec2Isabelle.thy ===== *)
theory Spec2Isabelle
  imports Args_Values Fallback Ratelimit Descriptors Depth_Cut Exclude_Cut Process Swapped Changing_Example
    Tests_Args Tests_Walk Tests_Setup
begin

text \<open>
  minifind: a parallel \<open>find(1)\<close>. This is the verification development of the crate; it models the
  Linux build of everything under \<open>src/\<close> and states what makes it correct. Each theory opens with
  what it holds; this header says how they fit together.

  The program. \<open>main\<close> (main.rs) parses the command line (args.rs), sets up the process (interrupt.rs,
  sched.rs, \<open>raise_nofile_limit\<close>) and calls \<open>run\<close> (lib.rs). \<open>run\<close> compiles the patterns (glob.rs,
  regex.rs), starts an output thread, and lets \<open>walk_parallel\<close> (walk.rs) walk the starting paths with
  worker threads that steal tasks from each other; the file system is reached through one of two
  platform leaves (walk/unix.rs, walk/fallback.rs), directory reads are throttled by ratelimit.rs. Each
  worker has a visitor that tests every entry against the type filter (filetype.rs), the patterns and
  the metadata predicates (meta.rs), and batches the entries it keeps into a bounded channel to the
  output thread, which writes their paths and stops at the result limit.

  Theories and sources.
  \<^item> \<open>Prelude\<close>: integers, strings, results, and the parts of the Rust standard library that several
    components use (\<open>from_str_radix\<close>, \<open>split\<close>, \<open>Path::join\<close>, \<open>file_name\<close>).
  \<^item> \<open>Meta\<close>, \<open>Perm\<close>, \<open>Predicates\<close>, \<open>Nss\<close> (meta.rs): the comparisons and their parsers, symbolic and octal
    modes, the predicate set with its statx mask, and the account lookups with the per-thread memo.
  \<^item> \<open>Filetype\<close> (filetype.rs): the one-AND type test and \<open>--empty\<close>.
  \<^item> \<open>Args\<close>, \<open>Args_Correct\<close> (args.rs): the find spellings, every arm of the option loop, the final checks.
    \<open>Args_Values\<close>: what a command line means, as a function of its options and operands, and when it is
    rejected; one locale interpretation per field of \<open>Args\<close>. \<open>Help\<close>: the help text, compared with the tables of
    the parser.
  \<^item> \<open>Walk\<close> (walk.rs): tasks, the metadata handle, \<open>process\<close>/\<open>descend\<close>, and \<open>walk_step\<close>, the step
    relation of all workers (one step is one atomic action of one worker). \<open>Walk_Engine\<close>: accounting
    for tasks and the meaning of \<open>pending\<close>. \<open>Walk_Tree\<close>: the sequential walk as the specification.
    \<open>Walk_Correct\<close>, \<open>Walk_Progress\<close>: refinement, cuts, bounded work, no deadlock. \<open>Depth_Cut\<close>: \<open>--max-depth\<close> as a
    filter. \<open>Descriptors\<close>: how many directories the queued tasks keep open.
  \<^item> \<open>Leaf\<close>, \<open>Unix\<close>, \<open>Fallback\<close> (walk/unix.rs, walk/fallback.rs): the locale of what the walker needs of a
    leaf, and the two leaves as its interpretations. \<open>Paths\<close>: how paths are spelled, and that none is printed
    twice. \<open>Exhaustion\<close>: the fallback of \<open>open_child\<close> when descriptors run out. \<open>Exclude_Cut\<close>: \<open>--exclude\<close> as
    a filter.
  \<^item> \<open>Patterns\<close> (glob.rs, regex.rs), \<open>Ratelimit\<close> (ratelimit.rs), \<open>Interrupt\<close> (interrupt.rs, sched.rs).
  \<^item> \<open>Batch\<close>, \<open>Entry_Filter\<close>, \<open>Pipeline\<close>, \<open>Pipeline_Correct\<close>, \<open>Pipeline_Progress\<close> (lib.rs): \<open>BatchSender\<close>, the
    visitor, and \<open>pipeline_step\<close>, the step relation of a whole run, whose worker steps are the steps
    of \<open>walk_step\<close> with the visitor as it is at that moment (channel open or closed, signal seen or
    not). \<open>Quitting\<close>: how a signal and the result limit stop a run. \<open>Run\<close> (lib.rs, main.rs): the
    wiring, \<open>run\<close> and \<open>main\<close>. \<open>Tuning\<close>: the options that only change speed, and the errors of \<open>run\<close>.
    \<open>Process\<close>: from \<open>argv\<close> to the exit status.
  \<^item> \<open>Changing\<close>, \<open>Changing_End\<close>, \<open>Changing_Run\<close>: the walk and the run over a file system that other processes
    change meanwhile: every step sees a platform of its own (\<open>changing_reach\<close>, \<open>changing_run\<close>). \<open>Swapped\<close>: the
    same with the system calls of walk/unix.rs, against directories swapped for symlinks.
  \<^item> \<open>Walk_Example\<close>, \<open>Run_Example\<close>, \<open>Changing_Example\<close>: concrete file systems and command lines for the witnesses.
  \<^item> \<open>Tests_Args\<close>, \<open>Tests_Meta\<close>, \<open>Tests_Walk\<close> (the test modules of args.rs, meta.rs, filetype.rs, walk.rs): the unit
    tests, each as a definition named after it of what it asserts, proved by evaluation; those of the
    walker on an in-memory file system and for every interleaving. \<open>Tests_Setup\<close> (glob.rs, regex.rs, ratelimit.rs,
    interrupt.rs, lib.rs): those that exercise a library, for every library that does what it documents.

  What the lemmas show. Values: the predicates are the conjunction they stand for, decide on a
  partial \<open>statx\<close> as on the full metadata, and cannot panic once parsed. Command line: the parser
  returns; what it accepts is well formed and is what its options say; what it rejects, it rejects for the
  first problem. Walk: whatever the interleaving, the entries visited
  are those of the sequential walk, each exactly as often; termination detection is sound; the work
  is bounded; the depth, mount point and exclude cuts hold, depth and exclude being filters; queued tasks pin
  at most depth times workers directories; running out of descriptors loses no entry. Changing file system: the
  accounting, the cuts and, under \<open>--max-depth\<close>, the end of the walk do not rest on a tree that stands still; what is
  printed passed the filters at some moment, and what passes them at every moment is printed; without
  \<open>-L\<close> no swap of a directory for a symlink leads the walk out of the tree. Pipeline: every kept entry is in a buffer,
  in the channel, with the output thread or printed; so an uninterrupted run prints exactly the
  matches, or exactly \<open>n\<close> of them under \<open>--max-results n\<close>; memory is bounded; no state is a deadlock;
  a signal lets the walk visit at most one more entry per outstanding task, while the result limit
  stops the walk only once 256 matches are refused. No path is printed twice from one starting path; threads,
  scan rate and \<open>--idle\<close> have no influence on what is printed; \<open>run\<close> can only fail before it walks,
  and the exit status is settled there.
  The root theory joins parser, setup, walk and pipeline into one statement.

  Bounds. \<open>roots_fit ctx pf k roots\<close> says that the tree below the roots is at most \<open>k\<close> high; \<open>walk_tree\<close>
  takes \<open>k\<close> as fuel and does not depend on it once it fits. \<open>walk_height_bounded\<close> gives such a \<open>k\<close>
  under \<open>--max-depth\<close>, and under \<open>--follow-symlinks\<close> from the cycle test when there are finitely many
  directories. The retry loop of the account lookups doubles its buffer up to \<open>2 ^ 63\<close> bytes.
  Counters are words of 64 bits where the code uses them; \<open>pending\<close> and times are unbounded or
  wrap as the code does (overflow checks are off in the release profile).

  Parameters. lexopt, globset, regex, governor, the crossbeam deques and channel (a FIFO of the given
  capacity; a deque steal may miss or take any batch), rustix, libc and std's file system calls are
  arguments or nondeterministic steps. What a theorem needs of them is a hypothesis of it.

  Not modelled. The warning and error message texts, the allocator, buffer capacities, write errors (the code
  ignores them), and the arms of other operating systems except the fallback leaf and \<open>do_stat\<close>;
  of the unit tests those of path normalisation, of the real machine, of the counter of absolute opens and of a chain
  of 50 directories; the integration tests and benchmarks. Beyond that only imports, attributes and comments are left. The file system is
  a function of the moment: the theorems that compare with the sequential walk need it to stand still, the \<open>Changing\<close>
  theories and \<open>Swapped\<close> do not, but there, too, it does not change within one step (opening and listing a directory,
  or one call of the visitor). A relaxed load may miss a store of the same step
  sequence (\<open>seen\<close>, \<open>look\<close>) but values are not otherwise reordered. Real time is not modelled, so
  liveness is that the end stays reachable, together with the bound on the work.
\<close>

section \<open>From the command line to the output\<close>

text \<open>
  C1. The program from end to end. For a command line the parser accepts, a run that is not interrupted
  and has no result limit writes, one line per entry, exactly the entries of the sequential walk of
  the distinct starting paths that meet every option, each as often as the walk visits it, however
  the threads interleave.
\<close>

theorem accepted_run_prints_exactly_the_matches:
  assumes "parse_inner lx penv argv = Some (Some (Inr (Run args)))"
    and "fst (run_setup env args sigs) = Inr (f, exclude)"
    and "run_returns env os pf args sigs False (Inr out)"
    and "roots_fit (run_ctx args exclude) pf k (unique_paths args)"
    and "lookups_answer os" "max_results_cap args = None"
  shows "\<exists>es. out = concat (map (\<lambda>e. e_path e @ [print_separator args]) es)
    \<and> mset es = matching env os pf args (roots_tree (run_ctx args exclude) pf k (unique_paths args))"
proof -
  obtain es where es: "out = concat (map (output_line (print_separator args)) es)"
    "mset es \<subseteq># matching env os pf args (roots_tree (run_ctx args exclude) pf k (unique_paths args))"
    "length es = size (matching env os pf args (roots_tree (run_ctx args exclude) pf k (unique_paths args)))"
    using whole_run [OF accepted_args [OF assms(1)] assms(5,2,3,4)] assms(6) by auto
  then have "mset es = matching env os pf args (roots_tree (run_ctx args exclude) pf k (unique_paths args))"
    by (metis mset_subset_size size_mset less_irrefl subset_mset.le_imp_less_or_eq)
  with es(1) show ?thesis by blast
qed

theorem accepted_run_prints_exactly_the_matches_witness:
  "\<exists>out es. parse_inner simple_lexopt simple_env work_argv = Some (Some (Inr (Run work_args)))
    \<and> run_returns demo_env quiet_os work_pf work_args (\<lambda>_. SigDfl) False (Inr out)
    \<and> out = concat (map (\<lambda>e. e_path e @ [CHR 0x0A]) es)
    \<and> mset es = {#work_entry ''/work/a'' File 1, work_entry ''/work/d/b'' File 2#}"
proof -
  obtain f where f: "fst (run_setup demo_env work_args (\<lambda>_. SigDfl)) = Inr (f, None)" using work_setup by blast
  obtain out where out: "run_returns demo_env quiet_os work_pf work_args (\<lambda>_. SigDfl) False (Inr out)"
    using run_exists [OF accepted_args [OF work_parse] quiet_lookups f work_fits] by blast
  have cap: "max_results_cap work_args = None" "print_separator work_args = CHR 0x0A"
    by (simp_all add: max_results_cap_def print_separator_def work_args_def)
  from accepted_run_prints_exactly_the_matches [OF work_parse f out work_fits quiet_lookups cap(1)]
  have "\<exists>es. out = concat (map (\<lambda>e. e_path e @ [CHR 0x0A]) es)
      \<and> mset es = {#work_entry ''/work/a'' File 1, work_entry ''/work/d/b'' File 2#}"
    unfolding cap(2) work_matching .
  with out work_parse show ?thesis by blast
qed

end
